(* ===== verification/Prelude.thy ===== *)
theory Prelude
  imports Main "HOL-Library.Word" "HOL-Library.Multiset"
begin

text \<open>
  Shared vocabulary of the development: the machine types of the Go sources (time stamps,
  durations, bytes, strings), the byte-order routines of \<^verbatim>\<open>encoding/binary\<close>, the string
  routines of \<^verbatim>\<open>strings\<close> the components call, and the interface of a transition system
  with an inductive invariant, which every stateful component interprets.
\<close>

unbundle bit_operations_syntax

named_theorems codec_simps \<open>unfolding rules of the wire codecs\<close>
named_theorems frame_simps \<open>fields an operation leaves alone\<close>

subsection \<open>Time\<close>

text \<open>
  A \<^verbatim>\<open>time.Time\<close> is an instant in nanoseconds and a \<^verbatim>\<open>time.Duration\<close> a signed number of
  nanoseconds. Where the code tests \<^verbatim>\<open>IsZero\<close> the field is a \<^typ>\<open>int option\<close>, with
  \<^term>\<open>None\<close> for the zero time.
\<close>

type_synonym time = int
type_synonym duration = int

definition Millisecond :: duration where
  "Millisecond = 1000000"

definition Second :: duration where
  "Second = 1000 * Millisecond"

definition Minute :: duration where
  "Minute = 60 * Second"

lemmas time_defs = Millisecond_def Second_def Minute_def

lemma Second_pos [simp]: "0 < Second"
  by (simp add: time_defs)

subsection \<open>Byte order\<close>

type_synonym byte = "8 word"
type_synonym bytes = "8 word list"

definition put_le16 :: "16 word \<Rightarrow> bytes" where
  "put_le16 w = [ucast w, ucast (drop_bit 8 w)]"

definition le16 :: "bytes \<Rightarrow> 16 word" where
  "le16 b = ucast (b ! 0) OR push_bit 8 (ucast (b ! 1))"

definition put_le32 :: "32 word \<Rightarrow> bytes" where
  "put_le32 w = [ucast w, ucast (drop_bit 8 w), ucast (drop_bit 16 w), ucast (drop_bit 24 w)]"

definition le32 :: "bytes \<Rightarrow> 32 word" where
  "le32 b = ucast (b ! 0) OR push_bit 8 (ucast (b ! 1)) OR push_bit 16 (ucast (b ! 2)) OR
     push_bit 24 (ucast (b ! 3))"

definition put_be32 :: "32 word \<Rightarrow> bytes" where
  "put_be32 w = rev (put_le32 w)"

definition be32 :: "bytes \<Rightarrow> 32 word" where
  "be32 b = le32 (rev (take 4 b))"

lemma length_put [simp]:
  "length (put_le16 w) = 2" "length (put_le32 v) = 4" "length (put_be32 v) = 4"
  by (simp_all add: put_le16_def put_le32_def put_be32_def)

lemma le16_put [simp]: "le16 (put_le16 w) = w"
proof (rule bit_word_eqI)
  fix n assume "n < LENGTH(16)"
  then have "n < 8 \<or> (8 \<le> n \<and> n - 8 < 8)" by auto
  then show "bit (le16 (put_le16 w)) n \<longleftrightarrow> bit w n"
    by (auto simp: le16_def put_le16_def bit_simps)
qed

lemma le32_put [simp]: "le32 (put_le32 w) = w"
proof (rule bit_word_eqI)
  fix n assume "n < LENGTH(32)"
  then consider "n < 8" | "8 \<le> n" "n < 16" | "16 \<le> n" "n < 24" | "24 \<le> n" "n < 32" by force
  then show "bit (le32 (put_le32 w)) n \<longleftrightarrow> bit w n"
    by cases (auto simp: le32_def put_le32_def bit_simps)
qed

lemma bit_byte_high [simp]: "8 \<le> n \<Longrightarrow> \<not> bit (b :: byte) n"
  by (auto dest: bit_imp_le_length)

lemma put_le16_le16: "put_le16 (le16 [a, b]) = [a, b]"
  by (auto simp: le16_def put_le16_def bit_simps intro!: bit_word_eqI)

lemma put_le32_le32: "put_le32 (le32 [a, b, c, d]) = [a, b, c, d]"
  by (auto simp: le32_def put_le32_def bit_simps intro!: bit_word_eqI)

lemma be32_put [simp]: "be32 (put_be32 w) = w"
  by (simp add: be32_def put_be32_def put_le32_def) (simp flip: put_le32_def)

definition put_be64 :: "64 word \<Rightarrow> bytes" where
  "put_be64 w = put_be32 (ucast (drop_bit 32 w)) @ put_be32 (ucast w)"

definition be64 :: "bytes \<Rightarrow> 64 word" where
  "be64 b = push_bit 32 (ucast (be32 (take 4 b))) OR ucast (be32 (take 4 (drop 4 b)))"

lemma length_put_be64 [simp]: "length (put_be64 w) = 8"
  by (simp add: put_be64_def)

lemma bit_half_high [simp]: "32 \<le> n \<Longrightarrow> \<not> bit (w :: 32 word) n"
  by (auto dest: bit_imp_le_length)

lemma be64_put [simp]: "be64 (put_be64 w) = w"
proof (rule bit_word_eqI)
  fix n assume "n < LENGTH(64)"
  then have "n < 32 \<or> (32 \<le> n \<and> n - 32 < 32)" by auto
  then show "bit (be64 (put_be64 w)) n \<longleftrightarrow> bit w n"
    by (auto simp: be64_def put_be64_def bit_simps)
qed

lemma put_be64_inject: "put_be64 v = put_be64 w \<longleftrightarrow> v = w"
  by (metis be64_put)

subsection \<open>Strings\<close>

text \<open>
  Go strings are byte sequences, here \<^typ>\<open>string\<close>. \<open>TrimSpace\<close> is \<^verbatim>\<open>strings.TrimSpace\<close>
  on ASCII input (the six ASCII space characters); \<open>Split\<close> and \<open>Join\<close> are
  \<^verbatim>\<open>strings.Split\<close> and \<^verbatim>\<open>strings.Join\<close> for a separator of one character; \<open>ToLower\<close> is
  \<^verbatim>\<open>strings.ToLower\<close> on ASCII input.
\<close>

definition is_space :: "char \<Rightarrow> bool" where
  "is_space c \<longleftrightarrow> of_char c \<in> {9, 10, 11, 12, 13, 32 :: nat}"

definition TrimLeft :: "string \<Rightarrow> string" where
  "TrimLeft s = dropWhile is_space s"

definition TrimSpace :: "string \<Rightarrow> string" where
  "TrimSpace s = rev (TrimLeft (rev (TrimLeft s)))"

fun Split :: "char \<Rightarrow> string \<Rightarrow> string list" where
  "Split c [] = [[]]"
| "Split c (x # xs) =
     (if x = c then [] # Split c xs
      else (case Split c xs of [] \<Rightarrow> [[x]] | y # ys \<Rightarrow> (x # y) # ys))"

fun Join :: "char \<Rightarrow> string list \<Rightarrow> string" where
  "Join c [] = []"
| "Join c [s] = s"
| "Join c (s # t # ss) = s @ c # Join c (t # ss)"

definition ToLower :: "string \<Rightarrow> string" where
  "ToLower s = map (\<lambda>c. if 65 \<le> (of_char c :: nat) \<and> (of_char c :: nat) \<le> 90
     then char_of (of_char c + 32 :: nat) else c) s"

definition HasPrefix :: "string \<Rightarrow> string \<Rightarrow> bool" where
  "HasPrefix s p \<longleftrightarrow> take (length p) s = p"

definition TrimPrefix :: "string \<Rightarrow> string \<Rightarrow> string" where
  "TrimPrefix s p = (if HasPrefix s p then drop (length p) s else s)"

definition upper_char :: "char \<Rightarrow> char" where
  "upper_char c = (if 97 \<le> (of_char c :: nat) \<and> (of_char c :: nat) \<le> 122
     then char_of (of_char c - 32 :: nat) else c)"

definition ToUpper :: "string \<Rightarrow> string" where
  "ToUpper s = map upper_char s"

definition EqualFold :: "string \<Rightarrow> string \<Rightarrow> bool" where
  "EqualFold s t \<longleftrightarrow> ToUpper s = ToUpper t"

lemma Split_not_Nil [simp]: "Split c s \<noteq> []"
  by (induction s) (auto split: list.splits)

lemma Split_no_sep: "c \<notin> set s \<Longrightarrow> Split c s = [s]"
  by (induction s) auto

lemma Split_sep_free: "p \<in> set (Split c s) \<Longrightarrow> c \<notin> set p"
  by (induction s arbitrary: p) (fastforce split: list.splits if_splits)+

lemma Split_append_sep: "c \<notin> set s \<Longrightarrow> Split c (s @ c # t) = s # Split c t"
  by (induction s) auto

lemma Split_append: "Split c (s @ c # t) = Split c s @ Split c t"
  by (induction s) (auto split: list.splits)

lemma Split_Join:
  "ss \<noteq> [] \<Longrightarrow> \<forall>s \<in> set ss. c \<notin> set s \<Longrightarrow> Split c (Join c ss) = ss"
  by (induction c ss rule: Join.induct) (auto simp: Split_no_sep Split_append_sep)

lemma TrimLeft_idem [simp]: "TrimLeft (TrimLeft s) = TrimLeft s"
  by (simp add: TrimLeft_def)

lemma find_Some_set: "List.find P xs = Some x \<Longrightarrow> x \<in> set xs \<and> P x"
  by (auto simp: find_Some_iff)

lemma set_TrimSpace: "set (TrimSpace s) \<subseteq> set s"
  by (auto simp: TrimSpace_def TrimLeft_def dest!: set_dropWhileD)

lemma TrimSpace_sep_free: "c \<notin> set s \<Longrightarrow> c \<notin> set (TrimSpace s)"
  using set_TrimSpace by blast

subsection \<open>Association of instances to slots\<close>

text \<open>Go's \<^verbatim>\<open>delete(m, k)\<close>.\<close>

abbreviation map_del :: "('k \<rightharpoonup> 'v) \<Rightarrow> 'k \<Rightarrow> ('k \<rightharpoonup> 'v)" where
  "map_del m k \<equiv> m(k := None)"

lemma nth_update_any: "r < length xs \<Longrightarrow> xs[i := v] ! r = (if i = r then v else xs ! r)"
  by simp

subsection \<open>Transition systems with an inductive invariant\<close>

text \<open>
  The contract of every stateful component: an initial condition, a step relation and an
  invariant the steps keep. The client's facts about whole runs are proved once, here.
\<close>

locale inductive_invariant =
  fixes init :: "'s \<Rightarrow> bool"
    and step :: "'s \<Rightarrow> 's \<Rightarrow> bool"
    and inv :: "'s \<Rightarrow> bool"
  assumes init_inv: "init s \<Longrightarrow> inv s"
    and step_inv: "inv s \<Longrightarrow> step s t \<Longrightarrow> inv t"
begin

lemma steps_inv: "step\<^sup>*\<^sup>* s t \<Longrightarrow> inv s \<Longrightarrow> inv t"
  by (induction rule: rtranclp_induct) (auto intro: step_inv)

lemma reachable_inv: "init s \<Longrightarrow> step\<^sup>*\<^sup>* s t \<Longrightarrow> inv t"
  by (blast intro: steps_inv init_inv)

end

subsection \<open>Slots with owners\<close>

text \<open>
  The contract of a table whose slots are taken over by newer owners while the older owner's
  deferred cleanup is still to come: a cleanup removes the slot only for its present owner.
\<close>

locale slot_table =
  fixes owner :: "'m \<Rightarrow> 'k \<Rightarrow> 'r option"
    and take_slot :: "'m \<Rightarrow> 'k \<Rightarrow> 'r \<Rightarrow> 'm"
    and drop_slot :: "'m \<Rightarrow> 'k \<Rightarrow> 'r \<Rightarrow> 'm"
  assumes owner_take: "owner (take_slot m k r) j = (if j = k then Some r else owner m j)"
    and owner_drop: "owner (drop_slot m k r) j = (if j = k \<and> owner m k = Some r then None else owner m j)"
begin

lemma drop_stale: "owner m k = Some r \<Longrightarrow> r \<noteq> r' \<Longrightarrow> owner (drop_slot m k r') k = Some r"
  by (simp add: owner_drop)

lemma drops_stale:
  "owner m k = Some r \<Longrightarrow> r \<notin> set rs \<Longrightarrow> owner (foldl (\<lambda>m r'. drop_slot m k r') m rs) k = Some r"
  by (induction rs arbitrary: m) (simp_all add: owner_drop)

lemma last_taker_owns:
  "r \<notin> set rs \<Longrightarrow> owner (foldl (\<lambda>m r'. drop_slot m k r') (take_slot m k r) rs) k = Some r"
  by (rule drops_stale) (simp_all add: owner_take)

lemma owner_releases:
  "owner m k = Some r \<Longrightarrow> owner (drop_slot m k r) k = None"
  by (simp add: owner_drop)

end

end
