(* ===== verification/Message.thy ===== *)
theory Message
  imports Prelude
begin

text \<open>
  The control-plane vocabulary shared by server and agent: the records of
  \<^verbatim>\<open>internal/agent/infra/message.go\<close>, the peer identifiers and the two-index peer store of
  \<^verbatim>\<open>peer.go\<close>, and the relay pseudo-addresses of \<^verbatim>\<open>wrrp.go\<close>. A record field whose name two
  structs share carries the struct's initial. \<open>ParseKey\<close>, which decodes a WireGuard key, is
  \<^verbatim>\<open>wgtypes.ParseKey\<close>, a parameter.
\<close>

subsection \<open>Records\<close>

record Peer =
  Name :: string
  InterfaceName :: string
  Platform :: string
  Description :: string
  NetworkId :: string
  CreatedBy :: string
  UserId :: "64 word"
  Hostname :: string
  AppID :: string
  Address :: "string option"
  Endpoint :: string
  Remove :: bool
  PresharedKey :: string
  PersistentKeepalive :: int
  PrivateKey :: string
  PublicKey :: string
  PeerID :: "64 word"
  AllowedIPs :: string
  ReplacePeers :: bool
  Port :: int
  GroupName :: string
  Version :: "64 word"
  LastUpdatedAt :: string
  Token :: string
  RelayURL :: string
  EnforcerMode :: string
  Tier :: string
  ApprovalStatus :: string
  Labels :: "string \<rightharpoonup> string"
  AdvertisedRoutes :: "string list"

record Network =
  n_Address :: string
  n_AllowedIps :: "string list"
  n_Port :: int
  n_NetworkId :: string
  NetworkName :: string
  Peers :: "Peer list"

record Rule =
  PeerNames :: "string list"
  CIDRs :: "string list"
  IdentityRefs :: "string list"
  Protocol :: string
  r_Port :: int
  Action :: string

record Policy =
  PolicyName :: string
  p_Action :: string
  Ingress :: "Rule list"
  Egress :: "Rule list"

record TrafficRule =
  ChainName :: string
  t_Peers :: "string list"
  t_Protocol :: string
  t_Port :: int
  t_Action :: string

record FirewallRule =
  f_Platform :: string
  f_PolicyName :: string
  f_Ingress :: "TrafficRule list"
  f_Egress :: "TrafficRule list"

record Entry =
  e_Type :: string
  e_Action :: string
  e_Message :: string

record DetailsInfo =
  AddressChanged :: bool
  KeyChanged :: bool
  EndpointChanged :: bool
  PeersAdded :: "Peer list"
  PeersRemoved :: "Peer list"
  PeersUpdated :: "string list"
  PoliciesAdded :: "Policy list"
  PoliciesRemoved :: "Policy list"
  PoliciesUpdated :: "Policy list"
  NetworkJoined :: "string list"
  NetworkLeft :: "string list"
  NetworkConfigChanged :: bool
  Reason :: "Entry list"
  TotalChanges :: int

datatype EventType = EventTypeJoinNetwork | EventTypeLeaveNetwork | EventTypeNodeUpdate | EventTypeNodeAdd
  | EventTypeNodeRemove | EventTypeIPChange | EventTypeKeyChanged | EventTypeNetworkChanged
  | EventTypePolicyChanged | EventTypeNone

record Message =
  EventType :: EventType
  ConfigVersion :: string
  Timestamp :: int
  Changes :: "DetailsInfo option"
  Current :: "Peer option"
  m_Network :: "Network option"
  Policies :: "Policy list"
  ComputedPeers :: "Peer list"
  ComputedRules :: "FirewallRule option"
  m_Labels :: "string \<rightharpoonup> string"

definition EventType_String :: "EventType \<Rightarrow> string" where
  "EventType_String e = (case e of
       EventTypeJoinNetwork \<Rightarrow> ''joinNetwork'' | EventTypeLeaveNetwork \<Rightarrow> ''leaveNetwork''
     | EventTypeNodeUpdate \<Rightarrow> ''nodeUpdate'' | EventTypeNodeAdd \<Rightarrow> ''nodeAdd''
     | EventTypeIPChange \<Rightarrow> ''ipChange'' | _ \<Rightarrow> ''unknown'')"

text \<open>
  \<^verbatim>\<open>reflect.DeepEqual\<close> on these values is equality. \<^term>\<open>None\<close> is the nil dereference of the
  last comparison, reached when everything before it is equal.
\<close>

definition Message_Equal :: "Message \<Rightarrow> Message \<Rightarrow> bool option" where
  "Message_Equal m b =
     (if EventType m \<noteq> EventType b then Some False
      else if m_Network m \<noteq> m_Network b then Some False
      else if Policies m \<noteq> Policies b then Some False
      else if ComputedPeers m \<noteq> ComputedPeers b then Some False
      else if ComputedRules m \<noteq> ComputedRules b then Some False
      else (case (Current m, Current b) of
              (Some p, Some q) \<Rightarrow> Some (Name p = Name q)
            | _ \<Rightarrow> None))"

definition HasChanges :: "DetailsInfo \<Rightarrow> bool" where
  "HasChanges c \<longleftrightarrow> TotalChanges c > 0"

definition Summary :: "DetailsInfo \<Rightarrow> string" where
  "Summary c = Join (char_of (10 :: nat))
     (map (\<lambda>r. ''type: '' @ e_Type r @ '', action: '' @ e_Message r @ '', message: '' @ e_Action r) (Reason c))"

subsection \<open>Peer identifiers\<close>

text \<open>A key is its 32 bytes; an ID is the first eight of them.\<close>

definition FromKey :: "bytes \<Rightarrow> bytes" where
  "FromKey key = take 8 key"

definition ToUint64 :: "bytes \<Rightarrow> 64 word" where
  "ToUint64 p = be64 p"

definition FromUint64 :: "64 word \<Rightarrow> bytes" where
  "FromUint64 i = put_be64 i"

record PeerIdentity =
  i_AppID :: string
  i_PublicKey :: bytes

definition NewPeerIdentity :: "string \<Rightarrow> bytes \<Rightarrow> PeerIdentity" where
  "NewPeerIdentity app key = \<lparr>i_AppID = app, i_PublicKey = key\<rparr>"

definition PeerIdentity_ID :: "PeerIdentity \<Rightarrow> bytes" where
  "PeerIdentity_ID p = FromKey (i_PublicKey p)"

subsection \<open>Peer store\<close>

record PeerManager =
  peers :: "string \<rightharpoonup> Peer"
  byID :: "bytes \<rightharpoonup> Peer"

definition NewPeerManager :: PeerManager where
  "NewPeerManager = \<lparr>peers = Map.empty, byID = Map.empty\<rparr>"

definition scrub :: "Peer \<Rightarrow> Peer" where
  "scrub p = (if PrivateKey p \<noteq> [] \<or> PresharedKey p \<noteq> [] then p\<lparr>PrivateKey := [], PresharedKey := []\<rparr> else p)"

text \<open>A nil peer makes \<^verbatim>\<open>AddPeer\<close> panic: \<^term>\<open>None\<close>.\<close>

definition AddPeer :: "(string \<Rightarrow> bytes option) \<Rightarrow> PeerManager \<Rightarrow> string \<Rightarrow> Peer option \<Rightarrow> PeerManager option" where
  "AddPeer ParseKey m app peer =
     (case peer of None \<Rightarrow> None
      | Some p \<Rightarrow>
          (let stored = scrub p; m1 = m\<lparr>peers := (peers m)(app \<mapsto> stored)\<rparr>
           in Some (if PublicKey stored \<noteq> [] then
                      (case ParseKey (PublicKey stored) of
                         Some key \<Rightarrow> m1\<lparr>byID := (byID m1)(FromKey key \<mapsto> stored)\<rparr>
                       | None \<Rightarrow> m1)
                    else m1)))"

definition RemovePeer :: "(string \<Rightarrow> bytes option) \<Rightarrow> PeerManager \<Rightarrow> string \<Rightarrow> PeerManager" where
  "RemovePeer ParseKey m app =
     (let m1 = (case peers m app of
                  Some p \<Rightarrow>
                    if PublicKey p \<noteq> [] then
                      (case ParseKey (PublicKey p) of
                         Some key \<Rightarrow> m\<lparr>byID := map_del (byID m) (FromKey key)\<rparr> | None \<Rightarrow> m)
                    else m
                | None \<Rightarrow> m)
      in m1\<lparr>peers := map_del (peers m1) app\<rparr>)"

definition GetPeer :: "PeerManager \<Rightarrow> string \<Rightarrow> Peer option" where
  "GetPeer m app = peers m app"

definition GetByPeerID :: "PeerManager \<Rightarrow> bytes \<Rightarrow> Peer option" where
  "GetByPeerID m i = byID m i"

definition GetIdentity :: "(string \<Rightarrow> bytes option) \<Rightarrow> PeerManager \<Rightarrow> bytes \<Rightarrow> PeerIdentity option" where
  "GetIdentity ParseKey m i =
     (case byID m i of None \<Rightarrow> None
      | Some p \<Rightarrow>
          if PublicKey p = [] then None
          else map_option (NewPeerIdentity (AppID p)) (ParseKey (PublicKey p)))"

subsection \<open>Relay pseudo-addresses\<close>

text \<open>An IPv6 address is its sixteen bytes.\<close>

definition relayFakePrefix :: bytes where
  "relayFakePrefix = [0xfd, 0x6c, 0x72, 0x70, 0, 0, 0, 0]"

definition RelayFakePort :: nat where
  "RelayFakePort = 51820"

definition RelayFakeAddrPort :: "64 word \<Rightarrow> bytes \<times> nat" where
  "RelayFakeAddrPort remoteId = (relayFakePrefix @ put_be64 remoteId, RelayFakePort)"

definition IsRelayFakeAddr :: "bytes \<Rightarrow> bool" where
  "IsRelayFakeAddr b \<longleftrightarrow> length b = 16 \<and> take 6 b = take 6 relayFakePrefix"

definition RemoteIdFromRelayFakeAddr :: "bytes \<Rightarrow> 64 word" where
  "RemoteIdFromRelayFakeAddr b = be64 (drop 8 b)"

subsection \<open>Histories of the peer store\<close>

datatype store_op = Add string Peer | Del string

fun store_apply :: "(string \<Rightarrow> bytes option) \<Rightarrow> PeerManager \<Rightarrow> store_op \<Rightarrow> PeerManager" where
  "store_apply ParseKey m (Add app p) = the (AddPeer ParseKey m app (Some p))"
| "store_apply ParseKey m (Del app) = RemovePeer ParseKey m app"

definition store_run :: "(string \<Rightarrow> bytes option) \<Rightarrow> store_op list \<Rightarrow> PeerManager" where
  "store_run ParseKey ops = foldl (store_apply ParseKey) NewPeerManager ops"

definition keyless :: "Peer \<Rightarrow> bool" where
  "keyless p \<longleftrightarrow> PrivateKey p = [] \<and> PresharedKey p = []"

definition store_keyless :: "PeerManager \<Rightarrow> bool" where
  "store_keyless m \<longleftrightarrow> (\<forall>p \<in> ran (peers m) \<union> ran (byID m). keyless p)"

lemma keyless_scrub [simp]: "keyless (scrub p)"
  by (simp add: keyless_def scrub_def)

lemma scrub_frame [simp]: "PublicKey (scrub p) = PublicKey p" "AppID (scrub p) = AppID p"
  by (simp_all add: scrub_def)

lemma store_keyless_apply: "store_keyless m \<Longrightarrow> store_keyless (store_apply ParseKey m x)"
  by (cases x)
    (auto simp: store_keyless_def AddPeer_def RemovePeer_def Let_def ran_def
      split: option.splits if_splits)

lemma store_keyless_run: "store_keyless (store_run ParseKey ops)"
proof -
  have "store_keyless (foldl (store_apply ParseKey) m ops)" if "store_keyless m" for m
    using that by (induction ops arbitrary: m) (simp_all add: store_keyless_apply)
  moreover have "store_keyless NewPeerManager" by (simp add: store_keyless_def NewPeerManager_def)
  ultimately show ?thesis by (simp add: store_run_def)
qed

subsection \<open>Properties\<close>

text \<open>
  C31. Whatever peers are added and removed, no peer held by the store carries a private or a
  preshared key, in either index: what signaling serialises from it holds no key material.
\<close>

theorem peer_store_holds_no_keys:
  "(GetPeer (store_run ParseKey ops) app = Some p \<longrightarrow> PrivateKey p = [] \<and> PresharedKey p = []) \<and>
   (GetByPeerID (store_run ParseKey ops) i = Some p \<longrightarrow> PrivateKey p = [] \<and> PresharedKey p = [])"
  using store_keyless_run [of ParseKey ops]
  by (auto simp: store_keyless_def keyless_def GetPeer_def GetByPeerID_def ran_def)

definition ex_peer :: Peer where
  "ex_peer = \<lparr>Name = ''a'', InterfaceName = [], Platform = [], Description = [], NetworkId = [], CreatedBy = [],
     UserId = 0, Hostname = [], AppID = ''app'', Address = None, Endpoint = [], Remove = False,
     PresharedKey = ''psk'', PersistentKeepalive = 0, PrivateKey = ''priv'', PublicKey = ''k1'', PeerID = 0,
     AllowedIPs = [], ReplacePeers = False, Port = 0, GroupName = [], Version = 0, LastUpdatedAt = [],
     Token = ''tok'', RelayURL = ''url'', EnforcerMode = [], Tier = [], ApprovalStatus = [], Labels = Map.empty,
     AdvertisedRoutes = []\<rparr>"

definition ex_ParseKey :: "string \<Rightarrow> bytes option" where
  "ex_ParseKey s = (if s = ''k1'' then Some (replicate 32 1) else if s = ''k2'' then Some (replicate 32 2) else None)"

theorem peer_store_holds_no_keys_witness:
  "GetPeer (store_run ex_ParseKey [Add ''app'' ex_peer]) ''app'' = Some (scrub ex_peer) \<and>
   PrivateKey (scrub ex_peer) = [] \<and> PresharedKey (scrub ex_peer) = []"
proof -
  have "GetPeer (store_run ex_ParseKey [Add ''app'' ex_peer]) ''app'' = Some (scrub ex_peer)"
    by (simp add: store_run_def AddPeer_def GetPeer_def Let_def split: option.split)
  with peer_store_holds_no_keys [of ex_ParseKey "[Add ''app'' ex_peer]" "''app''" "scrub ex_peer" "[]"]
  show ?thesis by blast
qed

text \<open>
  The relay pseudo-address of a peer is recognised as one and gives the peer's ID back, so
  distinct peers never share one.
\<close>

lemma relay_fake_addr_roundtrip:
  "IsRelayFakeAddr (fst (RelayFakeAddrPort i)) \<and>
   RemoteIdFromRelayFakeAddr (fst (RelayFakeAddrPort i)) = i \<and>
   (RelayFakeAddrPort i = RelayFakeAddrPort j \<longleftrightarrow> i = j)"
  by (auto simp: IsRelayFakeAddr_def RelayFakeAddrPort_def RemoteIdFromRelayFakeAddr_def relayFakePrefix_def
      put_be64_inject)

text \<open>
  A key rotation leaves the old identifier in the secondary index: after a peer is stored
  again under the same application with another key, its old ID still resolves, to the old
  record.
\<close>

lemma key_rotation_leaves_stale_id:
  assumes "ParseKey (PublicKey old) = Some k1" and "ParseKey (PublicKey new) = Some k2"
    and "FromKey k1 \<noteq> FromKey k2" and "PublicKey old \<noteq> []" and "PublicKey new \<noteq> []"
  shows "GetByPeerID (store_run ParseKey [Add app old, Add app new]) (FromKey k1) = Some (scrub old) \<and>
    GetIdentity ParseKey (store_run ParseKey [Add app old, Add app new]) (FromKey k1) =
      Some (NewPeerIdentity (AppID old) k1) \<and>
    GetPeer (store_run ParseKey [Add app old, Add app new]) app = Some (scrub new)"
  using assms by (simp add: store_run_def AddPeer_def GetByPeerID_def GetIdentity_def GetPeer_def Let_def)

end
