(* ===== verification/PeerFSM.thy ===== *)
theory PeerFSM
  imports Prelude
begin

text \<open>
  Connection lifecycle of one remote peer: the guarded state machine of
  \<^verbatim>\<open>internal/server/transport/state_machine.go\<close>, the role decision of \<^verbatim>\<open>role.go\<close>, the
  reconciler's decision of \<^verbatim>\<open>probe_factory.go\<close> and the connection-state names of \<^verbatim>\<open>state.go\<close>.
  Callbacks are state transformers of the world \<open>'w\<close> they act on; the metric counter is left
  out.
\<close>

datatype PeerState = StateCreated | StateProbing | StateICEReady | StateRelayReady | StateFailed | StateClosed

definition PeerState_String :: "PeerState \<Rightarrow> string" where
  "PeerState_String s = (case s of StateCreated \<Rightarrow> ''created'' | StateProbing \<Rightarrow> ''probing''
     | StateICEReady \<Rightarrow> ''ice-ready'' | StateRelayReady \<Rightarrow> ''relay-ready'' | StateFailed \<Rightarrow> ''failed''
     | StateClosed \<Rightarrow> ''closed'')"

fun allowedTransitions :: "PeerState \<Rightarrow> PeerState list" where
  "allowedTransitions StateCreated = [StateProbing]"
| "allowedTransitions StateProbing = [StateICEReady, StateRelayReady, StateFailed]"
| "allowedTransitions StateRelayReady = [StateICEReady, StateFailed, StateClosed]"
| "allowedTransitions StateICEReady = [StateFailed, StateClosed]"
| "allowedTransitions StateFailed = [StateProbing, StateClosed]"
| "allowedTransitions StateClosed = []"

record 'w StateMachine =
  current :: PeerState
  callbacks :: "(PeerState \<Rightarrow> PeerState \<Rightarrow> 'w \<Rightarrow> 'w) list"

datatype fsm_error = InvalidTransition PeerState PeerState

definition NewStateMachine :: "PeerState \<Rightarrow> 'w StateMachine" where
  "NewStateMachine initial = \<lparr>current = initial, callbacks = []\<rparr>"

definition OnTransition :: "'w StateMachine \<Rightarrow> (PeerState \<Rightarrow> PeerState \<Rightarrow> 'w \<Rightarrow> 'w) \<Rightarrow> 'w StateMachine" where
  "OnTransition sm cb = sm\<lparr>callbacks := callbacks sm @ [cb]\<rparr>"

text \<open>The loop over the allowed targets, firing the callbacks on the first match.\<close>

fun try_targets :: "'w StateMachine \<Rightarrow> PeerState list \<Rightarrow> PeerState \<Rightarrow> 'w \<Rightarrow> fsm_error + 'w StateMachine \<times> 'w" where
  "try_targets sm [] target w = Inl (InvalidTransition (current sm) target)"
| "try_targets sm (t # ts) target w =
     (if t = target
      then Inr (sm\<lparr>current := target\<rparr>, foldl (\<lambda>w cb. cb (current sm) target w) w (callbacks sm))
      else try_targets sm ts target w)"

definition Transition :: "'w StateMachine \<Rightarrow> PeerState \<Rightarrow> 'w \<Rightarrow> fsm_error + 'w StateMachine \<times> 'w" where
  "Transition sm target w = try_targets sm (allowedTransitions (current sm)) target w"

text \<open>The callers that ignore the error: the machine and the world after the call.\<close>

definition Transition_ignore :: "'w StateMachine \<times> 'w \<Rightarrow> PeerState \<Rightarrow> 'w StateMachine \<times> 'w" where
  "Transition_ignore x target =
     (case Transition (fst x) target (snd x) of Inl _ \<Rightarrow> x | Inr y \<Rightarrow> y)"

subsection \<open>Role and reconciler decision\<close>

definition isInitiator :: "64 word \<Rightarrow> 64 word \<Rightarrow> bool" where
  "isInitiator local remote \<longleftrightarrow> remote < local"

datatype reconcileAction = reconcileNone | reconcileStart | reconcileRevive | reconcileRestart

definition probingStuckAfter :: duration where
  "probingStuckAfter = 90 * Second"

definition reconcileActionFor :: "PeerState \<Rightarrow> int \<Rightarrow> time \<Rightarrow> reconcileAction" where
  "reconcileActionFor state startedAtNanos now =
     (case state of
        StateCreated \<Rightarrow> reconcileStart
      | StateClosed \<Rightarrow> reconcileRevive
      | StateProbing \<Rightarrow>
          if startedAtNanos > 0 \<and> now - startedAtNanos > probingStuckAfter then reconcileRestart
          else reconcileNone
      | _ \<Rightarrow> reconcileNone)"

subsection \<open>ICE connection states\<close>

datatype ConnectionState = ConnectionStateUnknown | ConnectionStateNew | ConnectionStateChecking
  | ConnectionStateConnected | ConnectionStateCompleted | ConnectionStateFailed
  | ConnectionStateDisconnected | ConnectionStateClosed

definition ConnectionState_String :: "ConnectionState \<Rightarrow> string" where
  "ConnectionState_String c = (case c of
       ConnectionStateNew \<Rightarrow> ''New'' | ConnectionStateChecking \<Rightarrow> ''Checking''
     | ConnectionStateConnected \<Rightarrow> ''Connected'' | ConnectionStateCompleted \<Rightarrow> ''Completed''
     | ConnectionStateFailed \<Rightarrow> ''Failed'' | ConnectionStateDisconnected \<Rightarrow> ''Disconnected''
     | ConnectionStateClosed \<Rightarrow> ''Closed'' | _ \<Rightarrow> ''Invalid'')"

subsection \<open>Lemmas\<close>

lemma try_targets_eq:
  "try_targets sm ts target w =
     (if target \<in> set ts
      then Inr (sm\<lparr>current := target\<rparr>, foldl (\<lambda>w cb. cb (current sm) target w) w (callbacks sm))
      else Inl (InvalidTransition (current sm) target))"
  by (induction ts) auto

lemma Transition_eq:
  "Transition sm target w =
     (if target \<in> set (allowedTransitions (current sm))
      then Inr (sm\<lparr>current := target\<rparr>, foldl (\<lambda>w cb. cb (current sm) target w) w (callbacks sm))
      else Inl (InvalidTransition (current sm) target))"
  by (simp add: Transition_def try_targets_eq)

lemma Transition_ignore_current:
  "current (fst (Transition_ignore x target)) =
     (if target \<in> set (allowedTransitions (current (fst x))) then target else current (fst x))"
  by (simp add: Transition_ignore_def Transition_eq)

lemma Transition_ignore_callbacks [simp]:
  "callbacks (fst (Transition_ignore x target)) = callbacks (fst x)"
  by (simp add: Transition_ignore_def Transition_eq)

text \<open>The states a machine goes through when asked for a sequence of targets.\<close>

fun visits :: "'w StateMachine \<times> 'w \<Rightarrow> PeerState list \<Rightarrow> PeerState list" where
  "visits x [] = []"
| "visits x (t # ts) = current (fst (Transition_ignore x t)) # visits (Transition_ignore x t) ts"

definition fsm_run :: "'w StateMachine \<times> 'w \<Rightarrow> PeerState list \<Rightarrow> 'w StateMachine \<times> 'w" where
  "fsm_run x ts = foldl Transition_ignore x ts"

lemma fsm_run_simps [simp]:
  "fsm_run x [] = x" "fsm_run x (t # ts) = fsm_run (Transition_ignore x t) ts"
  by (simp_all add: fsm_run_def)

lemma fsm_run_Closed: "current (fst x) = StateClosed \<Longrightarrow> fsm_run x ts = x"
  by (induction ts) (simp_all add: Transition_ignore_def Transition_eq)

lemma fsm_run_callbacks: "callbacks (fst (fsm_run x ts)) = callbacks (fst x)"
  by (induction ts arbitrary: x) simp_all

lemma visits_to_relay:
  "current (fst x) \<in> {StateICEReady, StateFailed, StateProbing} \<Longrightarrow>
   current (fst (fsm_run x ts)) = StateRelayReady \<Longrightarrow>
   (current (fst x) = StateICEReady \<longrightarrow> StateFailed \<in> set (visits x ts)) \<and>
   (current (fst x) \<noteq> StateProbing \<longrightarrow> StateProbing \<in> set (visits x ts))"
proof (induction ts arbitrary: x)
  case (Cons t ts)
  let ?y = "Transition_ignore x t"
  have y: "current (fst ?y) = (if t \<in> set (allowedTransitions (current (fst x))) then t else current (fst x))"
    by (rule Transition_ignore_current)
  show ?case
  proof (cases "current (fst ?y) \<in> {StateICEReady, StateFailed, StateProbing}")
    case True
    then show ?thesis
      using Cons.IH [of ?y] Cons.prems y by (cases "current (fst x)") (auto split: if_splits)
  next
    case False
    then show ?thesis
      using Cons.prems y fsm_run_Closed [of ?y ts] by (cases "current (fst x)") (auto split: if_splits)
  qed
qed auto

subsection \<open>Properties\<close>

text \<open>
  A transition happens exactly when the table allows it, and then every registered
  callback fires once, in registration order, with the old and the new state; otherwise the
  machine and the world are untouched and the error names both states.
\<close>

lemma transition_guard:
  "Transition sm target w =
     (if target \<in> set (allowedTransitions (current sm))
      then Inr (sm\<lparr>current := target\<rparr>, foldl (\<lambda>w cb. cb (current sm) target w) w (callbacks sm))
      else Inl (InvalidTransition (current sm) target)) \<and>
   current (fst (fsm_run (sm\<lparr>current := StateClosed\<rparr>, w) ts)) = StateClosed"
  using fsm_run_Closed [of "(sm\<lparr>current := StateClosed\<rparr>, w)" ts] by (simp add: Transition_eq)

text \<open>
  Whatever targets are requested, a peer that is directly connected becomes relayed only by
  failing and probing again in between: there is no silent downgrade.
\<close>

lemma no_silent_downgrade:
  assumes "current sm = StateICEReady" and "current (fst (fsm_run (sm, w) ts)) = StateRelayReady"
  shows "StateFailed \<in> set (visits (sm, w) ts) \<and> StateProbing \<in> set (visits (sm, w) ts)"
  using visits_to_relay [of "(sm, w)" ts] assms by simp

end
