(* ===== verification/PeerConfig.thy ===== *)
theory PeerConfig
  imports Message PeerFSM
begin

text \<open>
  What a probe does to WireGuard and how it reaches the remote side: the idempotent
  configurator of \<^verbatim>\<open>internal/server/transport/configurator.go\<close> with the provisioner adapter of
  \<^verbatim>\<open>probe_factory.go\<close>, the signaling sender of \<^verbatim>\<open>peer_signaler.go\<close>, and the AllowedIPs merge.
  The provisioner and the signaling channels belong to other parts: which of their calls fail
  is a parameter, and the calls made are recorded in order.
\<close>

subsection \<open>Configurator\<close>

text \<open>The calls the adapter makes on the provisioner.\<close>

datatype wg_op =
    OpAddPeer string string
  | OpSetEndpoint string string int string
  | OpRemovePeer string
  | OpApplyRoute string string
  | OpSetupNAT string

record wgConfigurator =
  applied :: "string \<rightharpoonup> string"
  device :: "wg_op list"

definition NewWGConfigurator :: wgConfigurator where
  "NewWGConfigurator = \<lparr>applied = Map.empty, device = []\<rparr>"

text \<open>
  One call of the adapter: \<open>fails\<close> tells whether the provisioner reports an error, \<open>present\<close>
  whether there is a provisioner at all (the adapter then does nothing).
\<close>

definition call_op :: "(wg_op \<Rightarrow> bool) \<Rightarrow> bool \<Rightarrow> wgConfigurator \<Rightarrow> wg_op \<Rightarrow> bool \<times> wgConfigurator" where
  "call_op fails present c x =
     (if \<not> present then (False, c) else (fails x, c\<lparr>device := device c @ [x]\<rparr>))"

text \<open>The first component is true when an error is returned.\<close>

definition RegisterPeer ::
  "(wg_op \<Rightarrow> bool) \<Rightarrow> bool \<Rightarrow> wgConfigurator \<Rightarrow> string \<Rightarrow> string \<Rightarrow> bool \<times> wgConfigurator" where
  "RegisterPeer fails present c publicKey allowedIPs =
     (if applied c publicKey = Some allowedIPs then (False, c)
      else call_op fails present (c\<lparr>applied := (applied c)(publicKey \<mapsto> allowedIPs)\<rparr>)
             (OpAddPeer publicKey allowedIPs))"

text \<open>The adapter fills the AllowedIPs of an endpoint update from the remote peer's record.\<close>

definition remote_allowed :: "Peer option \<Rightarrow> string" where
  "remote_allowed rp =
     (case rp of None \<Rightarrow> []
      | Some p \<Rightarrow>
          if AllowedIPs p = [] then (case Address p of Some a \<Rightarrow> a @ ''/32'' | None \<Rightarrow> []) else AllowedIPs p)"

definition SetEndpoint ::
  "(wg_op \<Rightarrow> bool) \<Rightarrow> bool \<Rightarrow> Peer option \<Rightarrow> wgConfigurator \<Rightarrow> string \<Rightarrow> string \<Rightarrow> int \<Rightarrow> bool \<times> wgConfigurator" where
  "SetEndpoint fails present rp c publicKey endpoint keepalive =
     call_op fails present c (OpSetEndpoint publicKey endpoint keepalive (remote_allowed rp))"

definition RemovePeer_wg ::
  "(wg_op \<Rightarrow> bool) \<Rightarrow> bool \<Rightarrow> wgConfigurator \<Rightarrow> string \<Rightarrow> bool \<times> wgConfigurator" where
  "RemovePeer_wg fails present c publicKey =
     call_op fails present (c\<lparr>applied := map_del (applied c) publicKey\<rparr>) (OpRemovePeer publicKey)"

definition ApplyRoute ::
  "(wg_op \<Rightarrow> bool) \<Rightarrow> bool \<Rightarrow> wgConfigurator \<Rightarrow> string \<Rightarrow> string \<Rightarrow> bool \<times> wgConfigurator" where
  "ApplyRoute fails present c address iface = call_op fails present c (OpApplyRoute address iface)"

definition SetupNAT ::
  "(wg_op \<Rightarrow> bool) \<Rightarrow> bool \<Rightarrow> wgConfigurator \<Rightarrow> string \<Rightarrow> bool \<times> wgConfigurator" where
  "SetupNAT fails present c iface = call_op fails present c (OpSetupNAT iface)"

definition keepaliveFor :: "64 word \<Rightarrow> 64 word \<Rightarrow> int" where
  "keepaliveFor local remote = 25"

subsection \<open>AllowedIPs\<close>

text \<open>The loop over the parts, with the parts seen so far and the output.\<close>

fun merge_parts :: "string list \<Rightarrow> string list \<Rightarrow> string list" where
  "merge_parts out [] = out"
| "merge_parts out (part # parts) =
     (let cidr = TrimSpace part
      in if cidr = [] \<or> cidr \<in> set out then merge_parts out parts else merge_parts (out @ [cidr]) parts)"

definition mergeAllowedIPs :: "string \<Rightarrow> string \<Rightarrow> string" where
  "mergeAllowedIPs existing0 incoming0 =
     (let existing = TrimSpace existing0; incoming = TrimSpace incoming0
      in if existing = [] then incoming
         else if incoming = [] then existing
         else Join (CHR '','') (merge_parts [] (Split (CHR '','') (existing @ '','' @ incoming))))"

definition cidrs :: "string \<Rightarrow> string list" where
  "cidrs s = filter (\<lambda>p. p \<noteq> []) (map TrimSpace (Split (CHR '','') s))"

subsection \<open>Signaling\<close>

datatype signal_error = ErrNATSDown | ErrNATS | ErrRelayUnready | ErrSignalBig | ErrRelaySend

definition relaySignalAfter :: duration where
  "relaySignalAfter = 2 * Second"

definition MaxProbePayload :: nat where
  "MaxProbePayload = 2048"

record peerSignaler =
  after :: duration
  since :: "time option"
  escalated :: bool
  nats_sent :: "bytes list"
  relay_sent :: "bytes list"

definition newPeerSignaler :: peerSignaler where
  "newPeerSignaler = \<lparr>after = relaySignalAfter, since = None, escalated = False, nats_sent = [], relay_sent = []\<rparr>"

definition onState :: "time \<Rightarrow> PeerState \<Rightarrow> PeerState \<Rightarrow> peerSignaler \<Rightarrow> peerSignaler" where
  "onState now from to s =
     (if to = StateProbing then s\<lparr>since := Some now, escalated := False\<rparr> else s\<lparr>since := None\<rparr>)"

definition stalledSince :: "peerSignaler \<Rightarrow> time \<Rightarrow> time option \<Rightarrow> bool" where
  "stalledSince s now start = (case start of None \<Rightarrow> False | Some t \<Rightarrow> now - t \<ge> after s)"

text \<open>
  What the two channels answer during one call: whether NATS is connected and its send error,
  whether there is a relay client that is up and its send error.
\<close>

record channels =
  natsUp :: bool
  natsErr :: bool
  relayUp :: bool
  relayErr :: bool

definition viaRelay :: "channels \<Rightarrow> peerSignaler \<Rightarrow> bytes \<Rightarrow> signal_error option \<times> peerSignaler" where
  "viaRelay ch s data =
     (if \<not> relayUp ch then (Some ErrRelayUnready, s)
      else if length data > MaxProbePayload then (Some ErrSignalBig, s)
      else (if relayErr ch then Some ErrRelaySend else None,
            s\<lparr>escalated := True, relay_sent := relay_sent s @ [data]\<rparr>))"

definition SendFrom ::
  "channels \<Rightarrow> time \<Rightarrow> peerSignaler \<Rightarrow> bytes \<Rightarrow> time option \<Rightarrow> (signal_error \<times> signal_error) option \<times> peerSignaler" where
  "SendFrom ch now s data start =
     (let (nerr, s1) =
            (if \<not> natsUp ch then (Some ErrNATSDown, s)
             else (if natsErr ch then Some ErrNATS else None, s\<lparr>nats_sent := nats_sent s @ [data]\<rparr>))
      in if nerr = None \<and> \<not> stalledSince s1 now start then (None, s1)
         else
           (case viaRelay ch s1 data of
              (rerr, s2) \<Rightarrow>
                ((case (nerr, rerr) of (Some a, Some b) \<Rightarrow> Some (a, b) | _ \<Rightarrow> None), s2)))"

definition Send_signal ::
  "channels \<Rightarrow> time \<Rightarrow> peerSignaler \<Rightarrow> bytes \<Rightarrow> (signal_error \<times> signal_error) option \<times> peerSignaler" where
  "Send_signal ch now s data = SendFrom ch now s data (since s)"

definition signalingPeer :: "Peer option \<Rightarrow> Peer option" where
  "signalingPeer lp = map_option (\<lambda>p. p\<lparr>Token := [], RelayURL := []\<rparr>) lp"

text \<open>The local record a probe puts into its handshakes (\<^verbatim>\<open>getLocalPeer\<close> in \<^verbatim>\<open>NewProbe\<close>).\<close>

definition getLocalPeer :: "PeerManager \<Rightarrow> string \<Rightarrow> Peer option" where
  "getLocalPeer m app =
     (case signalingPeer (GetPeer m app) of None \<Rightarrow> None
      | Some lp \<Rightarrow>
          Some (case Address lp of
                  Some a \<Rightarrow> if AllowedIPs lp = [] then lp\<lparr>AllowedIPs := a @ ''/32''\<rparr> else lp
                | None \<Rightarrow> lp))"

subsection \<open>Lemmas\<close>

lemma merge_parts_eq:
  "distinct out \<Longrightarrow> distinct (merge_parts out parts) \<and>
   set (merge_parts out parts) = set out \<union> set (filter (\<lambda>p. p \<noteq> []) (map TrimSpace parts))"
proof (induction out parts rule: merge_parts.induct)
  case (2 out part parts)
  then show ?case by (cases "TrimSpace part = [] \<or> TrimSpace part \<in> set out") (auto simp: Let_def)
qed simp

lemma merge_parts_prefix: "\<exists>tl. merge_parts out parts = out @ tl"
proof (induction out parts rule: merge_parts.induct)
  case (2 out part parts)
  then show ?case by (cases "TrimSpace part = [] \<or> TrimSpace part \<in> set out") (auto simp: Let_def)
qed simp

lemma TrimLeft_head: "TrimLeft s = x # xs \<Longrightarrow> \<not> is_space x"
  by (metis TrimLeft_def hd_dropWhile list.discI list.sel(1))

lemma TrimLeft_id: "s = [] \<or> \<not> is_space (hd s) \<Longrightarrow> TrimLeft s = s"
  by (cases s) (auto simp: TrimLeft_def)

lemma TrimSpace_idem [simp]: "TrimSpace (TrimSpace s) = TrimSpace s"
proof -
  define a where "a = TrimLeft s"
  define b where "b = TrimLeft (rev a)"
  have b: "TrimSpace s = rev b" by (simp add: TrimSpace_def a_def b_def)
  have "b = [] \<or> \<not> is_space (hd b)"
    using TrimLeft_head [of "rev a"] by (cases b) (auto simp: b_def)
  then have bb: "TrimLeft b = b" by (rule TrimLeft_id)
  have "rev b = [] \<or> \<not> is_space (hd (rev b))"
  proof (cases "b = []")
    case False
    obtain p where "rev a = p @ b" unfolding b_def TrimLeft_def by (metis takeWhile_dropWhile_id)
    then have "a = rev b @ rev p" by (metis rev_append rev_rev_ident)
    then have "hd a = hd (rev b)" using False by simp
    moreover have "a \<noteq> []" using False \<open>a = rev b @ rev p\<close> by simp
    ultimately show ?thesis using TrimLeft_head [of s "hd a" "tl a"] by (metis a_def list.collapse)
  qed simp
  then have "TrimLeft (rev b) = rev b" by (rule TrimLeft_id)
  then show ?thesis using b bb by (simp add: TrimSpace_def)
qed

lemma cidrs_Join:
  assumes "\<forall>p \<in> set ps. p \<noteq> [] \<and> TrimSpace p = p \<and> CHR '','' \<notin> set p"
  shows "cidrs (Join (CHR '','') ps) = ps"
proof (cases "ps = []")
  case True
  then show ?thesis by (simp add: cidrs_def TrimSpace_def TrimLeft_def)
next
  case False
  then have "Split (CHR '','') (Join (CHR '','') ps) = ps" using assms by (intro Split_Join) auto
  moreover have "map TrimSpace ps = ps" "filter (\<lambda>p. p \<noteq> []) ps = ps"
    using assms by (auto intro: map_idI simp: filter_id_conv)
  ultimately show ?thesis by (simp add: cidrs_def)
qed

lemma cidrs_parts:
  "p \<in> set (filter (\<lambda>p. p \<noteq> []) (map TrimSpace (Split (CHR '','') s))) \<Longrightarrow>
   p \<noteq> [] \<and> TrimSpace p = p \<and> CHR '','' \<notin> set p"
  using Split_sep_free TrimSpace_sep_free by auto

lemma TrimSpace_Cons_space: "is_space x \<Longrightarrow> TrimSpace (x # s) = TrimSpace s"
  by (simp add: TrimSpace_def TrimLeft_def)

lemma TrimSpace_snoc_space: "is_space x \<Longrightarrow> TrimSpace (s @ [x]) = TrimSpace s"
  by (cases "\<forall>y \<in> set s. is_space y") (auto simp: TrimSpace_def TrimLeft_def dropWhile_append dest: set_dropWhileD)

lemma Split_snoc:
  "x \<noteq> c \<Longrightarrow> Split c (s @ [x]) = butlast (Split c s) @ [last (Split c s) @ [x]]"
  by (induction s) (auto split: list.splits simp: neq_Nil_conv)

lemma comma_no_space: "is_space x \<Longrightarrow> x \<noteq> CHR '',''"
  by (auto simp: is_space_def)

lemma cidrs_Cons_space: "is_space x \<Longrightarrow> cidrs (x # s) = cidrs s"
  using comma_no_space [of x]
  by (cases "Split (CHR '','') s") (auto simp: cidrs_def TrimSpace_Cons_space)

lemma cidrs_snoc_space: "is_space x \<Longrightarrow> cidrs (s @ [x]) = cidrs s"
proof -
  assume x: "is_space x"
  let ?L = "Split (CHR '','') s"
  have "map TrimSpace (Split (CHR '','') (s @ [x])) = map TrimSpace (butlast ?L @ [last ?L])"
    by (simp only: Split_snoc [OF comma_no_space [OF x]] TrimSpace_snoc_space [OF x] map_append list.map)
  also have "butlast ?L @ [last ?L] = ?L" by simp
  finally have "map TrimSpace (Split (CHR '','') (s @ [x])) = map TrimSpace ?L" .
  then show ?thesis by (simp add: cidrs_def)
qed

lemma cidrs_TrimLeft: "cidrs (TrimLeft s) = cidrs s"
  by (induction s) (auto simp: TrimLeft_def cidrs_Cons_space)

lemma cidrs_TrimRight: "cidrs (rev (TrimLeft (rev s))) = cidrs s"
  by (induction s rule: rev_induct) (auto simp: TrimLeft_def cidrs_snoc_space)

lemma cidrs_TrimSpace [simp]: "cidrs (TrimSpace s) = cidrs s"
  by (simp add: TrimSpace_def cidrs_TrimRight cidrs_TrimLeft)

lemma cidrs_Nil [simp]: "cidrs [] = []"
  by (simp add: cidrs_def TrimSpace_def TrimLeft_def)

lemma cidrs_comma: "cidrs (a @ '','' @ b) = cidrs a @ cidrs b"
  by (simp add: cidrs_def Split_append)

text \<open>
  Merging loses no route and invents none, and repeats none when both sides have text.
\<close>

lemma mergeAllowedIPs_union:
  "set (cidrs (mergeAllowedIPs existing incoming)) = set (cidrs existing) \<union> set (cidrs incoming) \<and>
   (TrimSpace existing \<noteq> [] \<and> TrimSpace incoming \<noteq> [] \<longrightarrow>
      distinct (cidrs (mergeAllowedIPs existing incoming)))"
proof (cases "TrimSpace existing = [] \<or> TrimSpace incoming = []")
  case True
  then have "cidrs existing = [] \<or> cidrs incoming = []"
    by (metis cidrs_Nil cidrs_TrimSpace)
  then show ?thesis
    using True cidrs_TrimSpace [of existing] cidrs_TrimSpace [of incoming]
    by (auto simp: mergeAllowedIPs_def Let_def simp del: cidrs_TrimSpace)
next
  case False
  let ?ps = "Split (CHR '','') (TrimSpace existing @ '','' @ TrimSpace incoming)"
  have m: "distinct (merge_parts [] ?ps)"
    "set (merge_parts [] ?ps) = set (filter (\<lambda>p. p \<noteq> []) (map TrimSpace ?ps))"
    using merge_parts_eq [of "[]" ?ps] by simp_all
  have "mergeAllowedIPs existing incoming = Join (CHR '','') (merge_parts [] ?ps)"
    using False by (simp add: mergeAllowedIPs_def Let_def)
  moreover have "cidrs (Join (CHR '','') (merge_parts [] ?ps)) = merge_parts [] ?ps"
    by (rule cidrs_Join) (metis cidrs_parts m(2))
  ultimately have "cidrs (mergeAllowedIPs existing incoming) = merge_parts [] ?ps" by (simp only:)
  moreover have "set (filter (\<lambda>p. p \<noteq> []) (map TrimSpace ?ps)) = set (cidrs existing) \<union> set (cidrs incoming)"
    using cidrs_comma [of "TrimSpace existing" "TrimSpace incoming"] by (simp add: cidrs_def [of "_ @ _"])
  ultimately show ?thesis using m by simp
qed

subsection \<open>Properties\<close>

text \<open>
  C32. A probe's handshakes carry no credential: the local record put on the wire, taken from
  the peer store after any history, has neither token nor relay URL nor key material.
\<close>

theorem signaling_leaks_no_secret:
  assumes "getLocalPeer (store_run ParseKey ops) app = Some lp"
  shows "Token lp = [] \<and> RelayURL lp = [] \<and> PrivateKey lp = [] \<and> PresharedKey lp = []"
  using assms store_keyless_run [of ParseKey ops]
  by (auto simp: getLocalPeer_def signalingPeer_def GetPeer_def store_keyless_def keyless_def ran_def
      split: option.splits if_splits)

theorem signaling_leaks_no_secret_witness:
  "\<exists>lp. getLocalPeer (store_run ex_ParseKey [Add ''app'' ex_peer]) ''app'' = Some lp \<and> Token lp = [] \<and>
     RelayURL lp = [] \<and> PrivateKey lp = [] \<and> PresharedKey lp = []"
proof -
  have "\<exists>lp. getLocalPeer (store_run ex_ParseKey [Add ''app'' ex_peer]) ''app'' = Some lp"
    by (simp add: getLocalPeer_def signalingPeer_def GetPeer_def store_run_def AddPeer_def Let_def split: option.split)
  then show ?thesis using signaling_leaks_no_secret [of ex_ParseKey "[Add ''app'' ex_peer]" "''app''"] by blast
qed

text \<open>
  A signaling send reports failure exactly when neither channel took the packet; the relay
  is used only when NATS is down or refuses, or the attempt has made no progress for two
  seconds; and the relay never carries more than its 2 KiB limit.
\<close>

lemma signal_send:
  "(fst (SendFrom ch now s data start) = None \<longleftrightarrow>
      natsUp ch \<and> \<not> natsErr ch \<or> relayUp ch \<and> length data \<le> 2048 \<and> \<not> relayErr ch) \<and>
   (relay_sent (snd (SendFrom ch now s data start)) \<noteq> relay_sent s \<longrightarrow>
      length data \<le> 2048 \<and> (\<not> natsUp ch \<or> natsErr ch \<or> stalledSince s now start))"
  by (auto simp: SendFrom_def viaRelay_def stalledSince_def MaxProbePayload_def Let_def split: option.splits)

text \<open>
  A registration that the device refused is remembered as applied: repeating it reports
  success and never reaches the device.
\<close>

lemma failed_register_is_cached:
  assumes "fails (OpAddPeer pk ips)" and "applied c pk \<noteq> Some ips"
  shows "\<exists>c1. RegisterPeer fails True c pk ips = (True, c1) \<and> RegisterPeer fails True c1 pk ips = (False, c1)"
  using assms by (auto simp: RegisterPeer_def call_op_def)

end
