(* ===== verification/PeerWiring.thy ===== *)
theory PeerWiring
  imports PeerConfig
begin

text \<open>
  The closures \<^verbatim>\<open>NewProbe\<close> of \<^verbatim>\<open>internal/server/transport/probe_factory.go\<close> builds around one
  probe: what a received peer record does to the peer store and to WireGuard, and what each state
  transition configures. \<^typ>\<open>bytes\<close> endpoints are printed as \<^verbatim>\<open>netip.AddrPort.String\<close> does.
  Which provisioner calls fail is a parameter.
\<close>

subsection \<open>Text of an IPv6 endpoint\<close>

definition digits :: string where
  "digits = ''0123456789abcdef''"

fun in_base :: "nat \<Rightarrow> nat \<Rightarrow> nat \<Rightarrow> string" where
  "in_base 0 b n = []"
| "in_base (Suc k) b n = (if n < b then [digits ! n] else in_base k b (n div b) @ [digits ! (n mod b)])"

definition groups :: "bytes \<Rightarrow> nat list" where
  "groups b = map (\<lambda>i. 256 * unat (b ! (2 * i)) + unat (b ! (2 * i + 1))) [0..<8]"

text \<open>The first longest run of at least two zero groups is written as \<^verbatim>\<open>::\<close>.\<close>

definition zero_run :: "nat list \<Rightarrow> nat \<Rightarrow> nat" where
  "zero_run gs i = length (takeWhile (\<lambda>g. g = 0) (drop i gs))"

definition longest_run :: "nat list \<Rightarrow> (nat \<times> nat) option" where
  "longest_run gs =
     foldl (\<lambda>best i. let l = zero_run gs i
                     in if 2 \<le> l \<and> (case best of None \<Rightarrow> True | Some (_, n) \<Rightarrow> n < l) then Some (i, l) else best)
       None [0..<length gs]"

definition colons :: "nat list \<Rightarrow> string" where
  "colons gs = Join (CHR '':'') (map (in_base 5 16) gs)"

definition Addr_String :: "bytes \<Rightarrow> string" where
  "Addr_String b =
     (case longest_run (groups b) of
        None \<Rightarrow> colons (groups b)
      | Some (i, l) \<Rightarrow> colons (take i (groups b)) @ ''::'' @ colons (drop (i + l) (groups b)))"

definition AddrPort_String :: "bytes \<times> nat \<Rightarrow> string" where
  "AddrPort_String a = ''['' @ Addr_String (fst a) @ '']:'' @ in_base 6 10 (snd a)"

subsection \<open>State of one probe's closures\<close>

datatype Transport = ICETransport string | RelayTransport string

fun RemoteAddr :: "Transport \<Rightarrow> string" where
  "RemoteAddr (ICETransport a) = a"
| "RemoteAddr (RelayTransport a) = a"

fun is_ICE :: "Transport \<Rightarrow> bool" where
  "is_ICE (ICETransport _) = True"
| "is_ICE (RelayTransport _) = False"

record probe_env =
  e_local :: "64 word"
  e_remote :: "64 word"
  e_localApp :: string
  e_key :: string
  e_ParseKey :: "string \<Rightarrow> bytes option"
  e_fails :: "wg_op \<Rightarrow> bool"
  e_present :: bool
  e_iface :: string
  e_stats :: bool
  e_relay :: bool
  e_upgradeDisabled :: bool

record probe_world =
  clock :: time
  store :: PeerManager
  conf :: wgConfigurator
  signaler :: peerSignaler
  remotePeer :: "Peer option"
  peerKnownDone :: bool
  currentTransport :: "Transport option"

definition iface_name :: "probe_env \<Rightarrow> string" where
  "iface_name env = (if e_present env then e_iface env else [])"

text \<open>The configurator calls on the probe's own configurator; the flag is the error.\<close>

definition set_endpoint :: "probe_env \<Rightarrow> string \<Rightarrow> int \<Rightarrow> probe_world \<Rightarrow> bool \<times> probe_world" where
  "set_endpoint env endpoint ka w =
     map_prod id (\<lambda>c. w\<lparr>conf := c\<rparr>)
       (SetEndpoint (e_fails env) (e_present env) (remotePeer w) (conf w) (e_key env) endpoint ka)"

definition apply_route :: "probe_env \<Rightarrow> string \<Rightarrow> probe_world \<Rightarrow> probe_world" where
  "apply_route env address w =
     w\<lparr>conf := snd (ApplyRoute (e_fails env) (e_present env) (conf w) address (iface_name env))\<rparr>"

definition setup_nat :: "probe_env \<Rightarrow> probe_world \<Rightarrow> probe_world" where
  "setup_nat env w = w\<lparr>conf := snd (SetupNAT (e_fails env) (e_present env) (conf w) (iface_name env))\<rparr>"

definition register_peer :: "probe_env \<Rightarrow> string \<Rightarrow> probe_world \<Rightarrow> bool \<times> probe_world" where
  "register_peer env allowed w =
     map_prod id (\<lambda>c. w\<lparr>conf := c\<rparr>) (RegisterPeer (e_fails env) (e_present env) (conf w) (e_key env) allowed)"

subsection \<open>Peer records\<close>

definition onPeerKnown :: "probe_env \<Rightarrow> Peer \<Rightarrow> probe_world \<Rightarrow> probe_world" where
  "onPeerKnown env peer w =
     (case Address peer of
        None \<Rightarrow> w
      | Some addr \<Rightarrow>
          (let allowed = (if AllowedIPs peer = [] then addr @ ''/32'' else AllowedIPs peer);
               (err, w1) = register_peer env allowed w
           in if err then w1
              else if peerKnownDone w1 then w1
              else
                (let w2 = w1\<lparr>peerKnownDone := True\<rparr>;
                     w3 = (if Endpoint peer \<noteq> [] then snd (set_endpoint env (Endpoint peer) 0 w2) else w2)
                 in apply_route env addr w3)))"

definition merged_peer :: "PeerManager \<Rightarrow> Peer \<Rightarrow> Peer" where
  "merged_peer m peer =
     (case GetPeer m (AppID peer) of
        Some existing \<Rightarrow>
          if AllowedIPs existing \<noteq> []
          then peer\<lparr>AllowedIPs := mergeAllowedIPs (AllowedIPs existing) (AllowedIPs peer)\<rparr> else peer
      | None \<Rightarrow> peer)"

text \<open>
  The record is stored under the application it names. \<^verbatim>\<open>remotePeer\<close> keeps the record itself,
  the store a scrubbed copy.
\<close>

definition onPeerReceived :: "probe_env \<Rightarrow> Peer \<Rightarrow> probe_world \<Rightarrow> probe_world" where
  "onPeerReceived env peer0 w =
     (let peer = merged_peer (store w) peer0
      in onPeerKnown env peer
           (w\<lparr>store := the (AddPeer (e_ParseKey env) (store w) (AppID peer) (Some peer)), remotePeer := Some peer\<rparr>))"

subsection \<open>Transition callbacks\<close>

definition signaler_cb :: "PeerState \<Rightarrow> PeerState \<Rightarrow> probe_world \<Rightarrow> probe_world" where
  "signaler_cb from to w = w\<lparr>signaler := onState (clock w) from to (signaler w)\<rparr>"

definition transport_endpoint :: "probe_env \<Rightarrow> Transport \<Rightarrow> string" where
  "transport_endpoint env t =
     (case t of RelayTransport _ \<Rightarrow> AddrPort_String (RelayFakeAddrPort (e_remote env)) | ICETransport a \<Rightarrow> a)"

definition config_cb :: "probe_env \<Rightarrow> PeerState \<Rightarrow> PeerState \<Rightarrow> probe_world \<Rightarrow> probe_world" where
  "config_cb env from to w =
     (if from = StateProbing \<and> (to = StateICEReady \<or> to = StateRelayReady)
      then
        (case remotePeer w of
           None \<Rightarrow> w
         | Some rp \<Rightarrow>
             (case (Address rp, currentTransport w) of
                (Some addr, Some t) \<Rightarrow>
                  (let (err, w1) = set_endpoint env (transport_endpoint env t) (keepaliveFor (e_local env) (e_remote env)) w
                   in if err then w1 else setup_nat env (apply_route env addr w1))
              | _ \<Rightarrow> w))
      else if from = StateRelayReady \<and> to = StateICEReady
      then
        (case currentTransport w of
           None \<Rightarrow> w
         | Some t \<Rightarrow> snd (set_endpoint env (RemoteAddr t) (keepaliveFor (e_local env) (e_remote env)) w))
      else if to = StateFailed \<or> to = StateClosed
      then w\<lparr>conf := snd (RemovePeer_wg (e_fails env) (e_present env) (conf w) (e_key env))\<rparr>
      else w)"

definition factory_callbacks :: "probe_env \<Rightarrow> (PeerState \<Rightarrow> PeerState \<Rightarrow> probe_world \<Rightarrow> probe_world) list" where
  "factory_callbacks env = [signaler_cb, config_cb env]"

subsection \<open>Frames\<close>

lemma wg_call_frame [frame_simps, simp]:
  "currentTransport (snd (set_endpoint env e ka w)) = currentTransport w"
  "currentTransport (apply_route env a w) = currentTransport w"
  "currentTransport (setup_nat env w) = currentTransport w"
  "currentTransport (snd (register_peer env al w)) = currentTransport w"
  "clock (snd (set_endpoint env e ka w)) = clock w" "clock (apply_route env a w) = clock w"
  "clock (setup_nat env w) = clock w" "clock (snd (register_peer env al w)) = clock w"
  by (simp_all add: set_endpoint_def apply_route_def setup_nat_def register_peer_def)

lemma onPeerKnown_frame [frame_simps, simp]:
  "currentTransport (onPeerKnown env peer w) = currentTransport w" "clock (onPeerKnown env peer w) = clock w"
  by (simp_all add: onPeerKnown_def Let_def case_prod_beta split: option.split)

lemma onPeerReceived_frame [frame_simps, simp]:
  "currentTransport (onPeerReceived env peer w) = currentTransport w" "clock (onPeerReceived env peer w) = clock w"
  by (simp_all add: onPeerReceived_def Let_def)

lemma config_cb_frame [frame_simps, simp]:
  "currentTransport (config_cb env from to w) = currentTransport w" "clock (config_cb env from to w) = clock w"
  by (simp_all add: config_cb_def Let_def case_prod_beta split: option.split)

lemma signaler_cb_frame [frame_simps, simp]:
  "currentTransport (signaler_cb from to w) = currentTransport w" "clock (signaler_cb from to w) = clock w"
  "conf (signaler_cb from to w) = conf w" "remotePeer (signaler_cb from to w) = remotePeer w"
  by (simp_all add: signaler_cb_def)

subsection \<open>Properties\<close>

lemma applied_register: "applied (conf (snd (register_peer env al w))) (e_key env) = Some al"
  by (auto simp: register_peer_def RegisterPeer_def call_op_def)

lemma applied_calls [simp]:
  "applied (conf (snd (set_endpoint env e ka w))) = applied (conf w)" "applied (conf (apply_route env a w)) = applied (conf w)"
  by (simp_all add: set_endpoint_def SetEndpoint_def apply_route_def ApplyRoute_def call_op_def)

lemma applied_onPeerKnown:
  assumes "Address peer = Some a" "AllowedIPs peer \<noteq> []"
  shows "applied (conf (onPeerKnown env peer w)) (e_key env) = Some (AllowedIPs peer)"
  using assms applied_register [of env "AllowedIPs peer" w]
  by (simp add: onPeerKnown_def Let_def case_prod_beta)

lemma store_onPeerKnown [simp]: "store (onPeerKnown env peer w) = store w"
  by (simp add: onPeerKnown_def Let_def case_prod_beta register_peer_def set_endpoint_def apply_route_def split: option.split)

text \<open>
  A record received over signaling adds its routes to those the node already holds for that
  application and removes none: store and WireGuard end up with exactly the union of the two
  lists. Nothing restricts the received list to the sender's own address.
\<close>

lemma received_routes_union:
  assumes "GetPeer (store w) (AppID peer) = Some existing" and "Address peer = Some a"
    and "cidrs (AllowedIPs peer) \<noteq> []" and "AllowedIPs existing \<noteq> []"
  shows "\<exists>allowed stored. applied (conf (onPeerReceived env peer w)) (e_key env) = Some allowed \<and>
    GetPeer (store (onPeerReceived env peer w)) (AppID peer) = Some stored \<and> AllowedIPs stored = allowed \<and>
    set (cidrs allowed) = set (cidrs (AllowedIPs existing)) \<union> set (cidrs (AllowedIPs peer))"
proof -
  let ?m = "mergeAllowedIPs (AllowedIPs existing) (AllowedIPs peer)"
  have u: "set (cidrs ?m) = set (cidrs (AllowedIPs existing)) \<union> set (cidrs (AllowedIPs peer))"
    using mergeAllowedIPs_union by blast
  then have "?m \<noteq> []" using assms(3) by auto
  moreover have mp: "merged_peer (store w) peer = peer\<lparr>AllowedIPs := ?m\<rparr>"
    using assms(1,4) by (simp add: merged_peer_def)
  ultimately have "applied (conf (onPeerReceived env peer w)) (e_key env) = Some ?m"
    using assms(2) applied_onPeerKnown [of "peer\<lparr>AllowedIPs := ?m\<rparr>" a env] by (simp add: onPeerReceived_def Let_def)
  moreover have "GetPeer (store (onPeerReceived env peer w)) (AppID peer) = Some (scrub (peer\<lparr>AllowedIPs := ?m\<rparr>))"
    by (simp add: onPeerReceived_def Let_def mp AddPeer_def GetPeer_def split: option.split)
  ultimately show ?thesis using u by (auto simp: scrub_def)
qed

definition ex_penv :: probe_env where
  "ex_penv = \<lparr>e_local = 9, e_remote = 4, e_localApp = ''me'', e_key = ''k1'', e_ParseKey = ex_ParseKey,
     e_fails = (\<lambda>_. False), e_present = True, e_iface = ''wg0'', e_stats = True, e_relay = True,
     e_upgradeDisabled = False\<rparr>"

definition ex_known :: Peer where
  "ex_known = ex_peer\<lparr>Address := Some ''10.0.0.2'', AllowedIPs := ''10.0.0.2/32''\<rparr>"

definition ex_world :: probe_world where
  "ex_world = \<lparr>clock = 0, store = \<lparr>peers = [''app'' \<mapsto> ex_known], byID = Map.empty\<rparr>, conf = NewWGConfigurator,
     signaler = newPeerSignaler, remotePeer = None, peerKnownDone = False, currentTransport = None\<rparr>"

end
