(* ===== verification/SignalPackets.thy ===== *)
theory SignalPackets
  imports PeerConfig
begin

text \<open>
  The packets of \<^verbatim>\<open>internal/signal/signal.go\<close> that peers exchange over NATS and the relay. An
  embedded JSON document is empty, undecodable, or the value it decodes to; an envelope's
  optional payload is an \<^typ>\<open>'a option\<close>, \<^term>\<open>None\<close> for the nil pointer. A handler that
  dereferences nil has the outcome \<open>Panic\<close>.
\<close>

datatype PacketType = UNKNOWN | HANDSHAKE_SYN | HANDSHAKE_ACK | OFFER | ANSWER | MESSAGE | RESTART_NOTIFY

datatype DialerType = ICE_dialer | Relay_dialer

datatype 'a json = Absent | Malformed | Decoded 'a

record Handshake =
  Timestamp_hs :: int
  PeerInfo :: "Peer json"
  IsUpgradeProbe :: bool
  AttemptID_hs :: string

record Offer =
  Ufrag :: string
  Pwd :: string
  TieBreaker :: "64 word"
  Candidate :: string
  Vip :: string
  Current_of :: "Peer json"
  PublicKey_of :: string
  AttemptID_of :: string

record SignalPacket =
  Type :: PacketType
  Dialer :: DialerType
  SenderID :: "64 word"
  GetHandshake :: "Handshake option"
  GetOffer :: "Offer option"
  GetAnswer :: "Offer option"
  GetMessage :: "Message json option"

datatype outcome = Ok | Err | Panic

definition packet :: "PacketType \<Rightarrow> DialerType \<Rightarrow> 64 word \<Rightarrow> SignalPacket" where
  "packet t d sender = \<lparr>Type = t, Dialer = d, SenderID = sender, GetHandshake = None, GetOffer = None,
     GetAnswer = None, GetMessage = None\<rparr>"

text \<open>
  The zero \<^verbatim>\<open>Peer\<close>, which is also what decoding the document of a nil \<^verbatim>\<open>*Peer\<close> (\<^verbatim>\<open>null\<close>)
  leaves in a fresh variable.
\<close>

definition zero_Peer :: Peer where
  "zero_Peer = \<lparr>Name = [], InterfaceName = [], Platform = [], Description = [], NetworkId = [], CreatedBy = [],
     UserId = 0, Hostname = [], AppID = [], Address = None, Endpoint = [], Remove = False,
     PresharedKey = [], PersistentKeepalive = 0, PrivateKey = [], PublicKey = [], PeerID = 0,
     AllowedIPs = [], ReplacePeers = False, Port = 0, GroupName = [], Version = 0, LastUpdatedAt = [],
     Token = [], RelayURL = [], EnforcerMode = [], Tier = [], ApprovalStatus = [], Labels = Map.empty,
     AdvertisedRoutes = []\<rparr>"

definition marshal_peer :: "Peer option \<Rightarrow> Peer json" where
  "marshal_peer lp = (case lp of Some p \<Rightarrow> Decoded p | None \<Rightarrow> Decoded zero_Peer)"

text \<open>The handshake both dialers put into a SYN or ACK: the local record when there is one.\<close>

definition handshake :: "int \<Rightarrow> Peer option \<Rightarrow> Handshake" where
  "handshake unix lp = \<lparr>Timestamp_hs = unix, PeerInfo = (case lp of Some p \<Rightarrow> Decoded p | None \<Rightarrow> Absent),
     IsUpgradeProbe = False, AttemptID_hs = []\<rparr>"

text \<open>The guards the dialers apply to marked packets, and the peer info a SYN or ACK carries.\<close>

definition marked_handshake :: "SignalPacket \<Rightarrow> bool" where
  "marked_handshake p = (case GetHandshake p of Some hs \<Rightarrow> IsUpgradeProbe hs | None \<Rightarrow> False)"

definition marked_offer :: "SignalPacket \<Rightarrow> bool" where
  "marked_offer p = (case GetOffer p of Some ofr \<Rightarrow> AttemptID_of ofr \<noteq> [] | None \<Rightarrow> False)"

definition handshake_peer :: "SignalPacket \<Rightarrow> Peer json" where
  "handshake_peer p = (case GetHandshake p of Some hs \<Rightarrow> PeerInfo hs | None \<Rightarrow> Absent)"

lemma packet_sel [simp]:
  "Type (packet t d s) = t" "Dialer (packet t d s) = d" "SenderID (packet t d s) = s"
  "GetHandshake (packet t d s) = None" "GetOffer (packet t d s) = None" "GetMessage (packet t d s) = None"
  by (simp_all add: packet_def)

end
