(* ===== verification/RelayDialer.thy ===== *)
theory RelayDialer
  imports SignalPackets
begin

text \<open>
  \<^verbatim>\<open>internal/server/transport/relay_dialer.go\<close>: the SYN/ACK/OFFER/ANSWER exchange that forms a
  relayed session. SYN and ACK go through signaling, OFFER and ANSWER through the relay channel;
  whether a send succeeds is a parameter, and every packet handed to a channel is recorded in
  \<open>sent\<close>, its channel with it.
\<close>

definition relaySynGrace :: duration where
  "relaySynGrace = 5 * Second"

datatype channel = Signaling | RelayChan

record relayDialer =
  localId :: "64 word"
  remoteId :: "64 word"
  localPeer :: "Peer option"
  ready :: bool
  active :: bool
  activeAt :: time
  syn_ticker :: bool
  stopped :: bool
  sent :: "(channel \<times> SignalPacket) list"
  received :: "Peer list"
  restarts :: nat

definition NewRelayDialer :: "64 word \<Rightarrow> 64 word \<Rightarrow> Peer option \<Rightarrow> relayDialer" where
  "NewRelayDialer l r lp = \<lparr>localId = l, remoteId = r, localPeer = lp, ready = False, active = False,
     activeAt = 0, syn_ticker = False, stopped = False, sent = [], received = [], restarts = 0\<rparr>"

definition sendPacket_relay :: "bool \<Rightarrow> time \<Rightarrow> PacketType \<Rightarrow> relayDialer \<Rightarrow> outcome \<times> relayDialer" where
  "sendPacket_relay ok now t w =
     (let p = packet t Relay_dialer (localId w);
          p' = (if t = HANDSHAKE_SYN \<or> t = HANDSHAKE_ACK
                then p\<lparr>GetHandshake := Some (handshake (now div Second) (localPeer w))\<rparr> else p)
      in (if ok then Ok else Err, w\<lparr>sent := sent w @ [(Signaling, p')]\<rparr>))"

definition relay_offer :: "string \<Rightarrow> Peer option \<Rightarrow> Offer" where
  "relay_offer pubkey lp = \<lparr>Ufrag = [], Pwd = [], TieBreaker = 0, Candidate = [], Vip = [],
     Current_of = marshal_peer lp, PublicKey_of = pubkey, AttemptID_of = []\<rparr>"

definition sendOfferFromRelay :: "bool \<Rightarrow> string \<Rightarrow> PacketType \<Rightarrow> relayDialer \<Rightarrow> outcome \<times> relayDialer" where
  "sendOfferFromRelay ok pubkey t w =
     (let p = (packet t Relay_dialer (localId w))\<lparr>GetOffer := Some (relay_offer pubkey (localPeer w))\<rparr>
      in (if ok then Ok else Err, w\<lparr>sent := sent w @ [(RelayChan, p)]\<rparr>))"

text \<open>
  \<^verbatim>\<open>Prepare\<close> sends the first SYN at once and leaves a two-second ticker running, which a
  closed dialer's ticker goroutine leaves at its first select.
\<close>

definition Prepare_relay :: "bool \<Rightarrow> time \<Rightarrow> relayDialer \<Rightarrow> relayDialer" where
  "Prepare_relay ok now w = snd (sendPacket_relay ok now HANDSHAKE_SYN (w\<lparr>syn_ticker := \<not> stopped w\<rparr>))"

definition tick_relay :: "bool \<Rightarrow> time \<Rightarrow> relayDialer \<Rightarrow> relayDialer" where
  "tick_relay ok now w = (if syn_ticker w then snd (sendPacket_relay ok now HANDSHAKE_SYN w) else w)"

definition onPeerInfo :: "Peer json \<Rightarrow> relayDialer \<Rightarrow> relayDialer" where
  "onPeerInfo j w = (case j of Decoded p \<Rightarrow> w\<lparr>received := received w @ [p]\<rparr> | _ \<Rightarrow> w)"

text \<open>The common part of the OFFER and the ANSWER case.\<close>

definition form_session :: "time \<Rightarrow> Peer \<Rightarrow> relayDialer \<Rightarrow> relayDialer" where
  "form_session now p w =
     w\<lparr>received := received w @ [p], active := True, activeAt := now, syn_ticker := False, ready := True\<rparr>"

definition Handle_relay ::
  "bool \<Rightarrow> bool \<Rightarrow> string \<Rightarrow> time \<Rightarrow> relayDialer \<Rightarrow> SignalPacket \<Rightarrow> outcome \<times> relayDialer" where
  "Handle_relay send_ok relay_ok pubkey now w pkt =
     (if Dialer pkt \<noteq> Relay_dialer then (Ok, w)
      else
        (case Type pkt of
           HANDSHAKE_SYN \<Rightarrow>
             if marked_handshake pkt then (Ok, w)
             else
               (let w1 = onPeerInfo (handshake_peer pkt) w;
                    isActive = active w1;
                    retransmit = isActive \<and> now - activeAt w1 < relaySynGrace;
                    w2 = (if isActive \<and> \<not> retransmit then w1\<lparr>active := False\<rparr> else w1)
                in if retransmit then sendPacket_relay send_ok now HANDSHAKE_ACK w2
                   else if isActive then (Ok, w2\<lparr>restarts := restarts w2 + 1\<rparr>)
                   else sendPacket_relay send_ok now HANDSHAKE_ACK w2)
         | HANDSHAKE_ACK \<Rightarrow>
             (let w1 = (onPeerInfo (handshake_peer pkt) w)\<lparr>syn_ticker := False\<rparr>
              in if isInitiator (localId w1) (remoteId w1) then sendOfferFromRelay relay_ok pubkey OFFER w1
                 else (Ok, w1))
         | OFFER \<Rightarrow>
             (case GetOffer pkt of
                None \<Rightarrow> (Panic, w)
              | Some ofr \<Rightarrow>
                  (case Current_of ofr of
                     Decoded p \<Rightarrow> (Ok, snd (sendOfferFromRelay relay_ok pubkey ANSWER (form_session now p w)))
                   | _ \<Rightarrow> (Err, w)))
         | ANSWER \<Rightarrow>
             (case GetOffer pkt of
                None \<Rightarrow> (Panic, w)
              | Some ofr \<Rightarrow>
                  (case Current_of ofr of Decoded p \<Rightarrow> (Ok, form_session now p w) | _ \<Rightarrow> (Err, w)))
         | _ \<Rightarrow> (Ok, w)))"

text \<open>\<^verbatim>\<open>Dial\<close> after its wait: the transport once the session is ready, else the 65 s timeout.\<close>

definition Dial_relay :: "string option \<Rightarrow> relayDialer \<Rightarrow> string option" where
  "Dial_relay remoteAddr w =
     (if ready w then Some (case remoteAddr of Some a \<Rightarrow> a | None \<Rightarrow> []) else None)"

definition Close_relay :: "relayDialer \<Rightarrow> relayDialer" where
  "Close_relay w = (if stopped w then w else w\<lparr>syn_ticker := False, stopped := True\<rparr>)"

subsection \<open>Two dialers facing each other\<close>

text \<open>What a dialer sent since a given moment is handed to the other one, in order.\<close>

definition new_packets :: "relayDialer \<Rightarrow> relayDialer \<Rightarrow> SignalPacket list" where
  "new_packets before w = map snd (drop (length (sent before)) (sent w))"

definition deliver :: "string \<Rightarrow> time \<Rightarrow> relayDialer \<Rightarrow> SignalPacket list \<Rightarrow> relayDialer" where
  "deliver pubkey now w pkts = foldl (\<lambda>w p. snd (Handle_relay True True pubkey now w p)) w pkts"

text \<open>One turn: the peer handles what this dialer has just sent.\<close>

definition turn :: "string \<Rightarrow> time \<Rightarrow> SignalPacket list \<times> relayDialer \<Rightarrow> SignalPacket list \<times> relayDialer" where
  "turn pubkey now x = (case x of (pkts, w) \<Rightarrow> let w' = deliver pubkey now w pkts in (new_packets w w', w'))"

text \<open>
  The exchange from the initiator's SYN: SYN to the responder, ACK back, OFFER over, ANSWER back.
\<close>

definition relay_exchange :: "string \<Rightarrow> string \<Rightarrow> time \<Rightarrow> relayDialer \<Rightarrow> relayDialer \<Rightarrow> relayDialer \<times> relayDialer" where
  "relay_exchange ka kb now a b =
     (let a1 = Prepare_relay True now a;
          (ack, b1) = turn kb now (new_packets a a1, b);
          (ofr, a2) = turn ka now (ack, a1);
          (ans, b2) = turn kb now (ofr, b1);
          (_, a3) = turn ka now (ans, a2)
      in (a3, b2))"

lemmas relay_packet_defs = sendPacket_relay_def sendOfferFromRelay_def handshake_def marshal_peer_def
lemmas relay_handle_defs = Handle_relay_def onPeerInfo_def form_session_def marked_handshake_def
  handshake_peer_def Let_def

lemma Current_relay_offer [simp]: "Current_of (relay_offer k (Some p)) = Decoded p"
  by (simp add: relay_offer_def marshal_peer_def)

lemma turn_single:
  "turn k now ([p], w) =
     (map snd (drop (length (sent w)) (sent (snd (Handle_relay True True k now w p)))), snd (Handle_relay True True k now w p))"
  by (simp add: turn_def deliver_def new_packets_def Let_def)

lemma handle_syn_fresh:
  fixes u now :: int
  assumes "\<not> active b" and "localPeer a = Some pa"
  defines "syn \<equiv> (packet HANDSHAKE_SYN Relay_dialer (localId a))\<lparr>GetHandshake := Some (handshake u (Some pa))\<rparr>"
    and "ack \<equiv> (packet HANDSHAKE_ACK Relay_dialer (localId b))\<lparr>GetHandshake := Some (handshake (now div Second) (localPeer b))\<rparr>"
  shows "turn k now ([syn], b) = ([ack], b\<lparr>received := received b @ [pa], sent := sent b @ [(Signaling, ack)]\<rparr>)"
  using assms(1,2) unfolding turn_single syn_def ack_def
  by (simp add: relay_handle_defs relay_packet_defs)

lemma handle_ack_initiator:
  fixes u :: int and s :: "64 word" and pb :: Peer and k :: string
  assumes "isInitiator (localId a) (remoteId a)" and "localPeer a = Some pa"
  defines "ack \<equiv> (packet HANDSHAKE_ACK Relay_dialer s)\<lparr>GetHandshake := Some (handshake u (Some pb))\<rparr>"
    and "ofr \<equiv> relay_offer k (Some pa)"
  shows "turn k now ([ack], a) =
    ([(packet OFFER Relay_dialer (localId a))\<lparr>GetOffer := Some ofr\<rparr>],
     a\<lparr>received := received a @ [pb], syn_ticker := False,
       sent := sent a @ [(RelayChan, (packet OFFER Relay_dialer (localId a))\<lparr>GetOffer := Some ofr\<rparr>)]\<rparr>)"
  using assms(1,2) unfolding turn_single ack_def ofr_def
  by (simp add: relay_handle_defs relay_packet_defs)

lemma handle_offer:
  fixes k :: string and now :: int
  assumes "localPeer b = Some pb" and "Current_of ofr = Decoded pa"
  defines "answer \<equiv> (packet ANSWER Relay_dialer (localId b))\<lparr>GetOffer := Some (relay_offer k (Some pb))\<rparr>"
  shows "turn k now ([(packet OFFER Relay_dialer s)\<lparr>GetOffer := Some ofr\<rparr>], b) =
    ([answer], (form_session now pa b)\<lparr>sent := sent b @ [(RelayChan, answer)]\<rparr>)"
  using assms(1,2) unfolding turn_single answer_def
  by (simp add: relay_handle_defs relay_packet_defs)

lemma handle_answer:
  assumes "Current_of ans = Decoded pb"
  shows "turn k now ([(packet ANSWER Relay_dialer s)\<lparr>GetOffer := Some ans\<rparr>], a) = ([], form_session now pb a)"
  using assms unfolding turn_single by (simp add: relay_handle_defs)

subsection \<open>Properties\<close>

text \<open>
  C28. The exchange forms the session on both sides: whatever the two fresh dialers of a pair,
  after the initiator's SYN has been answered in turn both are ready to dial, each has learned
  the other's record, and no SYN ticker of the pair is left running.
\<close>

theorem relay_handshake_completes:
  assumes "isInitiator l r" and "relay_exchange ka kb now (NewRelayDialer l r (Some pa))
      (Prepare_relay True t (NewRelayDialer r l (Some pb))) = (a, b)"
  shows "Dial_relay (Some addr) a = Some addr \<and> Dial_relay (Some addr) b = Some addr \<and>
    set (received a) = {pb} \<and> set (received b) = {pa} \<and> \<not> syn_ticker a \<and> \<not> syn_ticker b \<and>
    restarts a = 0 \<and> restarts b = 0"
proof -
  let ?b = "Prepare_relay True t (NewRelayDialer r l (Some pb))"
  let ?a1 = "Prepare_relay True now (NewRelayDialer l r (Some pa))"
  have b0: "\<not> active ?b" "localPeer ?b = Some pb" "localId ?b = r" "received ?b = []" "restarts ?b = 0"
    by (simp_all add: Prepare_relay_def relay_packet_defs NewRelayDialer_def Let_def)
  have a0: "localPeer ?a1 = Some pa" "localId ?a1 = l" "remoteId ?a1 = r" "received ?a1 = []" "restarts ?a1 = 0"
    by (simp_all add: Prepare_relay_def relay_packet_defs NewRelayDialer_def Let_def)
  have syn: "new_packets (NewRelayDialer l r (Some pa)) ?a1 =
      [(packet HANDSHAKE_SYN Relay_dialer (localId ?a1))\<lparr>GetHandshake := Some (handshake (now div Second) (Some pa))\<rparr>]"
    by (simp add: new_packets_def Prepare_relay_def relay_packet_defs NewRelayDialer_def Let_def)
  obtain b1 where b1: "turn kb now (new_packets (NewRelayDialer l r (Some pa)) ?a1, ?b) =
      ([(packet HANDSHAKE_ACK Relay_dialer r)\<lparr>GetHandshake := Some (handshake (now div Second) (Some pb))\<rparr>], b1)"
    and b1f: "localPeer b1 = Some pb" "received b1 = [pa]" "restarts b1 = 0"
    using handle_syn_fresh [OF b0(1) a0(1), where k = kb and now = now and u = "now div Second"]
    unfolding syn by (simp add: b0)
  obtain a2 where a2: "turn ka now ([(packet HANDSHAKE_ACK Relay_dialer r)\<lparr>GetHandshake :=
        Some (handshake (now div Second) (Some pb))\<rparr>], ?a1) =
      ([(packet OFFER Relay_dialer l)\<lparr>GetOffer := Some (relay_offer ka (Some pa))\<rparr>], a2)"
    and a2f: "received a2 = [pb]" "restarts a2 = 0"
    using handle_ack_initiator [where a = ?a1 and k = ka and s = r and u = "now div Second" and pb = pb and pa = pa
        and now = now] assms(1)
    by (simp add: a0)
  obtain b2 where b2: "turn kb now ([(packet OFFER Relay_dialer l)\<lparr>GetOffer := Some (relay_offer ka (Some pa))\<rparr>], b1) =
      ([(packet ANSWER Relay_dialer (localId b1))\<lparr>GetOffer := Some (relay_offer kb (Some pb))\<rparr>], b2)"
    and b2f: "received b2 = [pa, pa]" "ready b2" "\<not> syn_ticker b2" "restarts b2 = 0"
    using handle_offer [OF b1f(1) Current_relay_offer [of ka pa], where k = kb and now = now and s = l] b1f
    by (simp add: form_session_def)
  have "(a, b) = (form_session now pb a2, b2)"
    using assms(2) handle_answer [OF Current_relay_offer [of kb pb]] unfolding relay_exchange_def
    by (simp add: b1 a2 b2 Let_def)
  then show ?thesis
    using b2f a2f by (simp add: form_session_def Dial_relay_def)
qed

theorem relay_handshake_completes_witness:
  "isInitiator 9 4 \<and>
   set (received (fst (relay_exchange ''ka'' ''kb'' 0 (NewRelayDialer 9 4 (Some zero_Peer))
     (Prepare_relay True 0 (NewRelayDialer 4 9 (Some zero_Peer)))))) = {zero_Peer}"
proof -
  have i: "isInitiator 9 4" by (simp add: isInitiator_def)
  show ?thesis
    using relay_handshake_completes [OF i surjective_pairing, where ka = "''ka''" and kb = "''kb''" and now = 0
        and pa = zero_Peer and pb = zero_Peer and t = 0 and addr = "[]"] i by simp
qed

text \<open>
  A SYN on a formed relay session restarts the probe exactly once, and not at all within
  five seconds of the session forming, when it is answered as a retransmission.
\<close>

lemma relay_syn_restart_once:
  assumes "Type pkt = HANDSHAKE_SYN" and "Dialer pkt = Relay_dialer" and "\<not> marked_handshake pkt" and "active w"
    and "Handle_relay s1 r1 k now w pkt = (res1, w1)" and "Handle_relay s2 r2 k now' w1 pkt = (res2, w2)"
  shows "if now - activeAt w < 5 * Second
    then active w1 \<and> restarts w1 = restarts w \<and> map (Type \<circ> snd) (sent w1) = map (Type \<circ> snd) (sent w) @ [HANDSHAKE_ACK]
    else \<not> active w1 \<and> restarts w1 = restarts w + 1 \<and> sent w1 = sent w \<and>
      restarts w2 = restarts w1 \<and> map (Type \<circ> snd) (sent w2) = map (Type \<circ> snd) (sent w1) @ [HANDSHAKE_ACK]"
  using assms
  by (auto simp: Handle_relay_def onPeerInfo_def sendPacket_relay_def relaySynGrace_def Let_def split: json.splits if_splits)

definition ex_syn :: SignalPacket where
  "ex_syn = (packet HANDSHAKE_SYN Relay_dialer 4)\<lparr>GetHandshake := Some (handshake 0 None)\<rparr>"

end
