(* ===== verification/IceDialer.thy ===== *)
theory IceDialer
  imports RelayDialer
begin

text \<open>
  \<^verbatim>\<open>internal/server/transport/ice_dialer.go\<close>: the direct dialer. The ICE agent is pion's: whether
  one can be created, starts gathering, hands out its credentials and takes a remote candidate
  are parameters, as are the candidate parser and the text of the local public key; the candidates an agent was given are its
  state here. Handlers run one at a time. The SYN ticker and the restart notices are counted
  by what is left to send, and each packet handed to the sender is recorded.
\<close>

record ice_env =
  localKey :: string
  getAgent_ok :: bool
  gather_ok :: bool
  credentials :: "(string \<times> string) option"
  sender_ok :: bool

record 'cand iceDialer =
  i_localId :: "64 word"
  i_remoteId :: "64 word"
  i_localPeer :: "Peer option"
  agent :: "'cand list option"
  credentialsInited :: bool
  rUfrag :: string
  rPwd :: string
  closed :: bool
  gathered :: bool
  offerReady :: bool
  i_syn :: bool
  i_notices :: nat
  pendingCandidates :: "'cand list"
  gatheredCandidates :: "'cand list"
  i_sent :: "SignalPacket list"
  i_received :: "Peer list"
  i_restarts :: nat

definition NewIceDialer :: "64 word \<Rightarrow> 64 word \<Rightarrow> Peer option \<Rightarrow> 'cand iceDialer" where
  "NewIceDialer l r lp = \<lparr>i_localId = l, i_remoteId = r, i_localPeer = lp, agent = None,
     credentialsInited = False, rUfrag = [], rPwd = [], closed = False, gathered = False, offerReady = False,
     i_syn = False, i_notices = 0, pendingCandidates = [], gatheredCandidates = [], i_sent = [],
     i_received = [], i_restarts = 0\<rparr>"

definition restartNotifyAttempts :: nat where
  "restartNotifyAttempts = 12"

subsection \<open>Sending\<close>

definition ice_packet ::
  "string \<Rightarrow> string \<times> string \<Rightarrow> ('cand \<Rightarrow> string) \<Rightarrow> time \<Rightarrow> PacketType \<Rightarrow> 'cand option \<Rightarrow> 'cand iceDialer \<Rightarrow>
   SignalPacket" where
  "ice_packet key creds marshal now t cand d =
     (let p = packet t ICE_dialer (i_localId d)
      in if t = HANDSHAKE_SYN \<or> t = HANDSHAKE_ACK
         then p\<lparr>GetHandshake := Some (handshake (now div Second) (i_localPeer d))\<rparr>
         else (case (t, cand) of
                 (OFFER, Some c) \<Rightarrow>
                   p\<lparr>GetOffer := Some \<lparr>Ufrag = fst creds, Pwd = snd creds, TieBreaker = 0, Candidate = marshal c,
                      Vip = [], Current_of = marshal_peer (i_localPeer d), PublicKey_of = key, AttemptID_of = []\<rparr>\<rparr>
               | _ \<Rightarrow> p))"

text \<open>
  A closed dialer sends nothing and reports success; an OFFER needs the agent, its credentials
  and a candidate.
\<close>

definition sendPacket_ice ::
  "ice_env \<Rightarrow> ('cand \<Rightarrow> string) \<Rightarrow> time \<Rightarrow> PacketType \<Rightarrow> 'cand option \<Rightarrow> 'cand iceDialer \<Rightarrow> bool \<times> 'cand iceDialer" where
  "sendPacket_ice env marshal now t cand d =
     (if closed d then (True, d)
      else if t = OFFER \<and> (agent d = None \<or> credentials env = None \<or> cand = None) then (False, d)
      else (sender_ok env, d\<lparr>i_sent := i_sent d @
              [ice_packet (localKey env) (case credentials env of Some c \<Rightarrow> c | None \<Rightarrow> ([], [])) marshal now t cand d]\<rparr>))"

definition resendCandidates :: "ice_env \<Rightarrow> ('cand \<Rightarrow> string) \<Rightarrow> time \<Rightarrow> 'cand iceDialer \<Rightarrow> 'cand iceDialer" where
  "resendCandidates env marshal now d =
     foldl (\<lambda>d c. snd (sendPacket_ice env marshal now OFFER (Some c) d)) d (gatheredCandidates d)"

text \<open>The agent's candidate callback; \<^term>\<open>None\<close> marks the end of gathering.\<close>

definition onCandidate :: "ice_env \<Rightarrow> ('cand \<Rightarrow> string) \<Rightarrow> time \<Rightarrow> 'cand option \<Rightarrow> 'cand iceDialer \<Rightarrow> 'cand iceDialer" where
  "onCandidate env marshal now cand d =
     (case cand of
        None \<Rightarrow> d
      | Some c \<Rightarrow> snd (sendPacket_ice env marshal now OFFER (Some c)
                        (d\<lparr>gatheredCandidates := gatheredCandidates d @ [c]\<rparr>)))"

subsection \<open>Receiving\<close>

text \<open>Peer info from a SYN or ACK is taken once, whether or not it decodes.\<close>

definition ice_peer_info :: "Peer json \<Rightarrow> 'cand iceDialer \<Rightarrow> 'cand iceDialer" where
  "ice_peer_info j d =
     (if j = Absent \<or> credentialsInited d then d
      else (case j of
              Decoded p \<Rightarrow> d\<lparr>credentialsInited := True, i_received := i_received d @ [p]\<rparr>
            | _ \<Rightarrow> d\<lparr>credentialsInited := True\<rparr>))"

text \<open>\<open>gatherOnce\<close>: the call runs at most once, and only the run that made it sees its error.\<close>

definition gatherOnce :: "ice_env \<Rightarrow> 'cand iceDialer \<Rightarrow> bool \<times> 'cand iceDialer" where
  "gatherOnce env d = (if gathered d then (True, d) else (gather_ok env, d\<lparr>gathered := True\<rparr>))"

text \<open>
  Buffered candidates go to the agent, which may refuse some; any at all release the dial.
\<close>

definition replay :: "('cand \<Rightarrow> bool) \<Rightarrow> 'cand list \<Rightarrow> 'cand iceDialer \<Rightarrow> 'cand iceDialer" where
  "replay takes pend d =
     d\<lparr>agent := map_option (\<lambda>cs. cs @ filter takes pend) (agent d), offerReady := (offerReady d \<or> pend \<noteq> [])\<rparr>"

definition handle_syn_new ::
  "ice_env \<Rightarrow> ('cand \<Rightarrow> string) \<Rightarrow> ('cand \<Rightarrow> bool) \<Rightarrow> time \<Rightarrow> 'cand iceDialer \<Rightarrow> outcome \<times> 'cand iceDialer" where
  "handle_syn_new env marshal takes now d =
     (if \<not> getAgent_ok env then (Err, d)
      else
        (let pend = pendingCandidates d;
             d1 = d\<lparr>agent := Some [], pendingCandidates := []\<rparr>;
             (sent_ok, d2) = sendPacket_ice env marshal now HANDSHAKE_ACK None d1
         in if \<not> sent_ok then (Err, d2)
            else
              (let (gok, d3) = gatherOnce env d2
               in if \<not> gok then (Err, d3) else (Ok, replay takes pend d3))))"

definition handle_syn ::
  "ice_env \<Rightarrow> ('cand \<Rightarrow> string) \<Rightarrow> ('cand \<Rightarrow> bool) \<Rightarrow> time \<Rightarrow> 'cand iceDialer \<Rightarrow> SignalPacket \<Rightarrow> outcome \<times> 'cand iceDialer" where
  "handle_syn env marshal takes now d pkt =
     (if marked_handshake pkt then (Ok, d)
      else if closed d then (Ok, d\<lparr>i_restarts := i_restarts d + 1\<rparr>)
      else
        (let d1 = ice_peer_info (handshake_peer pkt) d
         in if agent d1 \<noteq> None
            then (Ok, resendCandidates env marshal now (snd (sendPacket_ice env marshal now HANDSHAKE_ACK None d1)))
            else handle_syn_new env marshal takes now d1))"

definition handle_ack ::
  "ice_env \<Rightarrow> ('cand \<Rightarrow> string) \<Rightarrow> time \<Rightarrow> 'cand iceDialer \<Rightarrow> SignalPacket \<Rightarrow> outcome \<times> 'cand iceDialer" where
  "handle_ack env marshal now d pkt =
     (if marked_handshake pkt \<or> closed d \<or> agent d = None then (Ok, d)
      else
        (let d1 = (ice_peer_info (handshake_peer pkt) d)\<lparr>i_syn := False\<rparr>;
             (gok, d2) = gatherOnce env d1
         in if gathered d1 then (Ok, resendCandidates env marshal now d2) else (if gok then Ok else Err, d2)))"

definition take_credentials :: "Offer \<Rightarrow> 'cand iceDialer \<Rightarrow> 'cand iceDialer" where
  "take_credentials ofr d =
     (let d1 = (if rUfrag d = [] then d\<lparr>rUfrag := Ufrag ofr, rPwd := Pwd ofr\<rparr> else d)
      in (ice_peer_info (Current_of ofr) d1)\<lparr>credentialsInited := True\<rparr>)"

definition handle_offer_ice ::
  "(string \<Rightarrow> 'cand option) \<Rightarrow> ('cand \<Rightarrow> bool) \<Rightarrow> 'cand iceDialer \<Rightarrow> SignalPacket \<Rightarrow> outcome \<times> 'cand iceDialer" where
  "handle_offer_ice UnmarshalCandidate takes d pkt =
     (if closed d then (Ok, d)
      else
        (case GetOffer pkt of
           None \<Rightarrow> (Panic, d)
         | Some ofr \<Rightarrow>
             if AttemptID_of ofr \<noteq> [] then (Ok, d)
             else
               (let d1 = take_credentials ofr d
                in case UnmarshalCandidate (Candidate ofr) of
                     None \<Rightarrow> (Err, d1)
                   | Some cand \<Rightarrow>
                       (case agent d1 of
                          None \<Rightarrow> (Ok, d1\<lparr>pendingCandidates := pendingCandidates d1 @ [cand]\<rparr>)
                        | Some cs \<Rightarrow>
                            if takes cand then (Ok, d1\<lparr>agent := Some (cs @ [cand]), offerReady := True\<rparr>)
                            else (Err, d1)))))"

definition Handle_ice ::
  "ice_env \<Rightarrow> ('cand \<Rightarrow> string) \<Rightarrow> (string \<Rightarrow> 'cand option) \<Rightarrow> ('cand \<Rightarrow> bool) \<Rightarrow> time \<Rightarrow>
   'cand iceDialer \<Rightarrow> SignalPacket \<Rightarrow> outcome \<times> 'cand iceDialer" where
  "Handle_ice env marshal UnmarshalCandidate takes now d pkt =
     (if Dialer pkt \<noteq> ICE_dialer then (Ok, d)
      else
        (case Type pkt of
           RESTART_NOTIFY \<Rightarrow> (Ok, if closed d then d\<lparr>i_restarts := i_restarts d + 1\<rparr> else d)
         | HANDSHAKE_ACK \<Rightarrow> handle_ack env marshal now d pkt
         | HANDSHAKE_SYN \<Rightarrow> handle_syn env marshal takes now d pkt
         | OFFER \<Rightarrow> handle_offer_ice UnmarshalCandidate takes d pkt
         | ANSWER \<Rightarrow> handle_offer_ice UnmarshalCandidate takes d pkt
         | _ \<Rightarrow> (Ok, d)))"

subsection \<open>Preparing, dialing, closing\<close>

text \<open>
  The responder announces itself, at once and at most twelve times; the initiator creates its
  agent, replays what arrived before it, gathers, and sends its first SYN.
\<close>

definition notice_tick :: "ice_env \<Rightarrow> ('cand \<Rightarrow> string) \<Rightarrow> time \<Rightarrow> 'cand iceDialer \<Rightarrow> 'cand iceDialer" where
  "notice_tick env marshal now d =
     (if i_notices d = 0 then d
      else if offerReady d \<or> closed d then d\<lparr>i_notices := 0\<rparr>
      else snd (sendPacket_ice env marshal now RESTART_NOTIFY None (d\<lparr>i_notices := i_notices d - 1\<rparr>)))"

definition syn_tick_ice :: "ice_env \<Rightarrow> ('cand \<Rightarrow> string) \<Rightarrow> time \<Rightarrow> 'cand iceDialer \<Rightarrow> 'cand iceDialer" where
  "syn_tick_ice env marshal now d =
     (if i_syn d then snd (sendPacket_ice env marshal now HANDSHAKE_SYN None d) else d)"

definition Prepare_ice ::
  "ice_env \<Rightarrow> ('cand \<Rightarrow> string) \<Rightarrow> ('cand \<Rightarrow> bool) \<Rightarrow> time \<Rightarrow> 'cand iceDialer \<Rightarrow> outcome \<times> 'cand iceDialer" where
  "Prepare_ice env marshal takes now d =
     (if \<not> isInitiator (i_localId d) (i_remoteId d)
      then (Ok, snd (sendPacket_ice env marshal now RESTART_NOTIFY None
                      (d\<lparr>i_notices := restartNotifyAttempts - 1\<rparr>)))
      else if agent d \<noteq> None then (Ok, syn_tick_ice env marshal now (d\<lparr>i_syn := True\<rparr>))
      else if \<not> getAgent_ok env then (Err, d)
      else
        (let pend = pendingCandidates d;
             d1 = replay takes pend (d\<lparr>agent := Some [], pendingCandidates := []\<rparr>);
             (gok, d2) = gatherOnce env d1
         in if \<not> gok then (Err, d2) else (Ok, syn_tick_ice env marshal now (d2\<lparr>i_syn := True\<rparr>))))"

definition Close_ice :: "'cand iceDialer \<Rightarrow> 'cand iceDialer" where
  "Close_ice d = (if closed d then d else d\<lparr>closed := True, i_syn := False, agent := None\<rparr>)"

datatype dial_error = DialTimeout | ErrDialerClosed | DialFailed | ConnectFailed

text \<open>
  \<^verbatim>\<open>Dial\<close> after its wait: \<open>start_ok\<close> is the agent's \<^verbatim>\<open>StartDial\<close> or \<^verbatim>\<open>StartAccept\<close>, given the
  remote credentials, and \<open>connect\<close> the address it connects to within thirty seconds.
\<close>

definition Dial_ice ::
  "(bool \<Rightarrow> string \<Rightarrow> string \<Rightarrow> bool) \<Rightarrow> string option \<Rightarrow> 'cand iceDialer \<Rightarrow> dial_error + string" where
  "Dial_ice start_ok connect d =
     (if closed d then Inl ErrDialerClosed
      else if \<not> offerReady d then Inl DialTimeout
      else if agent d = None then Inl ErrDialerClosed
      else if \<not> start_ok (isInitiator (i_localId d) (i_remoteId d)) (rUfrag d) (rPwd d) then Inl DialFailed
      else (case connect of None \<Rightarrow> Inl ConnectFailed | Some addr \<Rightarrow> Inr addr))"

subsection \<open>Frames\<close>

definition same_agent :: "'cand iceDialer \<Rightarrow> 'cand iceDialer \<Rightarrow> bool" where
  "same_agent d d' \<longleftrightarrow> agent d' = agent d \<and> closed d' = closed d \<and> pendingCandidates d' = pendingCandidates d \<and>
     offerReady d' = offerReady d \<and> gathered d' = gathered d"

lemma same_agent_refl [simp]: "same_agent d d"
  by (simp add: same_agent_def)

lemma same_agent_trans: "same_agent a b \<Longrightarrow> same_agent b c \<Longrightarrow> same_agent a c"
  by (simp add: same_agent_def)

lemma same_agent_send [simp]: "same_agent d (snd (sendPacket_ice env m now t c d))"
  by (simp add: same_agent_def sendPacket_ice_def)

lemma same_agent_foldl:
  "same_agent d (foldl (\<lambda>d c. snd (sendPacket_ice env m now t (Some c) d)) d cs)"
  by (induction cs arbitrary: d) (auto intro: same_agent_trans [OF same_agent_send])

lemma same_agent_resend [simp]: "same_agent d (resendCandidates env m now d)"
  by (simp add: resendCandidates_def same_agent_foldl)

lemma same_agent_peer_info [simp]: "same_agent d (ice_peer_info j d)"
  by (simp add: same_agent_def ice_peer_info_def split: json.split)

lemma same_agent_credentials [simp]: "same_agent d (take_credentials ofr d)"
  using same_agent_peer_info [of "d\<lparr>rUfrag := Ufrag ofr, rPwd := Pwd ofr\<rparr>" "Current_of ofr"]
    same_agent_peer_info [of d "Current_of ofr"]
  by (simp add: same_agent_def take_credentials_def Let_def)

lemmas same_agentD [frame_simps, simp] =
  same_agent_send [unfolded same_agent_def, THEN conjunct1]
  same_agent_send [unfolded same_agent_def, THEN conjunct2, THEN conjunct1]
  same_agent_send [unfolded same_agent_def, THEN conjunct2, THEN conjunct2, THEN conjunct1]
  same_agent_send [unfolded same_agent_def, THEN conjunct2, THEN conjunct2, THEN conjunct2, THEN conjunct1]
  same_agent_send [unfolded same_agent_def, THEN conjunct2, THEN conjunct2, THEN conjunct2, THEN conjunct2]
  same_agent_peer_info [unfolded same_agent_def, THEN conjunct1]
  same_agent_peer_info [unfolded same_agent_def, THEN conjunct2, THEN conjunct1]
  same_agent_peer_info [unfolded same_agent_def, THEN conjunct2, THEN conjunct2, THEN conjunct1]
  same_agent_peer_info [unfolded same_agent_def, THEN conjunct2, THEN conjunct2, THEN conjunct2, THEN conjunct1]
  same_agent_peer_info [unfolded same_agent_def, THEN conjunct2, THEN conjunct2, THEN conjunct2, THEN conjunct2]
  same_agent_credentials [unfolded same_agent_def, THEN conjunct1]
  same_agent_credentials [unfolded same_agent_def, THEN conjunct2, THEN conjunct1]
  same_agent_credentials [unfolded same_agent_def, THEN conjunct2, THEN conjunct2, THEN conjunct1]
  same_agent_credentials [unfolded same_agent_def, THEN conjunct2, THEN conjunct2, THEN conjunct2, THEN conjunct1]
  same_agent_credentials [unfolded same_agent_def, THEN conjunct2, THEN conjunct2, THEN conjunct2, THEN conjunct2]

lemma agent_resend [frame_simps, simp]:
  "agent (resendCandidates env m now d) = agent d" "closed (resendCandidates env m now d) = closed d"
  "pendingCandidates (resendCandidates env m now d) = pendingCandidates d"
  "offerReady (resendCandidates env m now d) = offerReady d" "gathered (resendCandidates env m now d) = gathered d"
  using same_agent_resend [of d env m now] by (simp_all add: same_agent_def)

lemma gatherOnce_frame [frame_simps, simp]:
  "agent (snd (gatherOnce env d)) = agent d" "closed (snd (gatherOnce env d)) = closed d"
  "pendingCandidates (snd (gatherOnce env d)) = pendingCandidates d"
  "offerReady (snd (gatherOnce env d)) = offerReady d" "gathered (snd (gatherOnce env d))"
  by (simp_all add: gatherOnce_def)

lemma syn_tick_frame [frame_simps, simp]:
  "agent (syn_tick_ice env m now d) = agent d" "closed (syn_tick_ice env m now d) = closed d"
  "pendingCandidates (syn_tick_ice env m now d) = pendingCandidates d"
  "offerReady (syn_tick_ice env m now d) = offerReady d"
  by (simp_all add: syn_tick_ice_def)

subsection \<open>Runs of the dialer\<close>

text \<open>
  Beside the dialer, the candidates of the well-formed main-line OFFERs it received while open.
  A first SYN whose ACK or gathering fails drops what was buffered (see the last property); the
  run below has no such failure.
\<close>

definition offered :: "(string \<Rightarrow> 'cand option) \<Rightarrow> SignalPacket \<Rightarrow> 'cand list" where
  "offered U pkt =
     (if Dialer pkt = ICE_dialer \<and> (Type pkt = OFFER \<or> Type pkt = ANSWER) \<and> \<not> marked_offer pkt
      then (case GetOffer pkt of
              Some ofr \<Rightarrow> (case U (Candidate ofr) of Some cand \<Rightarrow> [cand] | None \<Rightarrow> [])
            | None \<Rightarrow> [])
      else [])"

definition accept_failed :: "outcome \<Rightarrow> 'cand iceDialer \<Rightarrow> 'cand iceDialer \<Rightarrow> bool" where
  "accept_failed res d d' \<longleftrightarrow> res = Err \<and> agent d = None \<and> agent d' \<noteq> None"

inductive ice_step ::
  "('cand \<Rightarrow> string) \<Rightarrow> (string \<Rightarrow> 'cand option) \<Rightarrow> 'cand iceDialer \<times> 'cand list \<Rightarrow> 'cand iceDialer \<times> 'cand list \<Rightarrow> bool"
  for m U where
  packet_in: "Handle_ice env m U (\<lambda>_. True) now d pkt = (res, d') \<Longrightarrow> \<not> accept_failed res d d' \<Longrightarrow>
    ice_step m U (d, got) (d', if closed d then got else got @ offered U pkt)"
| prepare_run: "Prepare_ice env m (\<lambda>_. True) now d = (res, d') \<Longrightarrow> ice_step m U (d, got) (d', got)"
| local_cand: "ice_step m U (d, got) (onCandidate env m now cand d, got)"
| tick_syn: "ice_step m U (d, got) (syn_tick_ice env m now d, got)"
| tick_notice: "ice_step m U (d, got) (notice_tick env m now d, got)"
| close_run: "ice_step m U (d, got) (Close_ice d, got)"

definition ice_inv :: "'cand iceDialer \<times> 'cand list \<Rightarrow> bool" where
  "ice_inv x \<longleftrightarrow> (case x of (d, got) \<Rightarrow>
     closed d \<or>
       (case agent d of
          None \<Rightarrow> pendingCandidates d = got
        | Some cs \<Rightarrow> cs = got \<and> pendingCandidates d = [] \<and> (got = [] \<or> offerReady d)))"

lemma ice_inv_same: "ice_inv (d, got) \<Longrightarrow> same_agent d d' \<Longrightarrow> ice_inv (d', got)"
  by (auto simp: ice_inv_def same_agent_def split: option.splits)

lemma ice_inv_syn:
  assumes "ice_inv (d, got)" "\<not> closed d" "handle_syn env m (\<lambda>_. True) now d pkt = (res, d')"
    and "\<not> accept_failed res d d'"
  shows "ice_inv (d', got)"
proof (cases "marked_handshake pkt \<or> agent d \<noteq> None")
  case True
  then have "same_agent d d'"
    using assms(2,3)
    by (auto simp: handle_syn_def Let_def same_agent_def split: if_splits)
  then show ?thesis using assms(1) ice_inv_same by blast
next
  case False
  then show ?thesis
    using assms
    by (auto simp: handle_syn_def handle_syn_new_def ice_inv_def accept_failed_def replay_def Let_def
        sendPacket_ice_def gatherOnce_def split: if_splits)
qed

lemma ice_inv_offer:
  assumes "ice_inv (d, got)" "\<not> closed d" "handle_offer_ice U (\<lambda>_. True) d pkt = (res, d')"
    and "Dialer pkt = ICE_dialer" "Type pkt = OFFER \<or> Type pkt = ANSWER"
  shows "ice_inv (d', got @ offered U pkt)"
  using assms
  by (auto simp: handle_offer_ice_def ice_inv_def offered_def marked_offer_def Let_def
      split: option.splits if_splits)

lemma ice_inv_packet:
  assumes "ice_inv (d, got)" "Handle_ice env m U (\<lambda>_. True) now d pkt = (res, d')" "\<not> accept_failed res d d'"
  shows "ice_inv (d', if closed d then got else got @ offered U pkt)"
proof (cases "closed d")
  case True
  then have "closed d'"
    using assms(2)
    by (auto simp: Handle_ice_def handle_syn_def handle_ack_def handle_offer_ice_def split: if_splits PacketType.splits)
  then show ?thesis by (simp add: ice_inv_def)
next
  case open_d: False
  consider (syn) "Type pkt = HANDSHAKE_SYN" "Dialer pkt = ICE_dialer" | (ofr) "Type pkt = OFFER \<or> Type pkt = ANSWER" "Dialer pkt = ICE_dialer"
    | (other) "Dialer pkt = ICE_dialer \<longrightarrow> Type pkt \<notin> {HANDSHAKE_SYN, OFFER, ANSWER}" by auto
  then show ?thesis
  proof cases
    case syn
    then have "handle_syn env m (\<lambda>_. True) now d pkt = (res, d')" using assms(2) by (simp add: Handle_ice_def)
    from ice_inv_syn [OF assms(1) open_d this assms(3)] syn open_d show ?thesis by (simp add: offered_def)
  next
    case ofr
    then have "handle_offer_ice U (\<lambda>_. True) d pkt = (res, d')" using assms(2) by (auto simp: Handle_ice_def)
    from ice_inv_offer [OF assms(1) open_d this ofr(2,1)] open_d show ?thesis by simp
  next
    case other
    then have "agent d' = agent d" "closed d' = closed d" "pendingCandidates d' = pendingCandidates d"
      "offerReady d' = offerReady d"
      using assms(2) open_d
      by (auto simp: Handle_ice_def handle_ack_def Let_def gatherOnce_def split: if_splits PacketType.splits)
    moreover have "offered U pkt = []" using other by (auto simp: offered_def)
    ultimately show ?thesis using assms(1) open_d by (auto simp: ice_inv_def split: option.splits)
  qed
qed

lemma ice_inv_prepare:
  assumes "ice_inv (d, got)" "Prepare_ice env m (\<lambda>_. True) now d = (res, d')"
  shows "ice_inv (d', got)"
  using assms
  by (auto simp: ice_inv_def Prepare_ice_def replay_def gatherOnce_def Let_def split: if_splits option.splits)

lemma ice_inv_step: "ice_step m U x y \<Longrightarrow> ice_inv x \<Longrightarrow> ice_inv y"
proof (induction rule: ice_step.induct)
  case packet_in
  then show ?case using ice_inv_packet by blast
next
  case prepare_run
  then show ?case using ice_inv_prepare by blast
qed (auto simp: ice_inv_def onCandidate_def notice_tick_def Close_ice_def split: option.splits)

lemma ice_inv_new: "ice_inv (NewIceDialer l r lp, [])"
  by (simp add: ice_inv_def NewIceDialer_def)

interpretation ice_run: inductive_invariant "\<lambda>x. \<exists>l r lp. x = (NewIceDialer l r lp, [])" "ice_step m U" ice_inv for m U
  by unfold_locales (blast intro: ice_inv_new, rule ice_inv_step)

subsection \<open>A failed accept\<close>

lemma handle_keeps_ungathered:
  assumes "agent d \<noteq> None" "\<not> gathered d" "\<not> closed d" and "Type pkt \<noteq> HANDSHAKE_ACK"
    and "Handle_ice env m U takes now d pkt = (res, d')"
  shows "agent d' \<noteq> None \<and> \<not> gathered d' \<and> \<not> closed d' \<and> gatheredCandidates d' = gatheredCandidates d"
proof -
  have r: "gatheredCandidates (resendCandidates env m now d0) = gatheredCandidates d0" for d0 :: "'a iceDialer"
  proof -
    have "gatheredCandidates (foldl (\<lambda>d c. snd (sendPacket_ice env m now OFFER (Some c) d)) d1 cs) = gatheredCandidates d1"
      for d1 :: "'a iceDialer" and cs
      by (induction cs arbitrary: d1) (simp_all add: sendPacket_ice_def)
    then show ?thesis by (simp add: resendCandidates_def)
  qed
  have p: "gatheredCandidates (ice_peer_info j d0) = gatheredCandidates d0" for j and d0 :: "'a iceDialer"
    by (simp add: ice_peer_info_def split: json.split)
  have c: "gatheredCandidates (take_credentials ofr d0) = gatheredCandidates d0" for ofr and d0 :: "'a iceDialer"
    by (simp add: take_credentials_def Let_def p)
  have s: "gatheredCandidates (snd (sendPacket_ice env m now t x d0)) = gatheredCandidates d0" for t x and d0 :: "'a iceDialer"
    by (simp add: sendPacket_ice_def)
  show ?thesis
    using assms
    by (auto simp: Handle_ice_def handle_syn_def handle_offer_ice_def Let_def r p c s
        split: if_splits PacketType.splits option.splits)
qed

lemma handles_keep_ungathered:
  assumes "agent d \<noteq> None" "\<not> gathered d" "\<not> closed d" and "\<forall>pkt \<in> set pkts. Type pkt \<noteq> HANDSHAKE_ACK"
  shows "\<not> gathered (foldl (\<lambda>d p. snd (Handle_ice env m U takes now d p)) d pkts) \<and>
    gatheredCandidates (foldl (\<lambda>d p. snd (Handle_ice env m U takes now d p)) d pkts) = gatheredCandidates d"
  using assms
proof (induction pkts arbitrary: d)
  case (Cons pkt pkts)
  let ?d' = "snd (Handle_ice env m U takes now d pkt)"
  have "agent ?d' \<noteq> None \<and> \<not> gathered ?d' \<and> \<not> closed ?d' \<and> gatheredCandidates ?d' = gatheredCandidates d"
    by (rule handle_keeps_ungathered [OF Cons.prems(1-3) _ surjective_pairing]) (use Cons.prems(4) in simp)
  then show ?case using Cons.IH [of ?d'] Cons.prems(4) by simp
qed simp

subsection \<open>Marked packets\<close>

definition marked :: "SignalPacket \<Rightarrow> bool" where
  "marked pkt \<longleftrightarrow> Type pkt \<in> {HANDSHAKE_SYN, HANDSHAKE_ACK} \<and> marked_handshake pkt \<or>
     Type pkt \<in> {OFFER, ANSWER} \<and> marked_offer pkt"

lemma Handle_ice_marked: "marked pkt \<Longrightarrow> Handle_ice env m U takes now d pkt = (Ok, d)"
  by (auto simp: marked_def Handle_ice_def handle_syn_def handle_ack_def handle_offer_ice_def marked_offer_def
      split: option.splits)

subsection \<open>Properties\<close>


definition ex_env :: ice_env where
  "ex_env = \<lparr>localKey = [], getAgent_ok = True, gather_ok = True, credentials = Some (''u'', ''p''), sender_ok = True\<rparr>"

definition ex_offer :: SignalPacket where
  "ex_offer = (packet OFFER ICE_dialer 4)\<lparr>GetOffer := Some \<lparr>Ufrag = ''u'', Pwd = ''p'', TieBreaker = 0,
     Candidate = ''c'', Vip = [], Current_of = Absent, PublicKey_of = [], AttemptID_of = []\<rparr>\<rparr>"

definition ex_ice :: "string iceDialer" where
  "ex_ice = snd (Handle_ice ex_env id Some (\<lambda>_. True) 0 (NewIceDialer 9 4 None) ex_offer)"

lemma ex_ice_simps:
  "agent ex_ice = None" "closed ex_ice = False" "pendingCandidates ex_ice = [''c'']" "i_localId ex_ice = 9"
  "i_remoteId ex_ice = 4" "gathered ex_ice = False"
  by (simp_all add: ex_ice_def ex_offer_def Handle_ice_def handle_offer_ice_def NewIceDialer_def take_credentials_def
      ice_peer_info_def)


text \<open>
  Signaling of a background upgrade never reaches the main dialers: on a marked packet the
  ICE dialer and, for a SYN, the relay dialer keep their state, so they neither answer nor restart.
\<close>

lemma upgrade_signal_ignored:
  assumes "marked pkt"
  shows "Handle_ice env m U takes now d pkt = (Ok, d) \<and>
    (Type pkt = HANDSHAKE_SYN \<longrightarrow> Handle_relay s r k now w pkt = (Ok, w))"
  using Handle_ice_marked [OF assms] assms by (auto simp: Handle_relay_def marked_def)

definition ex_marked :: "DialerType \<Rightarrow> SignalPacket" where
  "ex_marked dt = (packet HANDSHAKE_SYN dt 4)\<lparr>GetHandshake := Some ((handshake 0 None)\<lparr>IsUpgradeProbe := True\<rparr>)\<rparr>"

text \<open>
  An OFFER or ANSWER packet without its body crashes the agent: the relay dialer and an open
  ICE dialer both dereference the absent offer.
\<close>

lemma bodyless_offer_panics:
  assumes "Type pkt = OFFER \<or> Type pkt = ANSWER" and "GetOffer pkt = None"
  shows "(Dialer pkt = Relay_dialer \<longrightarrow> fst (Handle_relay s r k now w pkt) = Panic) \<and>
    (Dialer pkt = ICE_dialer \<and> \<not> closed d \<longrightarrow> fst (Handle_ice env m U takes now d pkt) = Panic)"
  using assms by (cases "Dialer pkt") (auto simp: Handle_relay_def Handle_ice_def handle_offer_ice_def)

text \<open>
  A responder whose first ACK could not be sent is stuck with an agent that never gathers:
  whatever SYN retransmissions and OFFERs follow, no gathering starts and no candidate of its own
  is ever offered; only a fresh dialer recovers.
\<close>

lemma failed_ack_never_gathers:
  assumes "agent d = None" "\<not> closed d" "\<not> gathered d" "Type syn = HANDSHAKE_SYN" "Dialer syn = ICE_dialer"
    "\<not> marked_handshake syn" "getAgent_ok env" "\<not> sender_ok env"
    and "\<forall>pkt \<in> set pkts. Type pkt \<noteq> HANDSHAKE_ACK"
    and "d' = foldl (\<lambda>d p. snd (Handle_ice env' m U takes now d p)) (snd (Handle_ice env m U takes now d syn)) pkts"
  shows "\<not> gathered d' \<and> gatheredCandidates d' = gatheredCandidates d"
proof -
  let ?d1 = "snd (Handle_ice env m U takes now d syn)"
  have "agent ?d1 \<noteq> None" "\<not> gathered ?d1" "\<not> closed ?d1"
    and g: "gatheredCandidates ?d1 = gatheredCandidates d"
    using assms(1-8)
    by (simp_all add: Handle_ice_def handle_syn_def handle_syn_new_def Let_def sendPacket_ice_def ice_peer_info_def
        split: json.split)
  from handles_keep_ungathered [OF this(1-3) assms(9)] show ?thesis unfolding assms(10) g by blast
qed

end
