(* ===== verification/ShadowUpgrade.thy ===== *)
theory ShadowUpgrade
  imports IceDialer
begin

text \<open>
  The background attempt of \<^verbatim>\<open>internal/server/transport/probe_shadow_upgrade.go\<close>: a second, slim
  ICE dialer that runs beside a working relay transport. The agent's behaviour is the parameter
  \<^typ>\<open>ice_env\<close> of the main dialer; the outcome callback is kept apart in \<open>s_reported\<close>, and its
  effect on the probe is in the theory of the probe.
\<close>

definition isUpgradeSignal :: "SignalPacket \<Rightarrow> bool" where
  "isUpgradeSignal p =
     (if (case GetHandshake p of Some hs \<Rightarrow> IsUpgradeProbe hs | None \<Rightarrow> False) then True
      else if (case GetOffer p of Some ofr \<Rightarrow> AttemptID_of ofr \<noteq> [] | None \<Rightarrow> False) then True
      else False)"

record 'cand shadowUpgrade =
  s_localId :: "64 word"
  s_remoteId :: "64 word"
  attemptID :: string
  s_epoch :: "nat option"
  s_agent :: "'cand list option"
  s_rUfrag :: string
  s_rPwd :: string
  s_pending :: "'cand list"
  s_gathered :: "'cand list"
  s_closed :: bool
  s_offerReady :: bool
  s_gatherOnce :: bool
  s_syn :: bool
  s_reported :: bool
  s_sent :: "SignalPacket list"

text \<open>
  \<open>s_epoch\<close> is what the outcome callback captured: the epoch of the attempt on the initiator,
  \<^term>\<open>None\<close> on the responder, whose callback reads the probe's epoch when it runs.
\<close>

definition newShadowUpgrade :: "64 word \<Rightarrow> 64 word \<Rightarrow> string \<Rightarrow> nat option \<Rightarrow> 'cand shadowUpgrade" where
  "newShadowUpgrade l r attempt e = \<lparr>s_localId = l, s_remoteId = r, attemptID = attempt, s_epoch = e,
     s_agent = None, s_rUfrag = [], s_rPwd = [], s_pending = [], s_gathered = [], s_closed = False,
     s_offerReady = False, s_gatherOnce = False, s_syn = False, s_reported = False, s_sent = []\<rparr>"

subsection \<open>Sending\<close>

definition shadow_handshake :: "PacketType \<Rightarrow> time \<Rightarrow> 'cand shadowUpgrade \<Rightarrow> SignalPacket" where
  "shadow_handshake t now s =
     (packet t ICE_dialer (s_localId s))\<lparr>GetHandshake := Some \<lparr>Timestamp_hs = now div Second, PeerInfo = Absent,
        IsUpgradeProbe = True, AttemptID_hs = attemptID s\<rparr>\<rparr>"

definition sendSyn :: "time \<Rightarrow> 'cand shadowUpgrade \<Rightarrow> 'cand shadowUpgrade" where
  "sendSyn now s = s\<lparr>s_sent := s_sent s @ [shadow_handshake HANDSHAKE_SYN now s]\<rparr>"

definition sendAck :: "time \<Rightarrow> 'cand shadowUpgrade \<Rightarrow> 'cand shadowUpgrade" where
  "sendAck now s = s\<lparr>s_sent := s_sent s @ [shadow_handshake HANDSHAKE_ACK now s]\<rparr>"

definition sendOffer :: "ice_env \<Rightarrow> ('cand \<Rightarrow> string) \<Rightarrow> 'cand shadowUpgrade \<Rightarrow> 'cand \<Rightarrow> 'cand shadowUpgrade" where
  "sendOffer env marshal s cand =
     (case (s_agent s, credentials env) of
        (Some _, Some (ufrag, pwd)) \<Rightarrow>
          s\<lparr>s_sent := s_sent s @ [(packet OFFER ICE_dialer (s_localId s))\<lparr>GetOffer := Some \<lparr>Ufrag = ufrag, Pwd = pwd,
               TieBreaker = 0, Candidate = marshal cand, Vip = [], Current_of = Absent, PublicKey_of = localKey env,
               AttemptID_of = attemptID s\<rparr>\<rparr>]\<rparr>
      | _ \<Rightarrow> s)"

definition resendCandidates_shadow :: "ice_env \<Rightarrow> ('cand \<Rightarrow> string) \<Rightarrow> 'cand shadowUpgrade \<Rightarrow> 'cand shadowUpgrade" where
  "resendCandidates_shadow env marshal s = foldl (sendOffer env marshal) s (s_gathered s)"

definition onCandidate_shadow ::
  "ice_env \<Rightarrow> ('cand \<Rightarrow> string) \<Rightarrow> 'cand option \<Rightarrow> 'cand shadowUpgrade \<Rightarrow> 'cand shadowUpgrade" where
  "onCandidate_shadow env marshal cand s =
     (case cand of None \<Rightarrow> s | Some c \<Rightarrow> sendOffer env marshal (s\<lparr>s_gathered := s_gathered s @ [c]\<rparr>) c)"

subsection \<open>The attempt\<close>

definition initAgent :: "ice_env \<Rightarrow> ('cand \<Rightarrow> bool) \<Rightarrow> 'cand shadowUpgrade \<Rightarrow> bool \<times> 'cand shadowUpgrade" where
  "initAgent env takes s =
     (if \<not> getAgent_ok env then (False, s)
      else if s_agent s \<noteq> None then (True, s)
      else (True, s\<lparr>s_agent := Some (filter takes (s_pending s)), s_pending := [],
                    s_offerReady := (s_offerReady s \<or> s_pending s \<noteq> [])\<rparr>))"

text \<open>
  \<open>gatherOnce\<close>: the one run fails when there is no agent yet; every later call returns nil.
\<close>

definition gather :: "ice_env \<Rightarrow> 'cand shadowUpgrade \<Rightarrow> bool \<times> 'cand shadowUpgrade" where
  "gather env s =
     (if s_gatherOnce s then (True, s)
      else (s_agent s \<noteq> None \<and> gather_ok env, s\<lparr>s_gatherOnce := True\<rparr>))"

definition addRemoteCandidate ::
  "(string \<Rightarrow> 'cand option) \<Rightarrow> ('cand \<Rightarrow> bool) \<Rightarrow> 'cand shadowUpgrade \<Rightarrow> Offer \<Rightarrow> 'cand shadowUpgrade" where
  "addRemoteCandidate UnmarshalCandidate takes s ofr =
     (case UnmarshalCandidate (Candidate ofr) of
        None \<Rightarrow> s
      | Some cand \<Rightarrow>
          (let s1 = (if Ufrag ofr \<noteq> [] \<and> s_rUfrag s = [] then s\<lparr>s_rUfrag := Ufrag ofr, s_rPwd := Pwd ofr\<rparr> else s)
           in case s_agent s1 of
                None \<Rightarrow> s1\<lparr>s_pending := s_pending s1 @ [cand]\<rparr>
              | Some cs \<Rightarrow> if takes cand then s1\<lparr>s_agent := Some (cs @ [cand]), s_offerReady := True\<rparr> else s1))"

definition Handle_shadow ::
  "ice_env \<Rightarrow> ('cand \<Rightarrow> string) \<Rightarrow> (string \<Rightarrow> 'cand option) \<Rightarrow> ('cand \<Rightarrow> bool) \<Rightarrow> time \<Rightarrow>
   'cand shadowUpgrade \<Rightarrow> SignalPacket \<Rightarrow> outcome \<times> 'cand shadowUpgrade" where
  "Handle_shadow env marshal UnmarshalCandidate takes now s pkt =
     (if s_closed s then (Ok, s)
      else
        (case Type pkt of
           HANDSHAKE_SYN \<Rightarrow>
             (let (ok, s1) = (if s_agent s = None then initAgent env takes s else (True, s))
              in if \<not> ok then (Err, s1)
                 else (Ok, resendCandidates_shadow env marshal (snd (gather env (sendAck now s1)))))
         | HANDSHAKE_ACK \<Rightarrow>
             (let (ok, s1) = gather env (s\<lparr>s_syn := False\<rparr>)
              in if \<not> ok then (Err, s1) else (Ok, resendCandidates_shadow env marshal s1))
         | OFFER \<Rightarrow>
             (case GetOffer pkt of
                None \<Rightarrow> (Ok, s)
              | Some ofr \<Rightarrow>
                  if AttemptID_of ofr \<noteq> attemptID s then (Ok, s)
                  else (Ok, addRemoteCandidate UnmarshalCandidate takes s ofr))
         | _ \<Rightarrow> (Ok, s)))"

text \<open>
  \<^verbatim>\<open>start\<close>: the initiator creates its agent, gathers and sends its first SYN; the flag tells
  whether the attempt goes on (otherwise it is reported as failed and closed).
\<close>

definition start :: "ice_env \<Rightarrow> ('cand \<Rightarrow> bool) \<Rightarrow> time \<Rightarrow> 'cand shadowUpgrade \<Rightarrow> bool \<times> 'cand shadowUpgrade" where
  "start env takes now s =
     (if isInitiator (s_localId s) (s_remoteId s)
      then (let (iok, s1) = initAgent env takes s
            in if \<not> iok then (False, s1)
               else (let (gok, s2) = gather env s1
                     in if \<not> gok then (False, s2) else (True, sendSyn now (s2\<lparr>s_syn := True\<rparr>))))
      else (True, s))"

definition synLoop_tick :: "time \<Rightarrow> 'cand shadowUpgrade \<Rightarrow> 'cand shadowUpgrade" where
  "synLoop_tick now s = (if s_syn s \<and> \<not> s_closed s then sendSyn now s else s)"

datatype shadow_error = AttemptTimeout | errShadowClosed | ShadowDialFailed | ShadowConnectFailed

definition dial_shadow ::
  "(bool \<Rightarrow> string \<Rightarrow> string \<Rightarrow> bool) \<Rightarrow> string option \<Rightarrow> 'cand shadowUpgrade \<Rightarrow> shadow_error + string" where
  "dial_shadow start_ok connect s =
     (if s_closed s then Inl errShadowClosed
      else if \<not> s_offerReady s then Inl AttemptTimeout
      else if s_agent s = None then Inl errShadowClosed
      else if \<not> start_ok (isInitiator (s_localId s) (s_remoteId s)) (s_rUfrag s) (s_rPwd s) then Inl ShadowDialFailed
      else (case connect of None \<Rightarrow> Inl ShadowConnectFailed | Some addr \<Rightarrow> Inr addr))"

text \<open>\<^verbatim>\<open>Close\<close> without the report that follows it.\<close>

definition close_once :: "'cand shadowUpgrade \<Rightarrow> 'cand shadowUpgrade" where
  "close_once s = (if s_closed s then s else s\<lparr>s_closed := True, s_syn := False\<rparr>)"

subsection \<open>Every packet of an attempt is marked\<close>

inductive shadow_step ::
  "('cand \<Rightarrow> string) \<Rightarrow> (string \<Rightarrow> 'cand option) \<Rightarrow> 'cand shadowUpgrade \<Rightarrow> 'cand shadowUpgrade \<Rightarrow> bool" for m U where
  sh_packet: "shadow_step m U s (snd (Handle_shadow env m U takes now s pkt))"
| sh_start: "shadow_step m U s (snd (start env takes now s))"
| sh_cand: "shadow_step m U s (onCandidate_shadow env m cand s)"
| sh_tick: "shadow_step m U s (synLoop_tick now s)"
| sh_close: "shadow_step m U s (close_once s)"

definition marked_inv :: "'cand shadowUpgrade \<Rightarrow> bool" where
  "marked_inv s \<longleftrightarrow> attemptID s \<noteq> [] \<and> list_all marked (s_sent s)"

lemma marked_upgrade: "marked p \<Longrightarrow> isUpgradeSignal p"
  by (auto simp: marked_def marked_handshake_def marked_offer_def isUpgradeSignal_def split: option.splits)

lemma marked_shadow_handshake: "t \<in> {HANDSHAKE_SYN, HANDSHAKE_ACK} \<Longrightarrow> marked (shadow_handshake t now s)"
  by (auto simp: marked_def marked_handshake_def shadow_handshake_def)

lemma marked_sendOffer: "marked_inv s \<Longrightarrow> marked_inv (sendOffer env m s c)"
  by (auto simp: marked_inv_def sendOffer_def marked_def marked_offer_def split: option.splits prod.splits)

lemma marked_resend: "marked_inv s \<Longrightarrow> marked_inv (resendCandidates_shadow env m s)"
proof -
  have "marked_inv s \<Longrightarrow> marked_inv (foldl (sendOffer env m) s cs)" for s cs
    by (induction cs arbitrary: s) (simp_all add: marked_sendOffer)
  then show "marked_inv s \<Longrightarrow> marked_inv (resendCandidates_shadow env m s)"
    by (simp add: resendCandidates_shadow_def)
qed

lemma marked_same: "marked_inv s \<Longrightarrow> attemptID s' = attemptID s \<Longrightarrow> s_sent s' = s_sent s \<Longrightarrow> marked_inv s'"
  by (simp add: marked_inv_def)

lemma marked_initAgent: "marked_inv s \<Longrightarrow> marked_inv (snd (initAgent env takes s))"
  by (erule marked_same) (simp_all add: initAgent_def)

lemma marked_gather: "marked_inv s \<Longrightarrow> marked_inv (snd (gather env s))"
  by (erule marked_same) (simp_all add: gather_def)

lemma marked_sendAck: "marked_inv s \<Longrightarrow> marked_inv (sendAck now s)"
  by (simp add: marked_inv_def sendAck_def marked_shadow_handshake)

lemma marked_sendSyn: "marked_inv s \<Longrightarrow> marked_inv (sendSyn now s)"
  by (simp add: marked_inv_def sendSyn_def marked_shadow_handshake)

lemma marked_addRemote: "marked_inv s \<Longrightarrow> marked_inv (addRemoteCandidate U takes s ofr)"
  by (erule marked_same) (simp_all add: addRemoteCandidate_def Let_def split: option.splits)

lemma marked_Handle: "marked_inv s \<Longrightarrow> marked_inv (snd (Handle_shadow env m U takes now s pkt))"
proof -
  assume s: "marked_inv s"
  then have syn: "marked_inv (s\<lparr>s_syn := False\<rparr>)" by (simp add: marked_inv_def)
  show ?thesis
    using s marked_initAgent [OF s, of env takes] marked_gather [OF syn, of env]
    by (auto simp: Handle_shadow_def Let_def split: PacketType.splits option.splits prod.splits
        intro!: marked_resend marked_gather marked_sendAck marked_addRemote)
qed

lemma marked_step: "shadow_step m U s s' \<Longrightarrow> marked_inv s \<Longrightarrow> marked_inv s'"
proof (induction rule: shadow_step.induct)
  case (sh_packet s env takes now pkt)
  then show ?case by (rule marked_Handle)
next
  case (sh_start s env takes now)
  have "marked_inv (snd (initAgent env takes s))" by (rule marked_initAgent) fact
  then have g: "marked_inv (snd (gather env (snd (initAgent env takes s))))" by (rule marked_gather)
  then have "marked_inv ((snd (gather env (snd (initAgent env takes s))))\<lparr>s_syn := True\<rparr>)" by (simp add: marked_inv_def)
  then show ?case
    using sh_start g marked_initAgent [OF sh_start, of env takes]
    by (auto simp: start_def Let_def split: prod.splits intro!: marked_sendSyn)
next
  case (sh_cand s env cand)
  have "marked_inv (s\<lparr>s_gathered := cs\<rparr>)" for cs using sh_cand by (simp add: marked_inv_def)
  then show ?case using sh_cand by (cases cand) (simp_all add: onCandidate_shadow_def marked_sendOffer)
next
  case (sh_tick s now)
  then show ?case by (simp add: synLoop_tick_def marked_sendSyn)
next
  case (sh_close s)
  then show ?case by (simp add: close_once_def marked_inv_def)
qed

lemma marked_new: "a \<noteq> [] \<Longrightarrow> marked_inv (newShadowUpgrade l r a e)"
  by (simp add: marked_inv_def newShadowUpgrade_def)

interpretation shadow_run: inductive_invariant
  "\<lambda>s. \<exists>l r a e. a \<noteq> [] \<and> s = newShadowUpgrade l r a e" "shadow_step m U" marked_inv for m U
  by unfold_locales (blast intro: marked_new, rule marked_step)

subsection \<open>Properties\<close>

text \<open>
  A background attempt cannot disturb the remote side's live connection: every packet it
  ever sends, whatever it receives, is routed away from the main dialers, and a main ICE dialer
  that nevertheless got one would keep its state.
\<close>

lemma shadow_packets_harmless:
  assumes "a \<noteq> []" and "(shadow_step m U)\<^sup>*\<^sup>* (newShadowUpgrade l r a e) s" and "pkt \<in> set (s_sent s)"
  shows "isUpgradeSignal pkt \<and> Handle_ice env m' U' takes now d pkt = (Ok, d)"
proof -
  have "marked_inv s"
    by (rule shadow_run.reachable_inv [OF _ assms(2)]) (use assms(1) in blast)
  then have "marked pkt" using assms(3) by (auto simp: marked_inv_def list_all_iff)
  then show ?thesis by (simp add: marked_upgrade Handle_ice_marked)
qed

text \<open>
  Acknowledgements are not correlated with the attempt: an ACK that carries another attempt's
  identifier stops the SYN retries of the attempt in flight.
\<close>

lemma foreign_ack_stops_syn:
  assumes "Type pkt = HANDSHAKE_ACK" and "GetHandshake pkt = Some hs" and "IsUpgradeProbe hs"
    and "AttemptID_hs hs \<noteq> attemptID s" and "\<not> s_closed s"
  shows "isUpgradeSignal pkt \<and> (let s' = snd (Handle_shadow env m U takes now s pkt)
    in \<not> s_syn s' \<and> synLoop_tick now' s' = s')"
proof -
  have "s_syn (foldl (sendOffer env m) s0 cs) = s_syn s0" for s0 :: "'a shadowUpgrade" and cs
  proof (induction cs arbitrary: s0)
    case (Cons c cs)
    have "s_syn (sendOffer env m s0 c) = s_syn s0" by (auto simp: sendOffer_def split: option.splits)
    then show ?case using Cons [of "sendOffer env m s0 c"] by simp
  qed simp
  then show ?thesis
    using assms
    by (simp add: isUpgradeSignal_def Handle_shadow_def gather_def resendCandidates_shadow_def synLoop_tick_def Let_def)
qed

end
