(* ===== verification/Liveness.thy ===== *)
theory Liveness
  imports PeerFSM
begin

text \<open>
  How an established peer is judged: the handshake and received-byte tracker of
  \<^verbatim>\<open>internal/server/transport/liveness.go\<close>, the ticker of \<^verbatim>\<open>probe.go\<close> that acts on it, the
  direct-path echo of \<^verbatim>\<open>probe_pathping.go\<close>, the contamination check of \<^verbatim>\<open>probe_endpoint.go\<close>
  and the retry schedule of \<^verbatim>\<open>probe_upgrade.go\<close>. A ticker or timer firing is one step; what
  the WireGuard device and the echo report are arguments.
\<close>

subsection \<open>Received-byte tracker\<close>

record PeerStats =
  LastHandshake :: "time option"
  RxBytes :: "64 word"

datatype livenessVerdict = livenessAlive | livenessHandshakeStale | livenessRxStalled

record livenessTracker =
  seen :: bool
  lastRx :: "64 word"
  lastRxChange :: time
  lastGrowth :: "time option"
  streak :: int

definition livenessThreshold :: duration where
  "livenessThreshold = 180 * Second"

definition rxStallThreshold :: duration where
  "rxStallThreshold = 120 * Second"

definition rxCadenceMax :: duration where
  "rxCadenceMax = 40 * Second"

definition rxArmAfter :: int where
  "rxArmAfter = 3"

definition newLivenessTracker :: "time \<Rightarrow> livenessTracker" where
  "newLivenessTracker now = \<lparr>seen = False, lastRx = 0, lastRxChange = now, lastGrowth = None, streak = 0\<rparr>"

definition handshake_stale :: "time \<Rightarrow> PeerStats \<Rightarrow> bool" where
  "handshake_stale now s =
     (case LastHandshake s of None \<Rightarrow> True | Some h \<Rightarrow> now - h > livenessThreshold)"

definition track :: "livenessTracker \<Rightarrow> time \<Rightarrow> PeerStats \<Rightarrow> livenessTracker" where
  "track t now s =
     (if \<not> seen t then t\<lparr>seen := True, lastRx := RxBytes s\<rparr>
      else if RxBytes s < lastRx t then t\<lparr>lastRx := RxBytes s, lastRxChange := now, streak := 0\<rparr>
      else if RxBytes s > lastRx t then
        t\<lparr>streak := (case lastGrowth t of
                        Some g \<Rightarrow> if now - g \<le> rxCadenceMax then streak t + 1 else 1
                      | None \<Rightarrow> 1),
          lastRx := RxBytes s, lastRxChange := now, lastGrowth := Some now\<rparr>
      else t)"

definition observe :: "livenessTracker \<Rightarrow> time \<Rightarrow> PeerStats \<Rightarrow> livenessVerdict \<times> livenessTracker" where
  "observe t now s =
     (if handshake_stale now s then (livenessHandshakeStale, t)
      else
        (let t' = track t now s
         in (if streak t' \<ge> rxArmAfter \<and> now - lastRxChange t' > rxStallThreshold
             then livenessRxStalled else livenessAlive, t')))"

text \<open>
  A sequence of observations: the verdicts, and the instants at which received bytes were
  seen to grow, latest first.
\<close>

fun verdicts :: "livenessTracker \<Rightarrow> (time \<times> PeerStats) list \<Rightarrow> livenessVerdict list" where
  "verdicts t [] = []"
| "verdicts t ((now, s) # os) = (case observe t now s of (v, t') \<Rightarrow> v # verdicts t' os)"

definition grew :: "livenessTracker \<Rightarrow> time \<Rightarrow> PeerStats \<Rightarrow> bool" where
  "grew t now s \<longleftrightarrow> \<not> handshake_stale now s \<and> seen t \<and> RxBytes s > lastRx t"

fun growths :: "livenessTracker \<Rightarrow> time list \<Rightarrow> (time \<times> PeerStats) list \<Rightarrow> time list" where
  "growths t gs [] = gs"
| "growths t gs ((now, s) # os) =
     growths (snd (observe t now s)) (if grew t now s then now # gs else gs) os"

subsection \<open>Liveness ticker\<close>

datatype tick_outcome = TickContinue | TickStop | TickRestart

text \<open>One tick of \<^verbatim>\<open>runLiveness\<close>; \<open>stats\<close> is \<^term>\<open>None\<close> when the device query fails.\<close>

definition runLiveness_tick ::
  "PeerState \<Rightarrow> time \<Rightarrow> PeerStats option \<Rightarrow> int \<times> livenessTracker \<Rightarrow> tick_outcome \<times> int \<times> livenessTracker" where
  "runLiveness_tick state now stats x =
     (case x of (consecutiveErrs, tracker) \<Rightarrow>
        if state \<noteq> StateICEReady \<and> state \<noteq> StateRelayReady then (TickStop, x)
        else
          (case stats of
             None \<Rightarrow> (if consecutiveErrs + 1 \<ge> 4 then TickStop else TickContinue, consecutiveErrs + 1, tracker)
           | Some s \<Rightarrow>
               (case observe tracker now s of
                  (livenessAlive, t') \<Rightarrow> (TickContinue, 0, t')
                | (_, t') \<Rightarrow> (TickRestart, 0, t'))))"

subsection \<open>Direct-path echo\<close>

definition pathPingMisses :: int where
  "pathPingMisses = 3"

definition pathPingGiveUp :: int where
  "pathPingGiveUp = 6"

record path_ping =
  armed :: bool
  unanswered :: int
  pings :: int
  rttNano :: int

definition SetRTT :: "path_ping \<Rightarrow> duration \<Rightarrow> path_ping" where
  "SetRTT p d = p\<lparr>rttNano := (if d \<le> 0 then 0 else d)\<rparr>"

text \<open>One tick while the epoch and the state still match; \<open>reply\<close> is the round trip, \<^term>\<open>None\<close> no answer.\<close>

definition path_ping_tick :: "bool \<Rightarrow> duration option \<Rightarrow> path_ping \<Rightarrow> tick_outcome \<times> path_ping" where
  "path_ping_tick initiator reply p0 =
     (let p = p0\<lparr>pings := pings p0 + 1\<rparr>
      in case reply of
           Some rtt \<Rightarrow> (TickContinue, SetRTT (p\<lparr>armed := True, unanswered := 0\<rparr>) rtt)
         | None \<Rightarrow>
             (let p' = p\<lparr>unanswered := unanswered p + 1\<rparr>
              in if \<not> armed p' \<and> pings p' \<ge> pathPingGiveUp then (TickStop, p')
                 else if armed p' \<and> unanswered p' \<ge> pathPingMisses \<and> \<not> initiator then (TickContinue, SetRTT p' 0)
                 else if armed p' \<and> unanswered p' \<ge> pathPingMisses then (TickRestart, p')
                 else (TickContinue, p')))"

text \<open>The loop over the replies, until it stops or restarts the probe; how many ticks it used.\<close>

fun path_ping_run :: "bool \<Rightarrow> path_ping \<Rightarrow> duration option list \<Rightarrow> tick_outcome \<times> nat" where
  "path_ping_run initiator p [] = (TickContinue, 0)"
| "path_ping_run initiator p (r # rs) =
     (case path_ping_tick initiator r p of
        (TickContinue, p') \<Rightarrow> (case path_ping_run initiator p' rs of (o', n) \<Rightarrow> (o', Suc n))
      | (o', _) \<Rightarrow> (o', 1))"

definition path_ping_start :: path_ping where
  "path_ping_start = \<lparr>armed = False, unanswered = 0, pings = 0, rttNano = 0\<rparr>"

subsection \<open>Upgrade schedule\<close>

definition upgradeBaseInterval :: duration where
  "upgradeBaseInterval = 2 * Minute"

definition upgradeMaxInterval :: duration where
  "upgradeMaxInterval = 30 * Minute"

definition upgradeSignalRetry :: duration where
  "upgradeSignalRetry = 15 * Second"

fun upgrade_double :: "nat \<Rightarrow> duration \<Rightarrow> duration" where
  "upgrade_double 0 d = d"
| "upgrade_double (Suc n) d = (if d < upgradeMaxInterval then upgrade_double n (d * 2) else d)"

definition upgradeDelay :: "nat \<Rightarrow> duration" where
  "upgradeDelay attempts = min (upgrade_double attempts upgradeBaseInterval) upgradeMaxInterval"

subsection \<open>Lemmas\<close>

lemma growths_append: "\<exists>hs. growths t gs os = hs @ gs"
proof (induction t gs os rule: growths.induct)
  case (2 t gs now s os)
  then obtain hs where "growths t gs ((now, s) # os) = hs @ (if grew t now s then now # gs else gs)"
    by auto
  then have "growths t gs ((now, s) # os) = (hs @ (if grew t now s then [now] else [])) @ gs" by simp
  then show ?case by blast
qed simp

text \<open>A tracker whose streak is \<open>k\<close> has seen its last \<open>k\<close> growths in rhythm.\<close>

definition rhythm :: "time list \<Rightarrow> nat \<Rightarrow> bool" where
  "rhythm gs k \<longleftrightarrow> k \<le> length gs \<and> (\<forall>i. Suc i < k \<longrightarrow> gs ! i - gs ! Suc i \<le> rxCadenceMax)"

definition tracks :: "livenessTracker \<Rightarrow> time list \<Rightarrow> bool" where
  "tracks t gs \<longleftrightarrow> streak t \<ge> 0 \<and> rhythm gs (nat (streak t)) \<and>
     lastGrowth t = (case gs of [] \<Rightarrow> None | g # _ \<Rightarrow> Some g)"

lemma rhythm_Cons: "rhythm (g # gs) k \<Longrightarrow> n - g \<le> rxCadenceMax \<Longrightarrow> rhythm (n # g # gs) (Suc k)"
  by (auto simp: rhythm_def nth_Cons split: nat.split)

lemma rhythm_3:
  assumes "rhythm gs k" "3 \<le> k"
  shows "\<exists>c b a post. gs = c # b # a # post \<and> c - b \<le> rxCadenceMax \<and> b - a \<le> rxCadenceMax"
proof -
  have "3 \<le> length gs" using assms by (simp add: rhythm_def)
  then obtain c b a post where gs: "gs = c # b # a # post"
    by (cases gs; cases "tl gs"; cases "tl (tl gs)") auto
  have "gs ! i - gs ! Suc i \<le> rxCadenceMax" if "Suc i < 3" for i
    using assms that unfolding rhythm_def by auto
  from this [of 0] this [of 1] show ?thesis using gs by simp
qed

lemma rhythm_1: "rhythm (n # gs) 1"
  by (simp add: rhythm_def)

lemma tracks_observe:
  assumes "tracks t gs"
  shows "tracks (snd (observe t now s)) (if grew t now s then now # gs else gs)"
proof (cases "grew t now s")
  case True
  then have t': "snd (observe t now s) = track t now s" by (simp add: observe_def grew_def Let_def)
  have "\<not> RxBytes s < lastRx t" using True by (auto simp: grew_def)
  then have tr: "track t now s = t\<lparr>streak := (case lastGrowth t of
                        Some g \<Rightarrow> if now - g \<le> rxCadenceMax then streak t + 1 else 1 | None \<Rightarrow> 1),
          lastRx := RxBytes s, lastRxChange := now, lastGrowth := Some now\<rparr>"
    using True by (simp add: track_def grew_def)
  show ?thesis
  proof (cases gs)
    case Nil
    then show ?thesis using True assms t' tr rhythm_1 [of now "[]"] by (simp add: tracks_def)
  next
    case (Cons g gs')
    have "rhythm (now # g # gs') (Suc (nat (streak t)))" if "now - g \<le> rxCadenceMax"
      using rhythm_Cons [OF _ that] assms Cons by (simp add: tracks_def)
    then show ?thesis
      using True assms Cons t' tr rhythm_1 [of now "g # gs'"] by (auto simp: tracks_def nat_add_distrib)
  qed
next
  case False
  then show ?thesis
    using assms by (auto simp: tracks_def observe_def grew_def track_def rhythm_def Let_def)
qed

lemma verdicts_stalled:
  assumes "tracks t gs" "livenessRxStalled \<in> set (verdicts t os)"
  shows "\<exists>a b c. (\<exists>pre post. growths t gs os = pre @ c # b # a # post) \<and>
    c - b \<le> rxCadenceMax \<and> b - a \<le> rxCadenceMax"
  using assms
proof (induction t gs os rule: growths.induct)
  case (2 t gs now s os)
  let ?t = "snd (observe t now s)" and ?gs = "if grew t now s then now # gs else gs"
  note tr = tracks_observe [OF 2(2), of now s]
  show ?case
  proof (cases "fst (observe t now s) = livenessRxStalled")
    case True
    then have "streak ?t \<ge> 3"
      by (auto simp: observe_def Let_def rxArmAfter_def split: if_splits)
    then obtain c b a post where gs: "?gs = c # b # a # post" "c - b \<le> rxCadenceMax" "b - a \<le> rxCadenceMax"
      using rhythm_3 [of ?gs "nat (streak ?t)"] tr unfolding tracks_def by (metis nat_le_iff nat_numeral nat_mono)
    moreover obtain hs where "growths ?t ?gs os = hs @ ?gs" using growths_append by blast
    ultimately show ?thesis by (metis growths.simps(2))
  next
    case False
    then have "livenessRxStalled \<in> set (verdicts ?t os)" using 2(3) by (cases "observe t now s") auto
    from 2(1) [OF tr this] show ?thesis by simp
  qed
qed simp

text \<open>Consecutive unanswered echoes at the end of a sequence of replies.\<close>

definition misses :: "int \<Rightarrow> duration option list \<Rightarrow> int" where
  "misses u rs = foldl (\<lambda>u r. if r = None then u + 1 else 0) u rs"

lemma misses_suffix: "int k \<le> misses 0 rs \<Longrightarrow> \<exists>rs'. rs = rs' @ replicate k None"
proof (induction rs arbitrary: k rule: rev_induct)
  case Nil
  then show ?case by (simp add: misses_def)
next
  case (snoc r rs)
  show ?case
  proof (cases k)
    case (Suc k')
    then have "r = None" "int k' \<le> misses 0 rs" using snoc.prems by (auto simp: misses_def split: if_splits)
    then obtain rs' where "rs = rs' @ replicate k' None" using snoc.IH by blast
    then have "rs @ [r] = rs' @ replicate k None" using Suc \<open>r = None\<close> by (simp add: replicate_append_same)
    then show ?thesis by blast
  qed simp
qed

lemma path_ping_restart:
  "path_ping_run initiator p rs = (TickRestart, n) \<Longrightarrow>
   initiator \<and> n \<le> length rs \<and> 3 \<le> misses (unanswered p) (take n rs) \<and>
   (armed p \<or> (\<exists>r \<in> set (take n rs). r \<noteq> None))"
proof (induction initiator p rs arbitrary: n rule: path_ping_run.induct)
  case (2 initiator p r rs)
  obtain o1 p1 where t: "path_ping_tick initiator r p = (o1, p1)" by force
  show ?case
  proof (cases o1)
    case TickContinue
    obtain o2 m where m: "path_ping_run initiator p1 rs = (o2, m)" by force
    then have n: "o2 = TickRestart" "n = Suc m" using 2(2) t TickContinue by auto
    note IH = 2(1) [OF t [symmetric] TickContinue m [unfolded n(1)]]
    have "unanswered p1 = (if r = None then unanswered p + 1 else 0)" "armed p1 \<longrightarrow> armed p \<or> r \<noteq> None"
      using t TickContinue by (auto simp: path_ping_tick_def SetRTT_def Let_def split: option.splits if_splits)
    then show ?thesis using IH n by (auto simp: misses_def)
  next
    case TickStop
    then show ?thesis using 2(2) t by simp
  next
    case TickRestart
    then show ?thesis
      using 2(2) t by (auto simp: path_ping_tick_def misses_def pathPingMisses_def Let_def split: option.splits if_splits)
  qed
qed simp

lemma upgrade_double_eq:
  "0 < d \<Longrightarrow> min (upgrade_double n d) upgradeMaxInterval = min (d * 2 ^ n) upgradeMaxInterval"
proof (induction n arbitrary: d)
  case (Suc n)
  show ?case
  proof (cases "d < upgradeMaxInterval")
    case True
    then show ?thesis using Suc.IH [of "d * 2"] Suc.prems by (simp add: mult.assoc)
  next
    case False
    moreover have "d * 1 \<le> d * 2 ^ Suc n" using Suc.prems by (intro mult_left_mono one_le_power) simp_all
    ultimately show ?thesis by (simp del: power_Suc)
  qed
qed simp

subsection \<open>Properties\<close>

text \<open>
  The fast check never fires on a quiet peer: whatever is observed, a received-byte stall is
  reported only after three consecutive growths no more than forty seconds apart. In
  particular a peer whose bytes grow every fifty seconds never arms it.
\<close>

lemma rx_stall_needs_rhythm:
  assumes "livenessRxStalled \<in> set (verdicts (newLivenessTracker t0) observations)"
  shows "\<exists>a b c. (\<exists>pre post. growths (newLivenessTracker t0) [] observations = pre @ c # b # a # post) \<and>
    c - b \<le> 40 * Second \<and> b - a \<le> 40 * Second"
  using verdicts_stalled [OF _ assms, of "[]"]
  by (simp add: tracks_def rhythm_def newLivenessTracker_def rxCadenceMax_def)

definition ex_stats :: "int \<Rightarrow> 64 word \<Rightarrow> time \<times> PeerStats" where
  "ex_stats n rx = (n * Second, \<lparr>LastHandshake = Some (n * Second), RxBytes = rx\<rparr>)"

text \<open>
  The echo check restarts a probe only on the initiator, only for a peer that has answered
  before, and only right after three unanswered echoes in a row; a peer that never answers is
  given up on at the sixth echo and never restarted.
\<close>

lemma path_ping_sound:
  "(path_ping_run initiator path_ping_start replies = (TickRestart, n) \<longrightarrow>
      initiator \<and> (\<exists>rs. take n replies = rs @ [None, None, None] \<and> (\<exists>r \<in> set rs. r \<noteq> None))) \<and>
   path_ping_run initiator path_ping_start (replicate 6 None @ replies) = (TickStop, 6)"
proof
  show "path_ping_run initiator path_ping_start replies = (TickRestart, n) \<longrightarrow>
      initiator \<and> (\<exists>rs. take n replies = rs @ [None, None, None] \<and> (\<exists>r \<in> set rs. r \<noteq> None))"
  proof
    assume "path_ping_run initiator path_ping_start replies = (TickRestart, n)"
    note * = path_ping_restart [OF this, unfolded path_ping_start_def, simplified]
    obtain rs where rs: "take n replies = rs @ replicate 3 None" using misses_suffix [of 3 "take n replies"] * by auto
    then show "initiator \<and> (\<exists>rs. take n replies = rs @ [None, None, None] \<and> (\<exists>r \<in> set rs. r \<noteq> None))"
      using * by (auto simp: numeral_3_eq_3)
  qed
  show "path_ping_run initiator path_ping_start (replicate 6 None @ replies) = (TickStop, 6)"
    by (simp add: path_ping_start_def path_ping_tick_def pathPingGiveUp_def numeral_eq_Suc)
qed

text \<open>
  The wait before direct-connection retry number \<open>n + 1\<close> is two minutes doubled \<open>n\<close> times,
  capped at thirty minutes.
\<close>

lemma upgradeDelay_closed_form:
  "upgradeDelay n = min (2 * Minute * 2 ^ n) (30 * Minute)"
  using upgrade_double_eq [of upgradeBaseInterval n]
  by (simp add: upgradeDelay_def upgradeBaseInterval_def upgradeMaxInterval_def time_defs)

end
