(* ===== verification/Probe.thy ===== *)
theory Probe
  imports PeerWiring ShadowUpgrade Liveness
begin

text \<open>
  The connection lifecycle of one remote peer: \<^verbatim>\<open>internal/server/transport/probe.go\<close>, the retry
  schedule of \<^verbatim>\<open>probe_upgrade.go\<close>, the probe's side of \<^verbatim>\<open>probe_shadow_upgrade.go\<close> and the
  endpoint guard of \<^verbatim>\<open>probe_endpoint.go\<close>. Goroutines and timers are data: \<open>discoveries\<close> holds
  the epoch each running discovery captured, \<open>retries\<close> counts pending ten-second restarts,
  \<open>watchers\<close> the epochs of the endpoint guards and path pings started, and \<open>shadows\<close> every
  background attempt ever made, \<open>shadow\<close> pointing at the one in flight. Each operation runs to
  its end before the next. A discovery that starts without dialers dereferences nil; \<open>crashed\<close>
  records it.
\<close>

subsection \<open>State\<close>

text \<open>What the surroundings answer during one call.\<close>

record 'cand outside =
  o_ice :: ice_env
  o_marshal :: "'cand \<Rightarrow> string"
  o_unmarshal :: "string \<Rightarrow> 'cand option"
  o_takes :: "'cand \<Rightarrow> bool"
  o_send :: bool
  o_relaySend :: bool
  o_connected :: bool

record 'cand Probe =
  sm :: "probe_world StateMachine"
  world :: probe_world
  iceD :: "'cand iceDialer option"
  relayD :: "relayDialer option"
  newIceDialer :: bool
  newRelayDialer :: bool
  newShadow :: bool
  epoch :: nat
  running :: bool
  restartInProgress :: bool
  startedAt :: time
  firstFailureAt :: "time option"
  liveness :: bool
  upgradeTimer :: "(duration \<times> nat) option"
  upgradeTries :: nat
  shadow :: "nat option"
  shadows :: "'cand shadowUpgrade list"
  discoveries :: "nat list"
  retries :: nat
  watchers :: "nat list"
  closedTransports :: "Transport list"
  crashed :: bool

abbreviation state :: "'cand Probe \<Rightarrow> PeerState" where
  "state p \<equiv> current (sm p)"

definition transit :: "PeerState \<Rightarrow> 'cand Probe \<Rightarrow> 'cand Probe" where
  "transit target p =
     (case Transition_ignore (sm p, world p) target of (s, w) \<Rightarrow> p\<lparr>sm := s, world := w\<rparr>)"

definition set_transport :: "Transport \<Rightarrow> 'cand Probe \<Rightarrow> 'cand Probe" where
  "set_transport t p = p\<lparr>world := (world p)\<lparr>currentTransport := Some t\<rparr>\<rparr>"

definition local_peer :: "probe_env \<Rightarrow> 'cand Probe \<Rightarrow> Peer option" where
  "local_peer env p = getLocalPeer (store (world p)) (e_localApp env)"

definition fresh_ice :: "probe_env \<Rightarrow> 'cand iceDialer" where
  "fresh_ice env = NewIceDialer (e_local env) (e_remote env) None"

definition fresh_relay :: "probe_env \<Rightarrow> relayDialer" where
  "fresh_relay env = NewRelayDialer (e_local env) (e_remote env) None"

subsection \<open>Timers and watchers\<close>

definition startLivenessTicker :: "probe_env \<Rightarrow> 'cand Probe \<Rightarrow> 'cand Probe" where
  "startLivenessTicker env p = (if e_stats env then p\<lparr>liveness := True\<rparr> else p)"

definition stopLivenessTicker :: "'cand Probe \<Rightarrow> 'cand Probe" where
  "stopLivenessTicker p = p\<lparr>liveness := False\<rparr>"

definition cancelUpgrade :: "bool \<Rightarrow> 'cand Probe \<Rightarrow> 'cand Probe" where
  "cancelUpgrade reset p = p\<lparr>upgradeTimer := None, upgradeTries := (if reset then 0 else upgradeTries p)\<rparr>"

definition armUpgradeLocked :: "duration \<Rightarrow> 'cand Probe \<Rightarrow> 'cand Probe" where
  "armUpgradeLocked delay p = p\<lparr>upgradeTimer := Some (delay, epoch p)\<rparr>"

definition scheduleUpgrade :: "probe_env \<Rightarrow> 'cand Probe \<Rightarrow> 'cand Probe" where
  "scheduleUpgrade env p =
     (if e_upgradeDisabled env then p
      else if \<not> isInitiator (e_local env) (e_remote env) then p
      else armUpgradeLocked (upgradeDelay (upgradeTries p)) p)"

definition startEndpointGuard :: "'cand Probe \<Rightarrow> 'cand Probe" where
  "startEndpointGuard p = p\<lparr>watchers := watchers p @ [epoch p]\<rparr>"

definition startPathPing :: "'cand Probe \<Rightarrow> 'cand Probe" where
  "startPathPing p =
     (case currentTransport (world p) of
        Some (ICETransport _) \<Rightarrow> p\<lparr>watchers := watchers p @ [epoch p]\<rparr>
      | _ \<Rightarrow> p)"

subsection \<open>Endpoint guard\<close>

text \<open>The endpoint WireGuard reports is its raw address.\<close>

definition unmap :: "bytes \<Rightarrow> bytes" where
  "unmap b = (if length b = 16 \<and> take 12 b = replicate 10 0 @ [0xff, 0xff] then drop 12 b else b)"

definition relayPoisoned :: "PeerState \<Rightarrow> bytes option \<Rightarrow> bool" where
  "relayPoisoned s endpoint =
     (if s \<noteq> StateICEReady then False
      else (case endpoint of
              None \<Rightarrow> False
            | Some ip \<Rightarrow> (length ip = 4 \<or> length ip = 16) \<and> IsRelayFakeAddr (unmap ip)))"

definition reassertDirectEndpoint :: "probe_env \<Rightarrow> bytes option option \<Rightarrow> 'cand Probe \<Rightarrow> bool \<times> 'cand Probe" where
  "reassertDirectEndpoint env stats p =
     (if \<not> e_stats env then (False, p)
      else
        (case stats of
           None \<Rightarrow> (False, p)
         | Some endpoint \<Rightarrow>
             if \<not> relayPoisoned (state p) endpoint then (False, p)
             else
               (case currentTransport (world p) of
                  Some (ICETransport a) \<Rightarrow>
                    (let (err, w) = set_endpoint env a (keepaliveFor (e_local env) (e_remote env)) (world p)
                     in (\<not> err, p\<lparr>world := w\<rparr>))
                | _ \<Rightarrow> (False, p))))"

text \<open>One check of the guard that captured \<open>e\<close>; false when the guard ends.\<close>

definition endpoint_guard_check :: "probe_env \<Rightarrow> nat \<Rightarrow> bytes option option \<Rightarrow> 'cand Probe \<Rightarrow> bool \<times> 'cand Probe" where
  "endpoint_guard_check env e stats p =
     (if epoch p \<noteq> e \<or> state p \<noteq> StateICEReady then (False, p)
      else (True, snd (reassertDirectEndpoint env stats p)))"

subsection \<open>Switching to the direct path\<close>

definition handleUpgradeTransport :: "string \<Rightarrow> 'cand Probe \<Rightarrow> 'cand Probe" where
  "handleUpgradeTransport addr p =
     (let p1 = (set_transport (ICETransport addr) p)\<lparr>closedTransports := closedTransports p @
                 (case currentTransport (world p) of Some old \<Rightarrow> [old] | None \<Rightarrow> [])\<rparr>
      in startPathPing (startEndpointGuard (cancelUpgrade True (transit StateICEReady p1))))"

subsection \<open>Background attempts\<close>

definition clearShadow :: "'cand Probe \<Rightarrow> 'cand Probe" where
  "clearShadow p = p\<lparr>shadow := None\<rparr>"

text \<open>An outcome is the direct address, \<^term>\<open>None\<close> an error.\<close>

definition onShadowResult :: "probe_env \<Rightarrow> nat \<Rightarrow> string option \<Rightarrow> 'cand Probe \<Rightarrow> 'cand Probe" where
  "onShadowResult env e res p0 =
     (let p = clearShadow p0
      in case res of
           Some addr \<Rightarrow>
             if epoch p = e \<and> state p = StateRelayReady then handleUpgradeTransport addr p
             else if newShadow p \<and> epoch p = e \<and> state p = StateRelayReady then scheduleUpgrade env p else p
         | None \<Rightarrow>
             if newShadow p \<and> epoch p = e \<and> state p = StateRelayReady then scheduleUpgrade env p else p)"

definition set_shadow :: "nat \<Rightarrow> 'cand shadowUpgrade \<Rightarrow> 'cand Probe \<Rightarrow> 'cand Probe" where
  "set_shadow i s p = p\<lparr>shadows := (shadows p)[i := s]\<rparr>"

definition finish :: "probe_env \<Rightarrow> nat \<Rightarrow> string option \<Rightarrow> 'cand Probe \<Rightarrow> 'cand Probe" where
  "finish env i res p =
     (if s_reported (shadows p ! i) then p
      else onShadowResult env (case s_epoch (shadows p ! i) of Some e \<Rightarrow> e | None \<Rightarrow> epoch p) res
             (set_shadow i ((shadows p ! i)\<lparr>s_reported := True\<rparr>) p))"

definition Close_shadow :: "probe_env \<Rightarrow> nat \<Rightarrow> 'cand Probe \<Rightarrow> 'cand Probe" where
  "Close_shadow env i p = finish env i None (set_shadow i (close_once (shadows p ! i)) p)"

text \<open>
  The end of the attempt's dial: the outcome is reported and a failed attempt closed; a
  successful one is closed two seconds later.
\<close>

definition shadow_dialed :: "probe_env \<Rightarrow> nat \<Rightarrow> string option \<Rightarrow> 'cand Probe \<Rightarrow> 'cand Probe" where
  "shadow_dialed env i res p =
     (let p1 = finish env i res p in if res = None then Close_shadow env i p1 else p1)"

definition cancelShadow :: "probe_env \<Rightarrow> 'cand Probe \<Rightarrow> 'cand Probe" where
  "cancelShadow env p =
     (case shadow p of None \<Rightarrow> p | Some i \<Rightarrow> Close_shadow env i (p\<lparr>shadow := None\<rparr>))"

definition start_shadow :: "probe_env \<Rightarrow> 'cand outside \<Rightarrow> nat \<Rightarrow> 'cand Probe \<Rightarrow> 'cand Probe" where
  "start_shadow env ext i p =
     (case start (o_ice ext) (o_takes ext) (clock (world p)) (shadows p ! i) of
        (True, s) \<Rightarrow> set_shadow i s p
      | (False, s) \<Rightarrow> Close_shadow env i (finish env i None (set_shadow i s p)))"

text \<open>A new attempt joins the list; it is adopted unless one is in flight.\<close>

definition make_shadow :: "probe_env \<Rightarrow> string \<Rightarrow> nat option \<Rightarrow> 'cand Probe \<Rightarrow> nat \<times> 'cand Probe" where
  "make_shadow env attempt e p =
     (length (shadows p),
      p\<lparr>shadows := shadows p @ [newShadowUpgrade (e_local env) (e_remote env) attempt e]\<rparr>)"

definition adoptShadow :: "nat \<Rightarrow> 'cand Probe \<Rightarrow> bool \<times> 'cand Probe" where
  "adoptShadow i p = (if shadow p \<noteq> None then (False, p) else (True, p\<lparr>shadow := Some i\<rparr>))"

definition beginUpgradeAttempt :: "probe_env \<Rightarrow> 'cand outside \<Rightarrow> string \<Rightarrow> nat \<Rightarrow> 'cand Probe \<Rightarrow> 'cand Probe" where
  "beginUpgradeAttempt env ext attempt e p =
     (if \<not> newShadow p then p
      else
        (let (i, p1) = make_shadow env attempt (Some e) p; (adopted, p2) = adoptShadow i p1
         in if \<not> adopted then Close_shadow env i p2 else start_shadow env ext i p2))"

definition tryUpgrade :: "probe_env \<Rightarrow> 'cand outside \<Rightarrow> string \<Rightarrow> nat \<Rightarrow> 'cand Probe \<Rightarrow> 'cand Probe" where
  "tryUpgrade env ext attempt e p =
     (if epoch p \<noteq> e then p
      else if state p \<noteq> StateRelayReady then p
      else if \<not> o_connected ext then armUpgradeLocked upgradeSignalRetry p
      else beginUpgradeAttempt env ext attempt e (p\<lparr>upgradeTries := upgradeTries p + 1\<rparr>))"

definition shadow_handle :: "'cand outside \<Rightarrow> nat \<Rightarrow> SignalPacket \<Rightarrow> 'cand Probe \<Rightarrow> outcome \<times> 'cand Probe" where
  "shadow_handle ext i pkt p =
     (case Handle_shadow (o_ice ext) (o_marshal ext) (o_unmarshal ext) (o_takes ext) (clock (world p)) (shadows p ! i) pkt of
        (res, s) \<Rightarrow> (res, set_shadow i s p))"

definition handleShadowSignal :: "probe_env \<Rightarrow> 'cand outside \<Rightarrow> SignalPacket \<Rightarrow> 'cand Probe \<Rightarrow> outcome \<times> 'cand Probe" where
  "handleShadowSignal env ext pkt p =
     (if Type pkt = HANDSHAKE_SYN \<and> newShadow p \<and> state p = StateRelayReady
      then
        (let attempt = (case GetHandshake pkt of Some hs \<Rightarrow> AttemptID_hs hs | None \<Rightarrow> [])
         in if attempt = [] then (Ok, p)
            else
              (case shadow p of
                 Some i \<Rightarrow> shadow_handle ext i pkt p
               | None \<Rightarrow>
                   (let (i, p1) = make_shadow env attempt None p; (adopted, p2) = adoptShadow i p1
                    in if \<not> adopted then (Ok, Close_shadow env i p2)
                       else shadow_handle ext i pkt (start_shadow env ext i p2))))
      else (case shadow p of Some i \<Rightarrow> shadow_handle ext i pkt p | None \<Rightarrow> (Ok, p)))"

subsection \<open>Starting, restarting, closing\<close>

definition prepare_dialers :: "probe_env \<Rightarrow> 'cand outside \<Rightarrow> 'cand Probe \<Rightarrow> 'cand Probe" where
  "prepare_dialers env ext p =
     p\<lparr>iceD := map_option (\<lambda>d. snd (Prepare_ice (o_ice ext) (o_marshal ext) (o_takes ext) (clock (world p))
                 (d\<lparr>i_localPeer := local_peer env p\<rparr>))) (iceD p),
       relayD := (if e_relay env
                  then map_option (\<lambda>d. Prepare_relay (o_send ext) (clock (world p)) (d\<lparr>localPeer := local_peer env p\<rparr>)) (relayD p)
                  else relayD p),
       crashed := (crashed p \<or> iceD p = None \<or> e_relay env \<and> relayD p = None)\<rparr>"

definition Start_probe :: "probe_env \<Rightarrow> 'cand outside \<Rightarrow> 'cand Probe \<Rightarrow> 'cand Probe" where
  "Start_probe env ext p =
     (if running p then p
      else
        (case Transition (sm p) StateProbing (world p) of
           Inl _ \<Rightarrow> p
         | Inr (s, w) \<Rightarrow>
             prepare_dialers env ext
               (p\<lparr>running := True, sm := s, world := w, startedAt := clock w, discoveries := discoveries p @ [epoch p]\<rparr>)))"

definition restart :: "probe_env \<Rightarrow> 'cand outside \<Rightarrow> 'cand Probe \<Rightarrow> 'cand Probe" where
  "restart env ext p =
     (if restartInProgress p then p
      else
        (let p1 = cancelShadow env (cancelUpgrade False (stopLivenessTicker p))
         in if \<not> newIceDialer p1 then p1
            else
              (let p2 = p1\<lparr>world := (world p1)\<lparr>peerKnownDone := False\<rparr>, iceD := Some (fresh_ice env),
                           relayD := (if newRelayDialer p1 then Some (fresh_relay env) else relayD p1),
                           epoch := epoch p1 + 1\<rparr>
               in Start_probe env ext ((transit StateFailed p2)\<lparr>running := False\<rparr>))))"

definition Close_probe :: "probe_env \<Rightarrow> 'cand Probe \<Rightarrow> 'cand Probe" where
  "Close_probe env p =
     (let p1 = cancelShadow env ((cancelUpgrade True (stopLivenessTicker p))\<lparr>newShadow := False\<rparr>)
      in p1\<lparr>newIceDialer := False, newRelayDialer := False, iceD := None, relayD := None\<rparr>)"

definition SyncAllowedIPs :: "probe_env \<Rightarrow> string \<Rightarrow> 'cand Probe \<Rightarrow> bool \<times> 'cand Probe" where
  "SyncAllowedIPs env allowed p =
     (if allowed = [] then (False, p)
      else (case register_peer env allowed (world p) of (err, w) \<Rightarrow> (err, p\<lparr>world := w\<rparr>)))"

subsection \<open>The end of a discovery\<close>

datatype discover_error = ClosedError | OtherError

definition onSuccess :: "probe_env \<Rightarrow> Transport \<Rightarrow> 'cand Probe \<Rightarrow> 'cand Probe" where
  "onSuccess env t p =
     (let p1 = set_transport t p
      in startLivenessTicker env
           (if is_ICE t then startPathPing (startEndpointGuard (cancelUpgrade True (transit StateICEReady p1)))
            else scheduleUpgrade env (transit StateRelayReady p1)))"

definition onFailure :: "probe_env \<Rightarrow> 'cand outside \<Rightarrow> discover_error \<Rightarrow> 'cand Probe \<Rightarrow> 'cand Probe" where
  "onFailure env ext err p =
     (if err = ClosedError then restart env ext (transit StateFailed (p\<lparr>firstFailureAt := None\<rparr>))
      else
        (let now = clock (world p);
             p1 = (case firstFailureAt p of None \<Rightarrow> p\<lparr>firstFailureAt := Some now\<rparr> | Some _ \<Rightarrow> p);
             elapsed = (case firstFailureAt p1 of Some t \<Rightarrow> now - t | None \<Rightarrow> 0)
         in if elapsed \<ge> 60 * Second then transit StateClosed (transit StateFailed p1)
            else (transit StateFailed p1)\<lparr>retries := retries p1 + 1\<rparr>))"

definition discover_done :: "probe_env \<Rightarrow> 'cand outside \<Rightarrow> nat \<Rightarrow> discover_error + Transport \<Rightarrow> 'cand Probe \<Rightarrow> 'cand Probe" where
  "discover_done env ext myEpoch res p0 =
     (let p = p0\<lparr>discoveries := remove1 myEpoch (discoveries p0)\<rparr>
      in if epoch p \<noteq> myEpoch
         then (case res of Inr t \<Rightarrow> p\<lparr>closedTransports := closedTransports p @ [t]\<rparr> | Inl _ \<Rightarrow> p)
         else
           (case res of
              Inl err \<Rightarrow> onFailure env ext err (p\<lparr>running := False\<rparr>)
            | Inr t \<Rightarrow> onSuccess env t (p\<lparr>running := False\<rparr>)))"

subsection \<open>Packets\<close>

definition receive_peers :: "probe_env \<Rightarrow> Peer list \<Rightarrow> 'cand Probe \<Rightarrow> 'cand Probe" where
  "receive_peers env ps p = p\<lparr>world := foldl (\<lambda>w peer. onPeerReceived env peer w) (world p) ps\<rparr>"

text \<open>
  A dialer calls back with the peer records it decoded and, on a remote restart, restarts the
  probe; its local record is read from the store when it sends.
\<close>

definition Handle_probe :: "probe_env \<Rightarrow> 'cand outside \<Rightarrow> SignalPacket \<Rightarrow> 'cand Probe \<Rightarrow> outcome \<times> 'cand Probe" where
  "Handle_probe env ext pkt p =
     (if isUpgradeSignal pkt then handleShadowSignal env ext pkt p
      else
        (case Dialer pkt of
           ICE_dialer \<Rightarrow>
             (case iceD p of
                None \<Rightarrow> (Ok, p)
              | Some d \<Rightarrow>
                  (case Handle_ice (o_ice ext) (o_marshal ext) (o_unmarshal ext) (o_takes ext) (clock (world p))
                          (d\<lparr>i_localPeer := local_peer env p\<rparr>) pkt of
                     (res, d') \<Rightarrow>
                       (let p1 = receive_peers env (drop (length (i_received d)) (i_received d')) (p\<lparr>iceD := Some d'\<rparr>)
                        in (res, if i_restarts d < i_restarts d' then restart env ext p1 else p1))))
         | Relay_dialer \<Rightarrow>
             (case relayD p of
                None \<Rightarrow> (Ok, p)
              | Some d \<Rightarrow>
                  (case Handle_relay (o_send ext) (o_relaySend ext) (localKey (o_ice ext)) (clock (world p))
                          (d\<lparr>localPeer := local_peer env p\<rparr>) pkt of
                     (res, d') \<Rightarrow>
                       (let p1 = receive_peers env (drop (length (received d)) (received d')) (p\<lparr>relayD := Some d'\<rparr>)
                        in (res, if restarts d < restarts d' then restart env ext p1 else p1))))))"

subsection \<open>The race of the two dialers\<close>

datatype race_event = Result Transport | Failed discover_error | Cancelled

text \<open>
  \<^verbatim>\<open>discover\<close>'s loop over what the dialers deliver, each with its time: the outcome (\<^term>\<open>None\<close>
  while it still waits) and whether the relay was committed to. A relay result waits half a
  second for a direct one, deaf to errors meanwhile.
\<close>

fun next_result :: "(time \<times> race_event) list \<Rightarrow> (time \<times> Transport) option" where
  "next_result [] = None"
| "next_result ((t, Result tr) # evs) = Some (t, tr)"
| "next_result (_ # evs) = next_result evs"

fun discover :: "bool \<Rightarrow> nat \<Rightarrow> nat \<Rightarrow> (time \<times> race_event) list \<Rightarrow> ((discover_error + Transport) \<times> bool) option" where
  "discover enableRelay dialers failed [] = None"
| "discover enableRelay dialers failed ((t, Result tr) # evs) =
     (if \<not> is_ICE tr \<and> enableRelay
      then (case next_result evs of
              Some (t', tr') \<Rightarrow>
                if t' < t + 500 * Millisecond then Some (Inr tr', False) else Some (Inr tr, True)
            | None \<Rightarrow> Some (Inr tr, True))
      else Some (Inr tr, False))"
| "discover enableRelay dialers failed ((t, Failed err) # evs) =
     (if failed + 1 = dialers then Some (Inl err, False) else discover enableRelay dialers (failed + 1) evs)"
| "discover enableRelay dialers failed ((t, Cancelled) # evs) = Some (Inl OtherError, False)"

subsection \<open>A new probe\<close>

definition NewProbe :: "probe_env \<Rightarrow> PeerManager \<Rightarrow> time \<Rightarrow> 'cand Probe" where
  "NewProbe env m now =
     \<lparr>sm = OnTransition (OnTransition (NewStateMachine StateCreated) signaler_cb) (config_cb env),
      world = \<lparr>clock = now, store = m, conf = NewWGConfigurator, signaler = newPeerSignaler, remotePeer = None,
               peerKnownDone = False, currentTransport = None\<rparr>,
      iceD = Some (fresh_ice env), relayD = Some (fresh_relay env), newIceDialer = True, newRelayDialer = True,
      newShadow = True, epoch = 0, running = False, restartInProgress = False, startedAt = 0,
      firstFailureAt = None, liveness = False, upgradeTimer = None, upgradeTries = 0, shadow = None,
      shadows = [], discoveries = [], retries = 0, watchers = [], closedTransports = [], crashed = False\<rparr>"

subsection \<open>Frames\<close>

lemma transit_frame [frame_simps, simp]:
  "iceD (transit t p) = iceD p" "relayD (transit t p) = relayD p" "newIceDialer (transit t p) = newIceDialer p"
  "newRelayDialer (transit t p) = newRelayDialer p" "newShadow (transit t p) = newShadow p"
  "epoch (transit t p) = epoch p" "running (transit t p) = running p"
  "restartInProgress (transit t p) = restartInProgress p" "firstFailureAt (transit t p) = firstFailureAt p"
  "upgradeTimer (transit t p) = upgradeTimer p" "upgradeTries (transit t p) = upgradeTries p"
  "shadow (transit t p) = shadow p" "shadows (transit t p) = shadows p" "discoveries (transit t p) = discoveries p"
  "retries (transit t p) = retries p" "crashed (transit t p) = crashed p" "callbacks (sm (transit t p)) = callbacks (sm p)"
  by (simp_all add: transit_def case_prod_beta)

lemma state_transit: "state (transit t p) = (if t \<in> set (allowedTransitions (state p)) then t else state p)"
  by (simp add: transit_def case_prod_beta Transition_ignore_current)

lemma world_transit:
  assumes "callbacks (sm p) = factory_callbacks env"
  shows "world (transit t p) =
    (if t \<in> set (allowedTransitions (state p)) then config_cb env (state p) t (signaler_cb (state p) t (world p)) else world p)"
  using assms by (simp add: transit_def Transition_ignore_def Transition_eq factory_callbacks_def)

lemma transit_world [simp]:
  assumes "callbacks (sm p) = factory_callbacks env"
  shows "currentTransport (world (transit t p)) = currentTransport (world p)" "clock (world (transit t p)) = clock (world p)"
  by (simp_all add: world_transit [OF assms])

text \<open>
  The part of a probe the lifecycle is about; every timer, watcher, store and shadow operation
  leaves it alone.
\<close>

definition same_core :: "'cand Probe \<Rightarrow> 'cand Probe \<Rightarrow> bool" where
  "same_core p q \<longleftrightarrow> sm q = sm p \<and> epoch q = epoch p \<and> running q = running p \<and>
     restartInProgress q = restartInProgress p \<and> discoveries q = discoveries p \<and>
     currentTransport (world q) = currentTransport (world p) \<and> newIceDialer q = newIceDialer p \<and>
     (iceD q = None \<longleftrightarrow> iceD p = None) \<and> (relayD q = None \<longleftrightarrow> relayD p = None) \<and> crashed q = crashed p"

lemma same_core_refl [simp]: "same_core p p"
  by (simp add: same_core_def)

lemma same_core_trans: "same_core p q \<Longrightarrow> same_core q r \<Longrightarrow> same_core p r"
  by (simp add: same_core_def)

lemma same_core_simps [simp]:
  "same_core p (startLivenessTicker env p)" "same_core p (stopLivenessTicker p)" "same_core p (cancelUpgrade b p)"
  "same_core p (armUpgradeLocked d p)" "same_core p (scheduleUpgrade env p)" "same_core p (startEndpointGuard p)"
  "same_core p (startPathPing p)" "same_core p (clearShadow p)" "same_core p (set_shadow i s p)"
  "same_core p (snd (make_shadow env a e p))" "same_core p (snd (adoptShadow i p))"
  "same_core p (p\<lparr>upgradeTries := n\<rparr>)" "same_core p (p\<lparr>shadow := x\<rparr>)" "same_core p (p\<lparr>newShadow := b\<rparr>)"
  "same_core p (p\<lparr>retries := k\<rparr>)" "same_core p (p\<lparr>closedTransports := ts\<rparr>)" "same_core p (p\<lparr>firstFailureAt := f\<rparr>)"
  by (auto simp: same_core_def startLivenessTicker_def stopLivenessTicker_def cancelUpgrade_def armUpgradeLocked_def
      scheduleUpgrade_def startEndpointGuard_def startPathPing_def clearShadow_def set_shadow_def make_shadow_def
      adoptShadow_def split: option.split Transport.split)

lemma same_core_receive [simp]: "same_core p (receive_peers env ps p)"
proof -
  have "currentTransport (foldl (\<lambda>w peer. onPeerReceived env peer w) w ps) = currentTransport w" for w
    by (induction ps arbitrary: w) simp_all
  then show ?thesis by (simp add: same_core_def receive_peers_def)
qed

lemma same_core_shadow_handle [simp]: "same_core p (snd (shadow_handle ext i pkt p))"
  by (simp add: shadow_handle_def case_prod_beta)

subsection \<open>The lifecycle invariant\<close>

definition probe_ok :: "probe_env \<Rightarrow> 'cand Probe \<Rightarrow> bool" where
  "probe_ok env p \<longleftrightarrow> callbacks (sm p) = factory_callbacks env \<and> \<not> restartInProgress p \<and>
     count_list (discoveries p) (epoch p) = (if running p then 1 else 0) \<and> (\<forall>e \<in> set (discoveries p). e \<le> epoch p) \<and>
     (running p \<longleftrightarrow> state p = StateProbing) \<and>
     (state p = StateICEReady \<longrightarrow> (\<exists>a. currentTransport (world p) = Some (ICETransport a))) \<and>
     (state p = StateRelayReady \<longrightarrow> (\<exists>a. currentTransport (world p) = Some (RelayTransport a))) \<and>
     (newIceDialer p \<longrightarrow> iceD p \<noteq> None \<and> relayD p \<noteq> None \<and> \<not> crashed p)"

lemma probe_ok_core: "probe_ok env p \<Longrightarrow> same_core p q \<Longrightarrow> probe_ok env q"
  unfolding probe_ok_def same_core_def by (elim conjE) (intro conjI; simp)

lemma probe_okD:
  assumes "probe_ok env p"
  shows "callbacks (sm p) = factory_callbacks env" "\<not> restartInProgress p"
    "count_list (discoveries p) (epoch p) = (if running p then 1 else 0)" "\<forall>e \<in> set (discoveries p). e \<le> epoch p"
    "running p \<longleftrightarrow> state p = StateProbing"
    "newIceDialer p \<Longrightarrow> iceD p \<noteq> None \<and> relayD p \<noteq> None \<and> \<not> crashed p"
  using assms by (auto simp: probe_ok_def)

text \<open>Entering a connected state with the matching transport, and leaving for Failed or Closed.\<close>

lemma probe_ok_connect:
  assumes "probe_ok env p" "\<not> running q" "state q \<noteq> StateProbing"
    and "callbacks (sm q) = callbacks (sm p)" "restartInProgress q = restartInProgress p"
    and "count_list (discoveries q) (epoch q) = 0" "\<forall>e \<in> set (discoveries q). e \<le> epoch q"
    and "state q = StateICEReady \<Longrightarrow> \<exists>a. currentTransport (world q) = Some (ICETransport a)"
    and "state q = StateRelayReady \<Longrightarrow> \<exists>a. currentTransport (world q) = Some (RelayTransport a)"
    and "newIceDialer q \<Longrightarrow> iceD q \<noteq> None \<and> relayD q \<noteq> None \<and> \<not> crashed q"
  shows "probe_ok env q"
  using assms by (simp add: probe_ok_def)

lemma upgrade_core:
  assumes "callbacks (sm p) = factory_callbacks env"
  shows "same_core (transit StateICEReady (set_transport (ICETransport addr) p)) (handleUpgradeTransport addr p)"
proof -
  let ?p1 = "(set_transport (ICETransport addr) p)\<lparr>closedTransports := closedTransports p @
      (case currentTransport (world p) of Some old \<Rightarrow> [old] | None \<Rightarrow> [])\<rparr>"
  have "same_core (transit StateICEReady ?p1) (handleUpgradeTransport addr p)"
    unfolding handleUpgradeTransport_def Let_def
    by (meson same_core_simps same_core_trans)
  moreover have "same_core (transit StateICEReady (set_transport (ICETransport addr) p)) (transit StateICEReady ?p1)"
    by (simp add: same_core_def transit_def case_prod_beta)
  ultimately show ?thesis by (rule same_core_trans [rotated])
qed

lemma probe_ok_upgrade:
  assumes "probe_ok env p" "state p = StateRelayReady"
  shows "probe_ok env (handleUpgradeTransport addr p)"
proof -
  let ?q = "transit StateICEReady (set_transport (ICETransport addr) p)"
  have cb: "callbacks (sm (set_transport (ICETransport addr) p)) = factory_callbacks env"
    using probe_okD(1) [OF assms(1)] by (simp add: set_transport_def)
  have st: "state ?q = StateICEReady" using assms(2) by (simp add: state_transit set_transport_def)
  have "probe_ok env ?q"
    by (rule probe_ok_connect [OF assms(1)])
      (use probe_okD [OF assms(1)] assms(2) st transit_world [OF cb] in \<open>simp_all add: set_transport_def\<close>)
  then show ?thesis using probe_ok_core upgrade_core [OF probe_okD(1) [OF assms(1)]] by blast
qed

lemma probe_ok_onShadowResult:
  assumes "probe_ok env p"
  shows "probe_ok env (onShadowResult env e res p)"
proof -
  have c: "probe_ok env (clearShadow p)" by (rule probe_ok_core [OF assms]) simp
  then have "probe_ok env (scheduleUpgrade env (clearShadow p))" by (rule probe_ok_core) simp
  then show ?thesis using c probe_ok_upgrade [OF c]
    by (simp add: onShadowResult_def Let_def split: option.split)
qed

lemma probe_ok_finish: "probe_ok env p \<Longrightarrow> probe_ok env (finish env i res p)"
  by (simp add: finish_def) (meson probe_ok_core probe_ok_onShadowResult same_core_simps(9))

lemma probe_ok_Close_shadow: "probe_ok env p \<Longrightarrow> probe_ok env (Close_shadow env i p)"
  unfolding Close_shadow_def by (rule probe_ok_finish) (erule probe_ok_core, simp)

lemma probe_ok_dialed: "probe_ok env p \<Longrightarrow> probe_ok env (shadow_dialed env i res p)"
  by (simp add: shadow_dialed_def Let_def probe_ok_finish probe_ok_Close_shadow)

lemma probe_ok_cancelShadow: "probe_ok env p \<Longrightarrow> probe_ok env (cancelShadow env p)"
  by (auto simp: cancelShadow_def split: option.split intro!: probe_ok_Close_shadow elim: probe_ok_core)

lemma probe_ok_start_shadow: "probe_ok env p \<Longrightarrow> probe_ok env (start_shadow env ext i p)"
  by (auto simp: start_shadow_def split: prod.split bool.split
      intro!: probe_ok_Close_shadow probe_ok_finish elim: probe_ok_core)

lemma probe_ok_begin: "probe_ok env p \<Longrightarrow> probe_ok env (beginUpgradeAttempt env ext a e p)"
proof -
  assume p: "probe_ok env p"
  have "probe_ok env (snd (make_shadow env a (Some e) p))" by (rule probe_ok_core [OF p]) simp
  then have "probe_ok env (snd (adoptShadow i (snd (make_shadow env a (Some e) p))))" for i
    by (rule probe_ok_core) simp
  then show ?thesis
    using p by (auto simp: beginUpgradeAttempt_def case_prod_beta Let_def intro!: probe_ok_Close_shadow probe_ok_start_shadow)
qed

lemma probe_ok_tryUpgrade: "probe_ok env p \<Longrightarrow> probe_ok env (tryUpgrade env ext a e p)"
  by (auto simp: tryUpgrade_def intro!: probe_ok_begin elim: probe_ok_core)

lemma probe_ok_shadowSignal: "probe_ok env p \<Longrightarrow> probe_ok env (snd (handleShadowSignal env ext pkt p))"
proof -
  assume p: "probe_ok env p"
  have "probe_ok env (snd (make_shadow env a None p))" for a by (rule probe_ok_core [OF p]) simp
  then have m: "probe_ok env (snd (adoptShadow i (snd (make_shadow env a None p))))" for i a
    by (rule probe_ok_core [of env "snd (make_shadow env a None p)"]) simp
  have h: "probe_ok env q \<Longrightarrow> probe_ok env (snd (shadow_handle ext i pkt q))" for q i
    by (erule probe_ok_core) simp
  show ?thesis
    using p m by (auto simp: handleShadowSignal_def case_prod_beta Let_def split: option.split
        intro!: h probe_ok_Close_shadow probe_ok_start_shadow)
qed

lemma probe_ok_Start:
  assumes "probe_ok env p" "newIceDialer p"
  shows "probe_ok env (Start_probe env ext p)"
proof (cases "running p \<or> StateProbing \<notin> set (allowedTransitions (state p))")
  case True
  then show ?thesis using assms(1) by (auto simp: Start_probe_def Transition_eq)
next
  case False
  then have "\<not> running p" "StateProbing \<in> set (allowedTransitions (state p))" by auto
  then show ?thesis
    using assms unfolding probe_ok_def
    by (auto simp: Start_probe_def Transition_eq prepare_dialers_def factory_callbacks_def)
qed

text \<open>Bumping the epoch makes every discovery stale.\<close>

lemma count_above: "\<forall>e \<in> set ds. e \<le> (n::nat) \<Longrightarrow> count_list ds (Suc n) = 0"
  by (induction ds) auto


lemma probe_ok_redial:
  assumes "probe_ok env p1" "newIceDialer p1"
  defines "p2 \<equiv> p1\<lparr>world := (world p1)\<lparr>peerKnownDone := False\<rparr>, iceD := Some (fresh_ice env),
     relayD := (if newRelayDialer p1 then Some (fresh_relay env) else relayD p1), epoch := epoch p1 + 1\<rparr>"
  shows "probe_ok env ((transit StateFailed p2)\<lparr>running := False\<rparr>)"
proof -
  define q where "q = transit StateFailed p2"
  have p2: "sm p2 = sm p1" "currentTransport (world p2) = currentTransport (world p1)" "epoch p2 = Suc (epoch p1)"
    "discoveries p2 = discoveries p1" "restartInProgress p2 = restartInProgress p1" "iceD p2 \<noteq> None" "relayD p2 \<noteq> None"
    "\<not> crashed p2"
    using probe_okD(6) [OF assms(1,2)] by (simp_all add: p2_def)
  have cb: "callbacks (sm p2) = factory_callbacks env" using probe_okD(1) [OF assms(1)] p2 by simp
  have q: "currentTransport (world q) = currentTransport (world p1)" "epoch q = Suc (epoch p1)"
    "discoveries q = discoveries p1" "restartInProgress q = restartInProgress p1" "iceD q \<noteq> None" "relayD q \<noteq> None"
    "\<not> crashed q" "callbacks (sm q) = callbacks (sm p1)"
    using p2 transit_world(1) [OF cb, of StateFailed] by (simp_all add: q_def)
  have st: "state q \<notin> {StateProbing, StateICEReady, StateRelayReady}"
    using state_transit [of StateFailed p2] by (cases "state p2") (simp_all add: q_def)
  show ?thesis
    unfolding q_def [symmetric]
    by (rule probe_ok_connect [OF assms(1)])
      (use q st count_above [OF probe_okD(4) [OF assms(1)]] probe_okD(4) [OF assms(1)] in auto)
qed

lemma probe_ok_restart:
  assumes "probe_ok env p"
  shows "probe_ok env (restart env ext p)"
proof -
  define p1 where "p1 = cancelShadow env (cancelUpgrade False (stopLivenessTicker p))"
  have "probe_ok env (cancelUpgrade False (stopLivenessTicker p))"
    by (rule probe_ok_core [OF assms], rule same_core_trans [OF same_core_simps(2) same_core_simps(3)])
  then have p1: "probe_ok env p1" unfolding p1_def by (rule probe_ok_cancelShadow)
  show ?thesis
  proof (cases "newIceDialer p1")
    case True
    from probe_ok_Start [OF probe_ok_redial [OF p1 True]] True show ?thesis
      using probe_okD(2) [OF assms] by (simp add: restart_def Let_def p1_def [symmetric])
  next
    case False
    then show ?thesis using probe_okD(2) [OF assms] p1 by (simp add: restart_def Let_def p1_def [symmetric])
  qed
qed

lemma probe_ok_Close:
  assumes "probe_ok env p"
  shows "probe_ok env (Close_probe env p)"
proof -
  define p1 where "p1 = cancelShadow env ((cancelUpgrade True (stopLivenessTicker p))\<lparr>newShadow := False\<rparr>)"
  have "same_core p ((cancelUpgrade True (stopLivenessTicker p))\<lparr>newShadow := False\<rparr>)"
    by (rule same_core_trans [OF same_core_trans [OF same_core_simps(2) same_core_simps(3)] same_core_simps(14)])
  then have "probe_ok env p1" unfolding p1_def using assms by (intro probe_ok_cancelShadow) (rule probe_ok_core)
  then show ?thesis unfolding Close_probe_def Let_def p1_def [symmetric] by (simp add: probe_ok_def)
qed

lemma probe_ok_onSuccess:
  assumes "probe_ok env p" "state p = StateProbing"
    and "q = p\<lparr>running := False, discoveries := ds\<rparr>" "count_list ds (epoch p) = 0" "\<forall>e \<in> set ds. e \<le> epoch p"
  shows "probe_ok env (onSuccess env t q)"
proof -
  define r where "r = transit (if is_ICE t then StateICEReady else StateRelayReady) (set_transport t q)"
  have cb: "callbacks (sm (set_transport t q)) = factory_callbacks env"
    using probe_okD(1) [OF assms(1)] assms(3) by (simp add: set_transport_def)
  have st: "state r = (if is_ICE t then StateICEReady else StateRelayReady)"
    using assms(2,3) by (simp add: r_def state_transit set_transport_def)
  have tr: "currentTransport (world r) = Some t"
    using transit_world(1) [OF cb] by (simp add: r_def set_transport_def)
  have "probe_ok env r"
    by (rule probe_ok_connect [OF assms(1)], (use assms(3) in \<open>simp add: r_def set_transport_def\<close>)?)
      (use st tr assms probe_okD [OF assms(1)] in \<open>cases t; simp add: r_def set_transport_def\<close>)+
  moreover have "same_core r (onSuccess env t q)"
  proof (cases "is_ICE t")
    case True
    then show ?thesis
      unfolding onSuccess_def Let_def r_def
      by (simp only: if_True) (rule same_core_trans [OF same_core_trans [OF same_core_trans [OF same_core_simps(3)
            same_core_simps(6)] same_core_simps(7)] same_core_simps(1)])
  next
    case False
    then show ?thesis
      unfolding onSuccess_def Let_def r_def
      by (simp only: if_False) (rule same_core_trans [OF same_core_simps(5) same_core_simps(1)])
  qed
  ultimately show ?thesis by (rule probe_ok_core)
qed

text \<open>A finished discovery leaves Probing for Failed or Closed.\<close>

lemma probe_ok_to_failed:
  assumes "probe_ok env p" "state p = StateProbing"
    and "q = p\<lparr>running := False, discoveries := ds, firstFailureAt := f\<rparr>"
    and "count_list ds (epoch p) = 0" "\<forall>e \<in> set ds. e \<le> epoch p"
  shows "probe_ok env (transit StateFailed q)" "state (transit StateFailed q) = StateFailed"
proof -
  show st: "state (transit StateFailed q) = StateFailed" using assms(2,3) by (simp add: state_transit)
  show "probe_ok env (transit StateFailed q)"
    by (rule probe_ok_connect [OF assms(1)]) (use assms st probe_okD [OF assms(1)] in simp_all)
qed

lemma probe_ok_to_closed:
  assumes "probe_ok env p" "state p = StateFailed"
  shows "probe_ok env (transit StateClosed p)"
proof -
  have st: "state (transit StateClosed p) = StateClosed" using assms(2) by (simp add: state_transit)
  show ?thesis
    by (rule probe_ok_connect [OF assms(1)]) (use assms st probe_okD [OF assms(1)] in simp_all)
qed

lemma probe_ok_onFailure:
  assumes "probe_ok env p" "state p = StateProbing"
    and "q = p\<lparr>running := False, discoveries := ds\<rparr>" "count_list ds (epoch p) = 0" "\<forall>e \<in> set ds. e \<le> epoch p"
  shows "probe_ok env (onFailure env ext err q)"
proof -
  have f: "probe_ok env (transit StateFailed (q\<lparr>firstFailureAt := x\<rparr>)) \<and>
      state (transit StateFailed (q\<lparr>firstFailureAt := x\<rparr>)) = StateFailed" for x
    using probe_ok_to_failed [OF assms(1,2) _ assms(4,5), of "q\<lparr>firstFailureAt := x\<rparr>" x] assms(3) by simp
  have q: "q = q\<lparr>firstFailureAt := firstFailureAt q\<rparr>" by simp
  have g: "probe_ok env (transit StateFailed q) \<and> state (transit StateFailed q) = StateFailed" by (subst q, subst q) (rule f)
  have r: "probe_ok env r \<Longrightarrow> probe_ok env (r\<lparr>retries := n\<rparr>)" for r n by (erule probe_ok_core) simp
  have c: "probe_ok env (transit StateClosed (transit StateFailed (q\<lparr>firstFailureAt := x\<rparr>)))" for x
    using f probe_ok_to_closed by blast
  have d: "probe_ok env (transit StateClosed (transit StateFailed q))" using g probe_ok_to_closed by blast
  show ?thesis
    using c d r [OF conjunct1 [OF f]] r [OF conjunct1 [OF g]] probe_ok_restart [OF conjunct1 [OF f]]
    by (cases "err = ClosedError"; cases "firstFailureAt q") (simp_all add: onFailure_def Let_def)
qed

lemma count_remove1: "x \<in> set xs \<Longrightarrow> count_list (remove1 x xs) y = count_list xs y - (if x = y then 1 else 0)"
  by (induction xs) (auto simp: count_list_0_iff Suc_diff_Suc)

lemma probe_ok_done:
  assumes "probe_ok env p" "e \<in> set (discoveries p)"
  shows "probe_ok env (discover_done env ext e res p)"
proof (cases "epoch p = e")
  case True
  then have run: "running p" "count_list (discoveries p) (epoch p) = 1"
    using probe_okD(3) [OF assms(1)] assms(2) by (auto simp: count_list_0_iff split: if_splits)
  then have st: "state p = StateProbing" using probe_okD(5) [OF assms(1)] by simp
  let ?ds = "remove1 e (discoveries p)"
  have c: "count_list ?ds (epoch p) = 0"
    using run(2) True assms(2) by (simp add: count_remove1)
  have le: "\<forall>x \<in> set ?ds. x \<le> epoch p" using probe_okD(4) [OF assms(1)] set_remove1_subset by fastforce
  have eq: "p\<lparr>discoveries := ?ds, running := False\<rparr> = p\<lparr>running := False, discoveries := ?ds\<rparr>" by simp
  show ?thesis
    using True probe_ok_onFailure [OF assms(1) st eq c le] probe_ok_onSuccess [OF assms(1) st eq c le]
    by (cases res) (simp_all add: discover_done_def Let_def)
next
  case False
  let ?ds = "remove1 e (discoveries p)"
  have "count_list ?ds (epoch p) = count_list (discoveries p) (epoch p)" using False by (simp add: count_remove1)
  moreover have "\<forall>x \<in> set ?ds. x \<le> epoch p" using probe_okD(4) [OF assms(1)] set_remove1_subset by fastforce
  ultimately have "probe_ok env (p\<lparr>discoveries := ?ds\<rparr>)" using assms(1) by (simp add: probe_ok_def)
  moreover from this have "probe_ok env (p\<lparr>discoveries := ?ds, closedTransports := x\<rparr>)" for x
    by (rule probe_ok_core) (simp add: same_core_def)
  ultimately show ?thesis using False by (cases res) (simp_all add: discover_done_def Let_def)
qed

lemma probe_ok_received:
  assumes "probe_ok env p"
  shows "iceD p \<noteq> None \<Longrightarrow> probe_ok env (receive_peers env ps (p\<lparr>iceD := Some d\<rparr>))"
    and "relayD p \<noteq> None \<Longrightarrow> probe_ok env (receive_peers env ps (p\<lparr>relayD := Some e\<rparr>))"
  by (rule probe_ok_core [OF probe_ok_core [OF assms] same_core_receive]; simp add: same_core_def)+

lemma probe_ok_Handle:
  assumes "probe_ok env p"
  shows "probe_ok env (snd (Handle_probe env ext pkt p))"
  using assms probe_ok_shadowSignal [OF assms, of ext pkt] probe_ok_received [OF assms]
    probe_ok_restart [OF probe_ok_received(1) [OF assms]] probe_ok_restart [OF probe_ok_received(2) [OF assms]]
  by (cases "Dialer pkt"; cases "iceD p"; cases "relayD p") (simp_all add: Handle_probe_def Let_def case_prod_beta)

lemma probe_ok_guard: "probe_ok env p \<Longrightarrow> probe_ok env (snd (endpoint_guard_check env e stats p))"
proof (erule probe_ok_core)
  have "currentTransport (snd (set_endpoint env a ka w)) = currentTransport w" for a ka w by simp
  then show "same_core p (snd (endpoint_guard_check env e stats p))"
    by (simp add: same_core_def endpoint_guard_check_def reassertDirectEndpoint_def case_prod_beta
        split: option.split Transport.split)
qed

lemma probe_ok_Sync: "probe_ok env p \<Longrightarrow> probe_ok env (snd (SyncAllowedIPs env al p))"
  by (erule probe_ok_core) (simp add: same_core_def SyncAllowedIPs_def case_prod_beta)

subsection \<open>Runs\<close>

text \<open>
  Every way a probe changes between \<^verbatim>\<open>NewProbe\<close> and \<^verbatim>\<open>Close\<close>. A direct connection that wins after
  the relay was committed to switches the transport while the probe is still relayed in the same
  epoch; the case of a later epoch is treated apart below.
\<close>

inductive probe_step :: "probe_env \<Rightarrow> 'cand Probe \<Rightarrow> 'cand Probe \<Rightarrow> bool" for env where
  run_start: "newIceDialer p \<Longrightarrow> probe_step env p (Start_probe env ext p)"
| run_restart: "probe_step env p (restart env ext p)"
| run_retry: "retries p = Suc n \<Longrightarrow> probe_step env p (restart env ext (p\<lparr>retries := n\<rparr>))"
| run_done: "e \<in> set (discoveries p) \<Longrightarrow> probe_step env p (discover_done env ext e res p)"
| run_late_ice: "state p = StateRelayReady \<Longrightarrow> probe_step env p (handleUpgradeTransport addr p)"
| run_timer: "upgradeTimer p = Some (d, e) \<Longrightarrow> probe_step env p (tryUpgrade env ext attempt e p)"
| run_dialed: "i < length (shadows p) \<Longrightarrow> probe_step env p (shadow_dialed env i res p)"
| run_shadow_close: "i < length (shadows p) \<Longrightarrow> probe_step env p (Close_shadow env i p)"
| run_packet: "probe_step env p (snd (Handle_probe env ext pkt p))"
| run_guard: "e \<in> set (watchers p) \<Longrightarrow> probe_step env p (snd (endpoint_guard_check env e stats p))"
| run_sync: "probe_step env p (snd (SyncAllowedIPs env al p))"
| run_clock: "probe_step env p (p\<lparr>world := (world p)\<lparr>clock := now\<rparr>\<rparr>)"
| run_close: "probe_step env p (Close_probe env p)"

lemma probe_ok_step: "probe_step env p q \<Longrightarrow> probe_ok env p \<Longrightarrow> probe_ok env q"
proof (induction rule: probe_step.induct)
  case (run_retry p n ext)
  have "probe_ok env (p\<lparr>retries := n\<rparr>)" by (rule probe_ok_core [OF run_retry(2)]) simp
  then show ?case by (rule probe_ok_restart)
next
  case (run_clock p now)
  then show ?case by (rule probe_ok_core) (simp add: same_core_def)
qed (rule probe_ok_Start probe_ok_restart probe_ok_done probe_ok_upgrade probe_ok_tryUpgrade probe_ok_dialed
    probe_ok_Close_shadow probe_ok_Handle probe_ok_guard probe_ok_Sync probe_ok_Close; assumption)+

lemma probe_ok_new: "probe_ok env (NewProbe env m now)"
  by (simp add: probe_ok_def NewProbe_def OnTransition_def NewStateMachine_def factory_callbacks_def)

interpretation probe_run: inductive_invariant "\<lambda>p. \<exists>m now. p = NewProbe env m now" "probe_step env" "probe_ok env" for env
  by unfold_locales (blast intro: probe_ok_new, rule probe_ok_step)

subsection \<open>Background attempts leave the connection alone\<close>

definition same_connection :: "'cand Probe \<Rightarrow> 'cand Probe \<Rightarrow> bool" where
  "same_connection p q \<longleftrightarrow> sm q = sm p \<and> world q = world p \<and> iceD q = iceD p \<and> relayD q = relayD p \<and>
     epoch q = epoch p \<and> running q = running p \<and> discoveries q = discoveries p \<and> firstFailureAt q = firstFailureAt p \<and>
     newIceDialer q = newIceDialer p \<and> newRelayDialer q = newRelayDialer p \<and> restartInProgress q = restartInProgress p"

lemma same_connection_refl [simp]: "same_connection p p"
  by (simp add: same_connection_def)

lemma same_connection_trans: "same_connection p q \<Longrightarrow> same_connection q r \<Longrightarrow> same_connection p r"
  by (simp add: same_connection_def)

lemma same_connection_simps [simp]:
  "same_connection p (cancelUpgrade b p)" "same_connection p (armUpgradeLocked d p)" "same_connection p (scheduleUpgrade env p)"
  "same_connection p (clearShadow p)" "same_connection p (set_shadow i s p)" "same_connection p (snd (make_shadow env a e p))"
  "same_connection p (snd (adoptShadow i p))" "same_connection p (p\<lparr>upgradeTries := n\<rparr>)" "same_connection p (p\<lparr>shadow := x\<rparr>)"
  "same_connection p (stopLivenessTicker p)" "same_connection p (snd (shadow_handle ext i pkt p))"
  by (auto simp: same_connection_def cancelUpgrade_def armUpgradeLocked_def scheduleUpgrade_def clearShadow_def
      set_shadow_def make_shadow_def adoptShadow_def stopLivenessTicker_def shadow_handle_def case_prod_beta)

lemma same_connection_failed_result: "same_connection p (onShadowResult env e None p)"
  unfolding onShadowResult_def Let_def
  by (simp, intro impI, rule same_connection_trans [OF same_connection_simps(4) same_connection_simps(3)])

lemma same_connection_failed_finish: "same_connection p (finish env i None p)"
  unfolding finish_def
  by (simp, intro impI, rule same_connection_trans [OF same_connection_simps(5) same_connection_failed_result])

lemma same_connection_Close: "same_connection p (Close_shadow env i p)"
  unfolding Close_shadow_def by (rule same_connection_trans [OF same_connection_simps(5) same_connection_failed_finish])

lemma same_connection_dialed: "same_connection p (shadow_dialed env i None p)"
  unfolding shadow_dialed_def Let_def
  by (simp, rule same_connection_trans [OF same_connection_failed_finish same_connection_Close])

lemma same_connection_start: "same_connection p (start_shadow env ext i p)"
  unfolding start_shadow_def
  by (auto split: prod.split bool.split intro: same_connection_trans [OF same_connection_trans
        [OF same_connection_simps(5) same_connection_failed_finish] same_connection_Close])

lemma same_connection_begin: "same_connection p (beginUpgradeAttempt env ext a e p)"
proof -
  have "same_connection p (snd (adoptShadow i (snd (make_shadow env a (Some e) p))))" for i
    by (rule same_connection_trans [OF same_connection_simps(6) same_connection_simps(7)])
  then show ?thesis
    by (auto simp: beginUpgradeAttempt_def case_prod_beta Let_def
        intro: same_connection_trans [OF _ same_connection_Close] same_connection_trans [OF _ same_connection_start])
qed

lemma same_connection_try: "same_connection p (tryUpgrade env ext a e p)"
  unfolding tryUpgrade_def
  by (auto intro: same_connection_trans [OF same_connection_simps(8) same_connection_begin])

lemma same_connection_signal: "same_connection p (snd (handleShadowSignal env ext pkt p))"
proof -
  have "same_connection p (snd (adoptShadow i (snd (make_shadow env a None p))))" for i a
    by (rule same_connection_trans [OF same_connection_simps(6) same_connection_simps(7)])
  then show ?thesis
    by (auto simp: handleShadowSignal_def case_prod_beta Let_def split: option.split
        intro: same_connection_trans [OF _ same_connection_Close]
          same_connection_trans [OF same_connection_trans [OF _ same_connection_start] same_connection_simps(11)])
qed

lemma same_connection_cancel: "same_connection p (cancelShadow env p)"
  by (auto simp: cancelShadow_def split: option.split
      intro: same_connection_trans [OF same_connection_simps(9) same_connection_Close])

text \<open>What switching the transport of a relayed probe asks of the device.\<close>

lemma device_upgrade:
  assumes "callbacks (sm p) = factory_callbacks env" "state p = StateRelayReady" "e_present env"
  shows "device (conf (world (handleUpgradeTransport addr p))) =
    device (conf (world p)) @ [OpSetEndpoint (e_key env) addr 25 (remote_allowed (remotePeer (world p)))]"
proof -
  let ?p1 = "(set_transport (ICETransport addr) p)\<lparr>closedTransports := closedTransports p @
      (case currentTransport (world p) of Some old \<Rightarrow> [old] | None \<Rightarrow> [])\<rparr>"
  have cb: "callbacks (sm ?p1) = factory_callbacks env" using assms(1) by (simp add: set_transport_def)
  have "world (handleUpgradeTransport addr p) = world (transit StateICEReady ?p1)"
    by (simp add: handleUpgradeTransport_def startPathPing_def startEndpointGuard_def cancelUpgrade_def Let_def
        split: option.split Transport.split)
  moreover have "world (transit StateICEReady ?p1) =
      config_cb env StateRelayReady StateICEReady (signaler_cb StateRelayReady StateICEReady (world ?p1))"
    using world_transit [OF cb, of StateICEReady] assms(2) by (simp add: set_transport_def)
  ultimately show ?thesis
    using assms(3)
    by (simp add: config_cb_def set_endpoint_def SetEndpoint_def call_op_def keepaliveFor_def set_transport_def)
qed

subsection \<open>A restart\<close>

lemma restart_probing:
  assumes "probe_ok env p" "newIceDialer p" "state p \<noteq> StateClosed"
  shows "state (restart env ext p) = StateProbing" "firstFailureAt (restart env ext p) = firstFailureAt p"
    "epoch (restart env ext p) \<in> set (discoveries (restart env ext p))"
    "newIceDialer (restart env ext p)" "epoch (restart env ext p) = epoch p + 1"
proof -
  define p1 where "p1 = cancelShadow env (cancelUpgrade False (stopLivenessTicker p))"
  have "same_connection p p1"
    unfolding p1_def
    by (rule same_connection_trans [OF same_connection_trans [OF same_connection_simps(10) same_connection_simps(1)]
          same_connection_cancel])
  then have p1: "sm p1 = sm p" "newIceDialer p1" "firstFailureAt p1 = firstFailureAt p" "epoch p1 = epoch p"
    using assms(2) by (auto simp: same_connection_def)
  define p2 where "p2 = p1\<lparr>world := (world p1)\<lparr>peerKnownDone := False\<rparr>, iceD := Some (fresh_ice env),
     relayD := (if newRelayDialer p1 then Some (fresh_relay env) else relayD p1), epoch := epoch p1 + 1\<rparr>"
  define p3 where "p3 = (transit StateFailed p2)\<lparr>running := False\<rparr>"
  have "state p3 \<in> {StateFailed, StateCreated}"
    using assms(1,3) p1(1) state_transit [of StateFailed p2] by (cases "state p") (simp_all add: p3_def p2_def)
  then have "StateProbing \<in> set (allowedTransitions (state p3))" by auto
  moreover have "restart env ext p = Start_probe env ext p3"
    using probe_okD(2) [OF assms(1)] p1(2) by (simp add: restart_def Let_def p1_def [symmetric] p2_def p3_def)
  moreover have "\<not> running p3" "firstFailureAt p3 = firstFailureAt p" "newIceDialer p3" "epoch p3 = epoch p + 1"
    using p1 by (simp_all add: p3_def p2_def)
  ultimately show "state (restart env ext p) = StateProbing" "firstFailureAt (restart env ext p) = firstFailureAt p"
    "epoch (restart env ext p) \<in> set (discoveries (restart env ext p))" "newIceDialer (restart env ext p)"
    "epoch (restart env ext p) = epoch p + 1"
    by (simp_all add: Start_probe_def Transition_eq prepare_dialers_def)
qed

subsection \<open>The race\<close>

definition is_failed :: "time \<times> race_event \<Rightarrow> bool" where
  "is_failed ev = (case snd ev of Failed _ \<Rightarrow> True | _ \<Rightarrow> False)"

lemma discover_waits:
  "failed < n \<Longrightarrow> discover er n failed evs = None \<longleftrightarrow> list_all is_failed evs \<and> failed + length evs < n"
proof (induction er n failed evs rule: discover.induct)
  case (3 er n failed t err evs)
  then show ?case by (cases "failed + 1 = n") (auto simp: is_failed_def)
qed (auto simp: is_failed_def split: option.split)

subsection \<open>Properties\<close>


definition ex_out :: "string outside" where
  "ex_out = \<lparr>o_ice = ex_env, o_marshal = id, o_unmarshal = Some, o_takes = (\<lambda>_. True), o_send = True,
     o_relaySend = True, o_connected = True\<rparr>"

definition ex_new :: "string Probe" where
  "ex_new = NewProbe ex_penv NewPeerManager 0"

definition ex_probing :: "string Probe" where
  "ex_probing = Start_probe ex_penv ex_out ex_new"

definition ex_relayed :: "string Probe" where
  "ex_relayed = discover_done ex_penv ex_out 0 (Inr (RelayTransport ''r'')) ex_probing"

lemma ex_probing_simps:
  "state ex_probing = StateProbing" "discoveries ex_probing = [0]" "epoch ex_probing = 0" "newIceDialer ex_probing"
  "newShadow ex_probing" "shadow ex_probing = None" "shadows ex_probing = []"
  by (simp_all add: ex_probing_def ex_new_def Start_probe_def NewProbe_def Transition_eq OnTransition_def
      NewStateMachine_def prepare_dialers_def)

lemma ex_runs:
  "(probe_step ex_penv)\<^sup>*\<^sup>* ex_new ex_probing" "(probe_step ex_penv)\<^sup>*\<^sup>* ex_new ex_relayed"
proof -
  have 1: "probe_step ex_penv ex_new ex_probing"
    unfolding ex_probing_def by (rule run_start) (simp add: ex_new_def NewProbe_def)
  then show "(probe_step ex_penv)\<^sup>*\<^sup>* ex_new ex_probing" by blast
  have "probe_step ex_penv ex_probing ex_relayed"
    unfolding ex_relayed_def by (rule run_done) (simp add: ex_probing_simps)
  with 1 show "(probe_step ex_penv)\<^sup>*\<^sup>* ex_new ex_relayed" by (meson converse_rtranclp_into_rtranclp r_into_rtranclp)
qed

lemma ex_ok: "probe_ok ex_penv ex_probing" "probe_ok ex_penv ex_relayed"
  using ex_runs probe_run.reachable_inv unfolding ex_new_def by blast+

lemma ex_relayed_simps:
  "state ex_relayed = StateRelayReady" "epoch ex_relayed = 0" "newShadow ex_relayed" "shadow ex_relayed = None"
  "shadows ex_relayed = []" "newIceDialer ex_relayed"
  using ex_probing_simps
  by (simp_all add: ex_relayed_def discover_done_def onSuccess_def startLivenessTicker_def scheduleUpgrade_def
      armUpgradeLocked_def state_transit set_transport_def Let_def)


text \<open>
  C27. Upgrading is make-before-break. Starting a background attempt, answering its signaling and
  a failed outcome leave state machine, transport, dialers, epoch and WireGuard of the probe
  exactly as they were; and the switch of a relayed probe asks the device for one endpoint update
  and nothing else: the peer is not removed, added again or re-routed.
\<close>

theorem upgrade_make_before_break:
  assumes "q \<in> {tryUpgrade env ext a e p, shadow_dialed env i None p, snd (handleShadowSignal env ext pkt p)}"
  shows "same_connection p q \<and>
    (probe_ok env p \<and> state p = StateRelayReady \<and> e_present env \<longrightarrow>
       device (conf (world (handleUpgradeTransport addr p))) =
         device (conf (world p)) @ [OpSetEndpoint (e_key env) addr 25 (remote_allowed (remotePeer (world p)))])"
  using assms same_connection_try same_connection_dialed same_connection_signal device_upgrade [OF probe_okD(1)]
  by auto

theorem upgrade_make_before_break_witness:
  "same_connection ex_relayed (tryUpgrade ex_penv ex_out ''a1'' 0 ex_relayed) \<and>
   device (conf (world (handleUpgradeTransport ''1.2.3.4:5'' ex_relayed))) =
     device (conf (world ex_relayed)) @ [OpSetEndpoint ''k1'' ''1.2.3.4:5'' 25 (remote_allowed (remotePeer (world ex_relayed)))]"
  using upgrade_make_before_break [where q = "tryUpgrade ex_penv ex_out ''a1'' 0 ex_relayed" and p = ex_relayed
      and env = ex_penv and ext = ex_out and a = "''a1''" and e = 0 and addr = "''1.2.3.4:5''"]
    ex_ok(2) ex_relayed_simps(1)
  by (simp add: ex_penv_def)

text \<open>
  The race of the dialers: discovery returns exactly when some dialer succeeded, the context
  ended, or all of them failed; and a relay session gives way to a direct one that follows within
  half a second.
\<close>

lemma discover_race:
  assumes "0 < dialers"
  shows "(discover er dialers 0 evs = None \<longleftrightarrow> list_all is_failed evs \<and> length evs < dialers) \<and>
    (next_result evs = Some (t', ICETransport a) \<and> t' < t + 500 * Millisecond \<longrightarrow>
       discover er dialers 0 ((t, Result (RelayTransport r)) # evs) = (if er then Some (Inr (ICETransport a), False)
         else Some (Inr (RelayTransport r), False)))"
  using discover_waits [of 0 dialers er evs] assms by simp

text \<open>
  The late direct connection of a discovery that a restart has superseded is still installed:
  when it arrives while the new discovery runs and that one then ends on the relay, the probe is
  in the directly connected state with a relay transport.
\<close>

lemma late_ice_after_restart:
  assumes "probe_ok env p" and "state p = StateProbing"
    and "q = discover_done env ext (epoch p) (Inr (RelayTransport r)) (handleUpgradeTransport addr p)"
  shows "state q = StateICEReady \<and> currentTransport (world q) = Some (RelayTransport r)"
proof -
  have cb: "callbacks (sm (set_transport (ICETransport addr) p)) = factory_callbacks env"
    using probe_okD(1) [OF assms(1)] by (simp add: set_transport_def)
  define u where "u = handleUpgradeTransport addr p"
  have "same_core (transit StateICEReady (set_transport (ICETransport addr) p)) u"
    unfolding u_def by (rule upgrade_core [OF probe_okD(1) [OF assms(1)]])
  then have u: "state u = StateICEReady" "epoch u = epoch p" "callbacks (sm u) = factory_callbacks env"
    using state_transit [of StateICEReady "set_transport (ICETransport addr) p"] assms(2) probe_okD(1) [OF assms(1)]
    by (simp_all add: same_core_def set_transport_def)
  define v where "v = set_transport (RelayTransport r) (u\<lparr>discoveries := remove1 (epoch p) (discoveries u), running := False\<rparr>)"
  have cbv: "callbacks (sm v) = factory_callbacks env" using u(3) by (simp add: v_def set_transport_def)
  have "state (transit StateRelayReady v) = StateICEReady"
    "currentTransport (world (transit StateRelayReady v)) = Some (RelayTransport r)"
    using state_transit [of StateRelayReady v] u(1) transit_world(1) [OF cbv] by (simp_all add: v_def set_transport_def)
  then show ?thesis
    using u(2) unfolding assms(3) u_def [symmetric]
    by (simp add: discover_done_def onSuccess_def startLivenessTicker_def scheduleUpgrade_def armUpgradeLocked_def
        v_def [symmetric] Let_def)
qed

text \<open>
  The sixty seconds of failure are not counted from consecutive failures: a success does not
  clear the time of the first failure, so one failed discovery long after it closes the probe.
\<close>

lemma old_failure_closes_probe:
  assumes "probe_ok env p" "state p = StateProbing" "newIceDialer p" "firstFailureAt p = Some t0"
    and "connected = discover_done env ext (epoch p) (Inr t) p"
    and "again = restart env ext connected"
    and "late = again\<lparr>world := (world again)\<lparr>clock := now\<rparr>\<rparr>" "now - t0 \<ge> 60 * Second"
  shows "state connected \<in> {StateICEReady, StateRelayReady} \<and>
    state (discover_done env ext (epoch late) (Inl OtherError) late) = StateClosed"
proof -
  have "epoch p \<in> set (discoveries p)"
    using probe_okD(3,5) [OF assms(1)] assms(2) count_list_0_iff [of "discoveries p" "epoch p"] by auto
  then have c: "probe_ok env connected" unfolding assms(5) using assms(1) probe_ok_done by blast
  have cs: "state connected \<in> {StateICEReady, StateRelayReady}" "firstFailureAt connected = Some t0" "newIceDialer connected"
    using assms(2-4) unfolding assms(5)
    by (auto simp: discover_done_def onSuccess_def startLivenessTicker_def scheduleUpgrade_def armUpgradeLocked_def
        startPathPing_def startEndpointGuard_def cancelUpgrade_def state_transit set_transport_def Let_def
        split: option.split Transport.split)
  have a: "state again = StateProbing" "firstFailureAt again = Some t0"
    using restart_probing [OF c cs(3)] cs(1,2) unfolding assms(6) by auto
  have l: "state late = StateProbing" "firstFailureAt late = Some t0" "clock (world late) = now"
    using a by (simp_all add: assms(7))
  have "state (onFailure env ext OtherError q) = StateClosed"
    if "state q = StateProbing" "firstFailureAt q = Some t0" "clock (world q) = now" for q :: "'a Probe"
    using that assms(8) by (simp add: onFailure_def Let_def state_transit)
  then show ?thesis using l cs(1) by (simp add: discover_done_def Let_def)
qed

definition ex_again :: "string Probe" where
  "ex_again = restart ex_penv ex_out
     (discover_done ex_penv ex_out 0 (Inr (RelayTransport ''r'')) (ex_probing\<lparr>firstFailureAt := Some 0\<rparr>))"

text \<open>
  Dropping a duplicate attempt detaches the one in flight: closing the duplicate clears the
  probe's pointer although it was never adopted, so the running attempt gets no more signaling
  and a restart cannot cancel it.
\<close>

lemma duplicate_attempt_detaches:
  assumes "newShadow p" and "shadow p = Some j" and "j < length (shadows p)" and "\<not> s_closed (shadows p ! j)"
    and "q = beginUpgradeAttempt env ext a e p" and "Type ack = HANDSHAKE_ACK"
  shows "shadow q = None \<and> \<not> s_closed (shadows q ! j) \<and> handleShadowSignal env ext ack q = (Ok, q)"
proof -
  let ?n = "length (shadows p)"
  have "j \<noteq> ?n" using assms(3) by simp
  have sc: "shadow (scheduleUpgrade env r) = shadow r" "shadows (scheduleUpgrade env r) = shadows r" for r :: "'a Probe"
    by (simp_all add: scheduleUpgrade_def armUpgradeLocked_def)
  have "shadow q = None" "shadows q ! j = shadows p ! j"
    using assms(1-3) \<open>j \<noteq> ?n\<close> unfolding assms(5)
    by (simp_all add: beginUpgradeAttempt_def make_shadow_def adoptShadow_def Close_shadow_def finish_def set_shadow_def
        onShadowResult_def clearShadow_def close_once_def newShadowUpgrade_def nth_append Let_def sc)
  then show ?thesis using assms(4,6) by (simp add: handleShadowSignal_def)
qed

end
