(* ===== verification/ProbeFactory.thy ===== *)
theory ProbeFactory
  imports Probe
begin

text \<open>
  The table of probes of \<^verbatim>\<open>internal/server/transport/probe_factory.go\<close>: lookup and replacement,
  removal, the entry point of signaling packets and the reconciler. The peer store is shared by
  all probes: an operation on one probe sees the factory's store and gives it back. \<open>cfg\<close> builds
  the surroundings of a remote's probe, \<open>onMessage\<close> is the agent's handler of pushed
  configuration, and map iteration order is an argument.
\<close>

record 'cand ProbeFactory =
  probes :: "string \<rightharpoonup> PeerIdentity \<times> 'cand Probe"
  peerManager :: PeerManager
  f_now :: time

definition NewProbeFactory :: "PeerManager \<Rightarrow> time \<Rightarrow> 'cand ProbeFactory" where
  "NewProbeFactory m now = \<lparr>probes = Map.empty, peerManager = m, f_now = now\<rparr>"

text \<open>An operation on the probe of an application, under the shared store.\<close>

definition on_probe ::
  "(PeerIdentity \<Rightarrow> probe_env) \<Rightarrow> (probe_env \<Rightarrow> 'cand Probe \<Rightarrow> 'cand Probe) \<Rightarrow> string \<Rightarrow> 'cand ProbeFactory \<Rightarrow> 'cand ProbeFactory" where
  "on_probe cfg f app fac =
     (case probes fac app of
        None \<Rightarrow> fac
      | Some (rid, p) \<Rightarrow>
          (let p' = f (cfg rid) (p\<lparr>world := (world p)\<lparr>store := peerManager fac, clock := f_now fac\<rparr>\<rparr>)
           in fac\<lparr>probes := (probes fac)(app \<mapsto> (rid, p')), peerManager := store (world p')\<rparr>))"

definition Register_probe :: "PeerIdentity \<Rightarrow> 'cand Probe \<Rightarrow> 'cand ProbeFactory \<Rightarrow> 'cand ProbeFactory" where
  "Register_probe rid p fac = fac\<lparr>probes := (probes fac)(i_AppID rid \<mapsto> (rid, p))\<rparr>"

definition Get_probe :: "(PeerIdentity \<Rightarrow> probe_env) \<Rightarrow> PeerIdentity \<Rightarrow> 'cand ProbeFactory \<Rightarrow> 'cand ProbeFactory" where
  "Get_probe cfg rid fac =
     (case probes fac (i_AppID rid) of
        Some (_, p) \<Rightarrow>
          if state p \<noteq> StateClosed then fac
          else Register_probe rid (NewProbe (cfg rid) (peerManager fac) (f_now fac)) fac
      | None \<Rightarrow> Register_probe rid (NewProbe (cfg rid) (peerManager fac) (f_now fac)) fac)"

text \<open>The removed probe is closed after it has left the table.\<close>

definition Remove_probe ::
  "(PeerIdentity \<Rightarrow> probe_env) \<Rightarrow> string \<Rightarrow> 'cand ProbeFactory \<Rightarrow> 'cand Probe option \<times> 'cand ProbeFactory" where
  "Remove_probe cfg app fac =
     (map_option (\<lambda>(rid, p). Close_probe (cfg rid) p) (probes fac app), fac\<lparr>probes := map_del (probes fac) app\<rparr>)"

definition start_created ::
  "(PeerIdentity \<Rightarrow> probe_env) \<Rightarrow> 'cand outside \<Rightarrow> string \<Rightarrow> 'cand ProbeFactory \<Rightarrow> 'cand ProbeFactory" where
  "start_created cfg ext app fac =
     on_probe cfg (\<lambda>env p. if state p = StateCreated then Start_probe env ext p else p) app fac"

definition Handle_factory ::
  "(PeerIdentity \<Rightarrow> probe_env) \<Rightarrow> (string \<Rightarrow> bytes option) \<Rightarrow> (Message \<Rightarrow> outcome) option \<Rightarrow> 'cand outside \<Rightarrow>
   bytes \<Rightarrow> SignalPacket \<Rightarrow> 'cand ProbeFactory \<Rightarrow> outcome \<times> 'cand ProbeFactory" where
  "Handle_factory cfg ParseKey onMessage ext rid pkt fac =
     (if Type pkt = MESSAGE
      then
        (case onMessage of
           None \<Rightarrow> (Ok, fac)
         | Some h \<Rightarrow>
             (case GetMessage pkt of
                None \<Rightarrow> (Panic, fac)
              | Some content \<Rightarrow> (case content of Decoded msg \<Rightarrow> (h msg, fac) | _ \<Rightarrow> (Err, fac))))
      else
        (case GetIdentity ParseKey (peerManager fac) rid of
           None \<Rightarrow> (Ok, fac)
         | Some identity \<Rightarrow>
             (let app = i_AppID identity;
                  f1 = start_created cfg ext app (Get_probe cfg identity fac)
              in ((case probes f1 app of
                     Some (r, p) \<Rightarrow> fst (Handle_probe (cfg r) ext pkt
                                     (p\<lparr>world := (world p)\<lparr>store := peerManager f1, clock := f_now f1\<rparr>\<rparr>))
                   | None \<Rightarrow> Ok),
                  on_probe cfg (\<lambda>env p. snd (Handle_probe env ext pkt p)) app f1))))"

subsection \<open>Reconciler\<close>

definition action_of :: "'cand ProbeFactory \<Rightarrow> string \<Rightarrow> reconcileAction" where
  "action_of fac app =
     (case probes fac app of
        Some (_, p) \<Rightarrow> reconcileActionFor (state p) (startedAt p) (f_now fac)
      | None \<Rightarrow> reconcileNone)"

definition remote_of :: "'cand ProbeFactory \<Rightarrow> string \<Rightarrow> PeerIdentity" where
  "remote_of fac app = (case probes fac app of Some (rid, _) \<Rightarrow> rid | None \<Rightarrow> \<lparr>i_AppID = app, i_PublicKey = []\<rparr>)"

definition reconcile_start ::
  "(PeerIdentity \<Rightarrow> probe_env) \<Rightarrow> 'cand outside \<Rightarrow> PeerIdentity \<Rightarrow> 'cand ProbeFactory \<Rightarrow> 'cand ProbeFactory" where
  "reconcile_start cfg ext rid fac = on_probe cfg (\<lambda>env p. Start_probe env ext p) (i_AppID rid) fac"

definition reconcile_revive ::
  "(PeerIdentity \<Rightarrow> probe_env) \<Rightarrow> 'cand outside \<Rightarrow> PeerIdentity \<Rightarrow> 'cand ProbeFactory \<Rightarrow> 'cand ProbeFactory" where
  "reconcile_revive cfg ext rid fac =
     on_probe cfg (\<lambda>env p. Start_probe env ext p) (i_AppID rid) (Get_probe cfg rid fac)"

definition reconcile_stuck ::
  "(PeerIdentity \<Rightarrow> probe_env) \<Rightarrow> 'cand outside \<Rightarrow> PeerIdentity \<Rightarrow> 'cand ProbeFactory \<Rightarrow> 'cand ProbeFactory" where
  "reconcile_stuck cfg ext rid fac = on_probe cfg (\<lambda>env p. restart env ext p) (i_AppID rid) fac"

definition pending_for :: "reconcileAction \<Rightarrow> string list \<Rightarrow> 'cand ProbeFactory \<Rightarrow> PeerIdentity list" where
  "pending_for act order fac = map (remote_of fac) (filter (\<lambda>app. action_of fac app = act) order)"

definition reconcile_tick ::
  "(PeerIdentity \<Rightarrow> probe_env) \<Rightarrow> 'cand outside \<Rightarrow> string list \<Rightarrow> 'cand ProbeFactory \<Rightarrow> 'cand ProbeFactory" where
  "reconcile_tick cfg ext order fac =
     (let created = pending_for reconcileStart order fac;
          closed = pending_for reconcileRevive order fac;
          stuck = pending_for reconcileRestart order fac;
          f1 = fold (reconcile_start cfg ext) created fac;
          f2 = fold (reconcile_revive cfg ext) closed f1
      in fold (reconcile_stuck cfg ext) stuck f2)"

definition PeerConnectionStates :: "'cand ProbeFactory \<Rightarrow> string \<rightharpoonup> string" where
  "PeerConnectionStates fac app = map_option (\<lambda>(_, p). PeerState_String (state p)) (probes fac app)"

subsection \<open>Invariant\<close>

definition factory_ok :: "(PeerIdentity \<Rightarrow> probe_env) \<Rightarrow> 'cand ProbeFactory \<Rightarrow> bool" where
  "factory_ok cfg fac \<longleftrightarrow> (\<forall>app rid p. probes fac app = Some (rid, p) \<longrightarrow>
     i_AppID rid = app \<and> probe_ok (cfg rid) p \<and> newIceDialer p)"

lemma factory_okD:
  assumes "factory_ok cfg fac" "probes fac app = Some (rid, p)"
  shows "i_AppID rid = app" "probe_ok (cfg rid) p" "newIceDialer p"
  using assms by (auto simp: factory_ok_def)

lemma probe_ok_world:
  "probe_ok env p \<Longrightarrow> probe_ok env (p\<lparr>world := (world p)\<lparr>store := m, clock := t\<rparr>\<rparr>)"
  by (erule probe_ok_core) (simp add: same_core_def)

lemma probes_on_probe:
  "probes (on_probe cfg f app fac) a =
     (if a = app then map_option (\<lambda>(rid, p). (rid, f (cfg rid) (p\<lparr>world := (world p)\<lparr>store := peerManager fac, clock := f_now fac\<rparr>\<rparr>)))
        (probes fac app)
      else probes fac a)"
  by (simp add: on_probe_def Let_def split: option.split)

lemma factory_ok_on_probe:
  assumes "factory_ok cfg fac"
    and "\<And>env p. probe_ok env p \<Longrightarrow> newIceDialer p \<Longrightarrow> probe_ok env (f env p) \<and> newIceDialer (f env p)"
  shows "factory_ok cfg (on_probe cfg f app fac)"
  unfolding factory_ok_def
proof (intro allI impI)
  fix a rid q
  assume q: "probes (on_probe cfg f app fac) a = Some (rid, q)"
  show "i_AppID rid = a \<and> probe_ok (cfg rid) q \<and> newIceDialer q"
  proof (cases "a = app")
    case False
    then show ?thesis using q assms(1) by (simp add: probes_on_probe factory_ok_def)
  next
    case True
    then obtain p where p: "probes fac a = Some (rid, p)"
      "q = f (cfg rid) (p\<lparr>world := (world p)\<lparr>store := peerManager fac, clock := f_now fac\<rparr>\<rparr>)"
      using q by (auto simp: probes_on_probe)
    note ok = factory_okD [OF assms(1) p(1)]
    show ?thesis using ok(1,3) assms(2) [OF probe_ok_world [OF ok(2)]] p(2) by simp
  qed
qed

lemma newIce_Start [simp]: "newIceDialer (Start_probe env ext p) = newIceDialer p"
  by (simp add: Start_probe_def prepare_dialers_def split: sum.split prod.split)

lemma newIce_restart: "probe_ok env p \<Longrightarrow> newIceDialer p \<Longrightarrow> newIceDialer (restart env ext p)"
proof -
  assume p: "probe_ok env p" "newIceDialer p"
  have "same_connection p (cancelShadow env (cancelUpgrade False (stopLivenessTicker p)))"
    by (rule same_connection_trans [OF same_connection_trans [OF same_connection_simps(10) same_connection_simps(1)]
          same_connection_cancel])
  then show ?thesis using p probe_okD(2) [OF p(1)] by (simp add: restart_def Let_def same_connection_def)
qed

lemma newIce_Handle:
  assumes "probe_ok env p" "newIceDialer p"
  shows "newIceDialer (snd (Handle_probe env ext pkt p))"
proof -
  have n: "newIceDialer (receive_peers env ps q) = newIceDialer q" for ps and q :: "'a Probe" by (simp add: receive_peers_def)
  have "newIceDialer (snd (handleShadowSignal env ext pkt p))"
    using same_connection_signal [of p env ext pkt] assms(2) by (simp add: same_connection_def)
  then show ?thesis
    using assms(2) n newIce_restart [OF probe_ok_received(1) [OF assms(1)]] newIce_restart [OF probe_ok_received(2) [OF assms(1)]]
    by (cases "Dialer pkt"; cases "iceD p"; cases "relayD p") (simp_all add: Handle_probe_def Let_def case_prod_beta)
qed

lemma factory_ok_Get: "factory_ok cfg fac \<Longrightarrow> factory_ok cfg (Get_probe cfg rid fac)"
proof -
  have "probe_ok (cfg rid) (NewProbe (cfg rid) (peerManager fac) (f_now fac))" by (rule probe_ok_new)
  moreover have "newIceDialer (NewProbe (cfg rid) (peerManager fac) (f_now fac))" by (simp add: NewProbe_def)
  ultimately show "factory_ok cfg fac \<Longrightarrow> factory_ok cfg (Get_probe cfg rid fac)"
    by (auto simp: factory_ok_def Get_probe_def Register_probe_def split: option.split)
qed

lemma factory_ok_start: "factory_ok cfg fac \<Longrightarrow> factory_ok cfg (reconcile_start cfg ext rid fac)"
  unfolding reconcile_start_def by (erule factory_ok_on_probe) (simp add: probe_ok_Start)

lemma factory_ok_revive: "factory_ok cfg fac \<Longrightarrow> factory_ok cfg (reconcile_revive cfg ext rid fac)"
  unfolding reconcile_revive_def by (rule factory_ok_on_probe [OF factory_ok_Get]) (simp_all add: probe_ok_Start)

lemma factory_ok_stuck: "factory_ok cfg fac \<Longrightarrow> factory_ok cfg (reconcile_stuck cfg ext rid fac)"
  unfolding reconcile_stuck_def by (erule factory_ok_on_probe) (simp add: probe_ok_restart newIce_restart)

text \<open>A pass over a list of remotes touches each listed application once and no other.\<close>

lemma fold_untouched:
  assumes "\<And>rid fac. app \<noteq> i_AppID rid \<Longrightarrow> probes (g rid fac) app = probes fac app"
    and "app \<notin> i_AppID ` set rids"
  shows "probes (fold g rids fac) app = probes fac app"
  using assms(2) by (induction rids arbitrary: fac) (simp_all add: assms(1))

lemma fold_keeps: "(\<And>rid fac. P fac \<Longrightarrow> P (g rid fac)) \<Longrightarrow> P fac \<Longrightarrow> P (fold g rids fac)"
  by (induction rids arbitrary: fac) auto

lemma fold_touched:
  assumes "\<And>rid fac. app \<noteq> i_AppID rid \<Longrightarrow> probes (g rid fac) app = probes fac app"
    and "\<And>rid fac. P fac \<Longrightarrow> P (g rid fac)"
    and "\<And>fac. P fac \<Longrightarrow> probes fac app = x \<Longrightarrow> Q (probes (g r fac) app)"
    and "distinct (map i_AppID rids)" "r \<in> set rids" "i_AppID r = app" "P fac" "probes fac app = x"
  shows "Q (probes (fold g rids fac) app)"
  using assms(4-)
proof (induction rids arbitrary: fac)
  case (Cons r' rids)
  show ?case
  proof (cases "r' = r")
    case True
    then have "app \<notin> i_AppID ` set rids" using Cons.prems(1,3) by auto
    then have "probes (fold g rids (g r fac)) app = probes (g r fac) app" using assms(1) by (intro fold_untouched)
    then show ?thesis using True assms(3) Cons.prems(4,5) by simp
  next
    case False
    then have r: "r \<in> set rids" using Cons.prems(2) by simp
    then have "app \<noteq> i_AppID r'" using Cons.prems(1,3) by (auto simp: image_iff)
    then show ?thesis using r Cons.IH [of "g r' fac"] Cons.prems assms(1,2) by simp
  qed
qed simp

lemma untouched:
  "app \<noteq> i_AppID rid \<Longrightarrow> probes (reconcile_start cfg ext rid fac) app = probes fac app"
  "app \<noteq> i_AppID rid \<Longrightarrow> probes (reconcile_revive cfg ext rid fac) app = probes fac app"
  "app \<noteq> i_AppID rid \<Longrightarrow> probes (reconcile_stuck cfg ext rid fac) app = probes fac app"
  by (simp_all add: reconcile_start_def reconcile_revive_def reconcile_stuck_def probes_on_probe Get_probe_def
      Register_probe_def split: option.split)

lemma remote_of_app: "factory_ok cfg fac \<Longrightarrow> i_AppID (remote_of fac app) = app"
  by (auto simp: remote_of_def factory_ok_def split: option.split)

lemma pending_distinct:
  assumes "factory_ok cfg fac" "distinct order"
  shows "distinct (map i_AppID (pending_for act order fac))"
    and "i_AppID ` set (pending_for act order fac) = {app \<in> set order. action_of fac app = act}"
proof -
  have "map i_AppID (pending_for act order fac) = filter (\<lambda>app. action_of fac app = act) order"
    using remote_of_app [OF assms(1)] by (simp add: pending_for_def map_idI)
  then show "distinct (map i_AppID (pending_for act order fac))"
    "i_AppID ` set (pending_for act order fac) = {app \<in> set order. action_of fac app = act}"
    using assms(2) by (simp_all flip: set_map)
qed

lemma Start_probing:
  "\<not> running p \<Longrightarrow> state p \<in> {StateCreated, StateFailed} \<Longrightarrow> state (Start_probe env ext p) = StateProbing"
  by (auto simp: Start_probe_def Transition_eq prepare_dialers_def)

lemma live_discovery: "probe_ok env p \<Longrightarrow> state p = StateProbing \<Longrightarrow> epoch p \<in> set (discoveries p)"
  using probe_okD(3,5) [of env p] count_list_0_iff [of "discoveries p" "epoch p"] by auto

definition probing :: "(nat \<Rightarrow> bool) \<Rightarrow> (PeerIdentity \<times> 'cand Probe) option \<Rightarrow> bool" where
  "probing E x \<longleftrightarrow> (\<exists>r q. x = Some (r, q) \<and> state q = StateProbing \<and> E (epoch q))"

lemma probing_start:
  assumes "factory_ok cfg fac" "probes fac (i_AppID r) = Some (rid, p)" "state p = StateCreated"
  shows "probing (\<lambda>_. True) (probes (reconcile_start cfg ext r fac) (i_AppID r))"
proof -
  have "\<not> running p" using probe_okD(5) [OF factory_okD(2) [OF assms(1,2)]] assms(3) by simp
  then show ?thesis
    using assms(2,3) Start_probing [of "p\<lparr>world := (world p)\<lparr>store := peerManager fac, clock := f_now fac\<rparr>\<rparr>"]
    by (simp add: reconcile_start_def probes_on_probe probing_def)
qed

lemma probing_revive:
  assumes "probes fac (i_AppID r) = Some (rid, p)" "state p = StateClosed"
  shows "probing (\<lambda>_. True) (probes (reconcile_revive cfg ext r fac) (i_AppID r))"
proof -
  let ?n = "NewProbe (cfg r) (peerManager fac) (f_now fac) :: 'a Probe"
  have "\<not> running ?n" "state ?n = StateCreated"
    by (simp_all add: NewProbe_def OnTransition_def NewStateMachine_def)
  then show ?thesis
    using assms Start_probing [of "?n\<lparr>world := (world ?n)\<lparr>store := peerManager fac, clock := f_now fac\<rparr>\<rparr>"]
    by (simp add: reconcile_revive_def probes_on_probe probing_def Get_probe_def Register_probe_def)
qed

lemma probing_stuck:
  assumes "factory_ok cfg fac" "probes fac (i_AppID r) = Some (rid, p)" "state p = StateProbing"
  shows "probing (\<lambda>e. e = epoch p + 1) (probes (reconcile_stuck cfg ext r fac) (i_AppID r))"
  using restart_probing(1,5) [OF probe_ok_world [OF factory_okD(2) [OF assms(1,2)]]] assms factory_okD(3) [OF assms(1,2)]
  by (simp add: reconcile_stuck_def probes_on_probe probing_def)

lemma factory_ok_tick: "factory_ok cfg fac \<Longrightarrow> factory_ok cfg (reconcile_tick cfg ext order fac)"
  unfolding reconcile_tick_def Let_def
  by (intro fold_keeps [where P = "factory_ok cfg"]) (simp_all add: factory_ok_start factory_ok_revive factory_ok_stuck)

lemma pending_mem:
  assumes "app \<in> set order" "action_of fac app = act"
  shows "remote_of fac app \<in> set (pending_for act order fac)"
  using assms by (simp add: pending_for_def)

lemma tick_touches:
  assumes ok: "factory_ok cfg fac" and order: "distinct order" "app \<in> set order"
    and p: "probes fac app = Some (rid, p)" and act: "action_of fac app = act"
  shows "act = reconcileStart \<Longrightarrow> state p = StateCreated \<Longrightarrow> probing (\<lambda>_. True) (probes (reconcile_tick cfg ext order fac) app)"
    and "act = reconcileRevive \<Longrightarrow> state p = StateClosed \<Longrightarrow> probing (\<lambda>_. True) (probes (reconcile_tick cfg ext order fac) app)"
    and "act = reconcileRestart \<Longrightarrow> state p = StateProbing \<Longrightarrow>
      probing (\<lambda>e. e = epoch p + 1) (probes (reconcile_tick cfg ext order fac) app)"
proof -
  note pd = pending_distinct [OF ok order(1)]
  have un: "probes (fold (reconcile_start cfg ext) (pending_for a order fac) f) app = probes f app"
    "probes (fold (reconcile_revive cfg ext) (pending_for a order fac) f) app = probes f app"
    "probes (fold (reconcile_stuck cfg ext) (pending_for a order fac) f) app = probes f app" if "a \<noteq> act" for a f
    using that pd(2) [of a] act by (auto intro!: fold_untouched untouched)
  let ?r = "remote_of fac app"
  have r: "i_AppID ?r = app" "?r \<in> set (pending_for act order fac)"
    using remote_of_app [OF ok] pending_mem [OF order(2) act] by auto
  let ?f1 = "fold (reconcile_start cfg ext) (pending_for reconcileStart order fac) fac"
  let ?f2 = "fold (reconcile_revive cfg ext) (pending_for reconcileRevive order fac) ?f1"
  have ok1: "factory_ok cfg ?f1" by (rule fold_keeps [where P = "factory_ok cfg", OF factory_ok_start ok])
  have ok2: "factory_ok cfg ?f2" by (rule fold_keeps [where P = "factory_ok cfg", OF factory_ok_revive ok1])
  show "probing (\<lambda>_. True) (probes (reconcile_tick cfg ext order fac) app)" if c: "act = reconcileStart" "state p = StateCreated"
  proof -
    have "probing (\<lambda>_. True) (probes ?f1 app)"
    proof (rule fold_touched [where P = "factory_ok cfg" and x = "Some (rid, p)" and r = ?r])
      show "probing (\<lambda>_. True) (probes (reconcile_start cfg ext ?r f) app)"
        if "factory_ok cfg f" "probes f app = Some (rid, p)" for f
        using probing_start [of cfg f ?r rid p ext] r(1) that c(2) by simp
      show "?r \<in> set (pending_for reconcileStart order fac)" using r(2) c(1) by simp
    qed (simp_all add: untouched factory_ok_start pd(1) r(1) ok p)
    then show ?thesis using un c(1) by (simp add: reconcile_tick_def Let_def)
  qed
  show "probing (\<lambda>_. True) (probes (reconcile_tick cfg ext order fac) app)" if c: "act = reconcileRevive" "state p = StateClosed"
  proof -
    have f1: "probes ?f1 app = Some (rid, p)" using un(1) c(1) p by simp
    have "probing (\<lambda>_. True) (probes ?f2 app)"
    proof (rule fold_touched [where P = "factory_ok cfg" and x = "Some (rid, p)" and r = ?r])
      show "probing (\<lambda>_. True) (probes (reconcile_revive cfg ext ?r f) app)"
        if "factory_ok cfg f" "probes f app = Some (rid, p)" for f
        using probing_revive [of f ?r rid p cfg ext] r(1) that c(2) by simp
      show "?r \<in> set (pending_for reconcileRevive order fac)" using r(2) c(1) by simp
    qed (simp_all add: untouched factory_ok_revive pd(1) r(1) ok1 f1)
    then show ?thesis using un c(1) by (simp add: reconcile_tick_def Let_def)
  qed
  show "probing (\<lambda>e. e = epoch p + 1) (probes (reconcile_tick cfg ext order fac) app)"
    if c: "act = reconcileRestart" "state p = StateProbing"
    unfolding reconcile_tick_def Let_def
  proof (rule fold_touched [where P = "factory_ok cfg" and x = "Some (rid, p)" and r = ?r])
    show "probing (\<lambda>e. e = epoch p + 1) (probes (reconcile_stuck cfg ext ?r f) app)"
      if "factory_ok cfg f" "probes f app = Some (rid, p)" for f
      using probing_stuck [of cfg f ?r rid p ext] r(1) that c(2) by simp
    show "?r \<in> set (pending_for reconcileRestart order fac)" using r(2) c(1) by simp
    show "probes ?f2 app = Some (rid, p)" using un c(1) p by simp
  qed (simp_all add: untouched factory_ok_stuck pd(1) r(1) ok2)
qed

subsection \<open>Properties\<close>

text \<open>
  C29. The reconciler leaves no peer dark: after one tick every tracked probe that was never
  started, was closed, or has been probing for more than ninety seconds is probing with a live
  discovery, whatever order the table is walked in; in the last two cases with a fresh probe or a
  new epoch.
\<close>

theorem reconciler_revives:
  assumes "factory_ok cfg fac" and "distinct order" and "app \<in> set order"
    and "probes fac app = Some (rid, p)"
    and "state p \<in> {StateCreated, StateClosed} \<or>
      state p = StateProbing \<and> startedAt p > 0 \<and> f_now fac - startedAt p > 90 * Second"
  shows "\<exists>r q. probes (reconcile_tick cfg ext order fac) app = Some (r, q) \<and> state q = StateProbing \<and>
    epoch q \<in> set (discoveries q) \<and> (state p = StateProbing \<longrightarrow> epoch q = epoch p + 1)"
proof -
  have "probing (\<lambda>e. state p = StateProbing \<longrightarrow> e = epoch p + 1) (probes (reconcile_tick cfg ext order fac) app)"
    using assms(5) tick_touches [OF assms(1-4) refl, of ext] assms(4)
    by (auto simp: action_of_def reconcileActionFor_def probingStuckAfter_def)
  then obtain r q where "probes (reconcile_tick cfg ext order fac) app = Some (r, q)" "state q = StateProbing"
    "state p = StateProbing \<longrightarrow> epoch q = epoch p + 1" unfolding probing_def by blast
  then show ?thesis using live_discovery [OF factory_okD(2) [OF factory_ok_tick [OF assms(1)]]] by blast
qed

definition ex_cfg :: "PeerIdentity \<Rightarrow> probe_env" where
  "ex_cfg rid = ex_penv"

definition ex_rid :: PeerIdentity where
  "ex_rid = \<lparr>i_AppID = ''app'', i_PublicKey = []\<rparr>"

definition ex_fac :: "string ProbeFactory" where
  "ex_fac = Get_probe ex_cfg ex_rid (NewProbeFactory NewPeerManager 0)"

theorem reconciler_revives_witness:
  "\<exists>r q. probes (reconcile_tick ex_cfg ex_out [''app''] ex_fac) ''app'' = Some (r, q) \<and> state q = StateProbing"
proof -
  have ok: "factory_ok ex_cfg ex_fac"
    unfolding ex_fac_def by (rule factory_ok_Get) (simp add: factory_ok_def NewProbeFactory_def)
  have p: "probes ex_fac ''app'' = Some (ex_rid, NewProbe ex_penv NewPeerManager 0)"
    by (simp add: ex_fac_def Get_probe_def Register_probe_def NewProbeFactory_def ex_rid_def ex_cfg_def)
  have "state (NewProbe ex_penv NewPeerManager 0) = StateCreated"
    by (simp add: NewProbe_def OnTransition_def NewStateMachine_def)
  then show ?thesis using reconciler_revives [OF ok _ _ p, of "[''app'']" ex_out] by auto
qed

text \<open>
  Signaling reaches only probes of known peers, and every probe of the table stays well formed:
  a packet whose sender the store does not know changes nothing; one from a known sender finds or
  makes the sender's probe, touches no other, and keeps the lifecycle invariant of all probes.
\<close>

lemma factory_handle_known:
  assumes "factory_ok cfg fac" and "Type pkt \<noteq> MESSAGE"
    and "Handle_factory cfg ParseKey onMessage ext rid pkt fac = (res, fac')"
  shows "factory_ok cfg fac' \<and>
    (case GetIdentity ParseKey (peerManager fac) rid of
       None \<Rightarrow> fac' = fac \<and> res = Ok
     | Some identity \<Rightarrow> probes fac' (i_AppID identity) \<noteq> None \<and>
         (\<forall>app. app \<noteq> i_AppID identity \<longrightarrow> probes fac' app = probes fac app))"
proof (cases "GetIdentity ParseKey (peerManager fac) rid")
  case None
  then show ?thesis using assms by (simp add: Handle_factory_def)
next
  case (Some identity)
  let ?app = "i_AppID identity"
  define f1 where "f1 = start_created cfg ext ?app (Get_probe cfg identity fac)"
  have f1: "factory_ok cfg f1"
    unfolding f1_def start_created_def
    by (rule factory_ok_on_probe [OF factory_ok_Get [OF assms(1)]]) (simp add: probe_ok_Start)
  have "probes (Get_probe cfg identity fac) ?app \<noteq> None"
    by (simp add: Get_probe_def Register_probe_def split: option.split)
  then have p1: "probes f1 ?app \<noteq> None" by (auto simp: f1_def start_created_def probes_on_probe)
  have o1: "probes f1 app = probes fac app" if "app \<noteq> ?app" for app
    using that by (simp add: f1_def start_created_def probes_on_probe Get_probe_def Register_probe_def split: option.split)
  have f': "fac' = on_probe cfg (\<lambda>env p. snd (Handle_probe env ext pkt p)) ?app f1"
    using assms(2,3) Some by (simp add: Handle_factory_def Let_def f1_def [symmetric])
  have "factory_ok cfg fac'"
    unfolding f' by (rule factory_ok_on_probe [OF f1]) (simp add: probe_ok_Handle newIce_Handle)
  moreover have "probes fac' ?app \<noteq> None" using p1 by (auto simp: f' probes_on_probe)
  moreover have "probes fac' app = probes fac app" if "app \<noteq> ?app" for app
    using o1 that by (simp add: f' probes_on_probe)
  ultimately show ?thesis using Some by simp
qed

end
