(* ===== verification/Addresses.thy ===== *)
theory Addresses
  imports Prelude
begin

text \<open>
  IPv4 addresses as 32-bit words with the text forms of Go's \<^verbatim>\<open>net\<close> package: dotted decimal
  printing and parsing (no leading zeros in an octet), CIDR blocks, masks. \<open>ParseCIDR\<close> covers IPv4
  text; IPv6 blocks are outside the model.
\<close>

subsection \<open>Decimal numbers\<close>

fun Itoa :: "nat \<Rightarrow> string" where
  "Itoa n = (if n < 10 then [char_of (48 + n)] else Itoa (n div 10) @ [char_of (48 + n mod 10)])"

declare Itoa.simps [simp del]

definition is_digit :: "char \<Rightarrow> bool" where
  "is_digit c \<longleftrightarrow> 48 \<le> (of_char c :: nat) \<and> (of_char c :: nat) \<le> 57"

definition Atoi :: "string \<Rightarrow> nat" where
  "Atoi s = foldl (\<lambda>n c. 10 * n + (of_char c - 48)) 0 s"

lemma of_char_digit: "d < 10 \<Longrightarrow> of_char (char_of (48 + d) :: char) = 48 + d" for d :: nat
  by simp

lemma digit_char: "d < 10 \<Longrightarrow> is_digit (char_of (48 + d :: nat))"
  by (simp add: is_digit_def)

lemma Atoi_append: "Atoi (s @ [c]) = 10 * Atoi s + (of_char c - 48)"
  by (simp add: Atoi_def)

lemma Itoa_less [simp]: "n < 10 \<Longrightarrow> Itoa n = [char_of (48 + n)]"
  by (simp add: Itoa.simps)

lemma Itoa_ge: "\<not> n < 10 \<Longrightarrow> Itoa n = Itoa (n div 10) @ [char_of (48 + n mod 10)]"
  by (subst Itoa.simps) simp

lemma Itoa_not_Nil [simp]: "Itoa n \<noteq> []"
  by (cases "n < 10") (simp_all add: Itoa_ge)

lemma Atoi_Itoa [simp]: "Atoi (Itoa n) = n"
proof (induction n rule: less_induct)
  case (less n)
  show ?case
  proof (cases "n < 10")
    case True
    then show ?thesis by (simp add: Atoi_def)
  next
    case False
    then have "Atoi (Itoa (n div 10)) = n div 10" by (intro less) simp
    then show ?thesis using False by (simp add: Itoa_ge Atoi_append)
  qed
qed

lemma Itoa_digits: "\<forall>c \<in> set (Itoa n). is_digit c"
proof (induction n rule: less_induct)
  case (less n)
  show ?case
  proof (cases "n < 10")
    case False
    then have "\<forall>c \<in> set (Itoa (n div 10)). is_digit c" by (intro less) simp
    then show ?thesis using False digit_char [of "n mod 10"] by (simp add: Itoa_ge)
  qed (simp add: digit_char)
qed

lemma Itoa_length: "n < 10 ^ Suc k \<Longrightarrow> length (Itoa n) \<le> Suc k"
proof (induction k arbitrary: n)
  case (Suc k)
  show ?case
  proof (cases "n < 10")
    case False
    then have "length (Itoa (n div 10)) \<le> Suc k" using Suc.prems by (intro Suc.IH) (simp add: div_less_iff_less_mult)
    then show ?thesis using False by (simp add: Itoa_ge)
  qed simp
qed simp

lemma Itoa_long: "\<not> n < 10 \<Longrightarrow> 2 \<le> length (Itoa n)"
  using Itoa_not_Nil [of "n div 10"] by (cases "Itoa (n div 10)") (auto simp: Itoa_ge)

lemma Itoa_no_leading_zero: "Itoa n = c # s \<Longrightarrow> s \<noteq> [] \<Longrightarrow> of_char c \<noteq> (48 :: nat)"
proof (induction n arbitrary: c s rule: less_induct)
  case (less n)
  then have n: "\<not> n < 10" by auto
  show ?case
  proof (cases "n div 10 < 10")
    case True
    then have "c = char_of (48 + n div 10)" using less.prems n by (simp add: Itoa_ge)
    then show ?thesis using True n by (simp add: of_char_digit)
  next
    case False
    then obtain d t where dt: "Itoa (n div 10) = d # t" "t \<noteq> []"
      using Itoa_long [OF False] by (cases "Itoa (n div 10)"; cases "tl (Itoa (n div 10))") auto
    then have "c = d" using less.prems(1) n by (simp add: Itoa_ge)
    then show ?thesis using less.IH [OF _ dt] n by simp
  qed
qed

subsection \<open>Dotted decimal\<close>

definition octets :: "32 word \<Rightarrow> nat list" where
  "octets a = map unat (put_be32 a)"

definition IP_String :: "32 word \<Rightarrow> string" where
  "IP_String a = Join (CHR ''.'') (map Itoa (octets a))"

definition octet_ok :: "string \<Rightarrow> bool" where
  "octet_ok s \<longleftrightarrow> s \<noteq> [] \<and> length s \<le> 3 \<and> list_all is_digit s \<and> Atoi s \<le> 255 \<and>
     (length s > 1 \<longrightarrow> of_char (hd s) \<noteq> (48 :: nat))"

definition ParseIP :: "string \<Rightarrow> 32 word option" where
  "ParseIP s =
     (let ps = Split (CHR ''.'') s
      in if length ps = 4 \<and> list_all octet_ok ps then Some (be32 (map (\<lambda>p. of_nat (Atoi p)) ps)) else None)"

text \<open>The part before the first slash, and the prefix length after it.\<close>

definition ParseCIDR :: "string \<Rightarrow> (32 word \<times> nat) option" where
  "ParseCIDR s =
     (let a = takeWhile (\<lambda>c. c \<noteq> CHR ''/'') s; m = drop (length a + 1) s
      in if CHR ''/'' \<in> set s \<and> m \<noteq> [] \<and> list_all is_digit m \<and> Atoi m \<le> 32
         then map_option (\<lambda>ip. (ip, Atoi m)) (ParseIP a) else None)"

lemma octet_ok_Itoa: "n < 256 \<Longrightarrow> octet_ok (Itoa n)"
proof -
  assume n: "n < 256"
  have "length (Itoa n) \<le> Suc 2" by (rule Itoa_length) (use n in simp)
  moreover have "length (Itoa n) > 1 \<longrightarrow> of_char (hd (Itoa n)) \<noteq> (48 :: nat)"
    using Itoa_no_leading_zero [of n] by (cases "Itoa n") auto
  ultimately show ?thesis
    using n Itoa_digits [of n] by (simp add: octet_ok_def list_all_iff numeral_3_eq_3 numeral_2_eq_2)
qed

lemma dot_not_digit: "CHR ''.'' \<notin> set (Itoa n)" "CHR ''/'' \<notin> set (Itoa n)"
  using Itoa_digits [of n] by (auto simp: is_digit_def)

lemma Split_IP_String: "Split (CHR ''.'') (IP_String a) = map Itoa (octets a)"
  unfolding IP_String_def by (rule Split_Join) (auto simp: octets_def put_be32_def put_le32_def dot_not_digit)

lemma octets_bound: "x \<in> set (octets a) \<Longrightarrow> x < 256"
proof -
  have "unat (b :: byte) < 256" for b using unsigned_less [of b] by simp
  then show "x \<in> set (octets a) \<Longrightarrow> x < 256" by (auto simp: octets_def)
qed

lemma ParseIP_String [simp]: "ParseIP (IP_String a) = Some a"
proof -
  have "list_all octet_ok (map Itoa (octets a))" by (auto simp: list_all_iff octets_bound octet_ok_Itoa)
  moreover have "map (\<lambda>p. of_nat (Atoi p)) (map Itoa (octets a)) = put_be32 a" by (simp add: octets_def comp_def)
  moreover have "length (map Itoa (octets a)) = 4" by (simp add: octets_def)
  ultimately show ?thesis by (simp add: ParseIP_def Split_IP_String Let_def)
qed

lemma IP_String_inject: "IP_String a = IP_String b \<longleftrightarrow> a = b"
  by (metis ParseIP_String option.inject)

subsection \<open>Hexadecimal names\<close>

definition hexdigit :: "nat \<Rightarrow> char" where
  "hexdigit n = (if n < 10 then char_of (48 + n) else char_of (87 + n))"

definition hex_byte :: "byte \<Rightarrow> string" where
  "hex_byte b = [hexdigit (unat b div 16), hexdigit (unat b mod 16)]"

definition hex_bytes :: "bytes \<Rightarrow> string" where
  "hex_bytes bs = concat (map hex_byte bs)"

lemma hexdigit_inject:
  assumes "m < 16" and "n < 16" and "hexdigit m = hexdigit n"
  shows "m = n"
proof -
  have code: "(of_char (hexdigit k) :: nat) = (if k < 10 then 48 + k else 87 + k)" if "k < 16" for k
    using that by (simp add: hexdigit_def)
  have "(of_char (hexdigit m) :: nat) = of_char (hexdigit n)" by (simp only: assms(3))
  then show ?thesis using code [OF assms(1)] code [OF assms(2)] by (auto split: if_splits)
qed

lemma hex_byte_inject [simp]: "hex_byte b = hex_byte c \<longleftrightarrow> b = c"
proof
  assume eq: "hex_byte b = hex_byte c"
  have lt: "unat x div 16 < 16" "unat x mod 16 < 16" for x :: byte
    using unsigned_less [of x] by (simp_all add: div_less_iff_less_mult)
  from eq have "unat b div 16 = unat c div 16" "unat b mod 16 = unat c mod 16"
    by (auto simp: hex_byte_def intro: hexdigit_inject lt)
  then have "unat b = unat c" by (metis div_mult_mod_eq)
  then show "b = c" by (simp add: unsigned_word_eqI)
qed simp

lemma hex_bytes_inject: "length bs = length cs \<Longrightarrow> hex_bytes bs = hex_bytes cs \<longleftrightarrow> bs = cs"
  by (induction bs cs rule: list_induct2) (auto simp: hex_bytes_def hex_byte_def simp flip: hex_byte_inject)

subsection \<open>Masks\<close>

text \<open>\<^verbatim>\<open>ip.Mask(CIDRMask(ones, 32))\<close>.\<close>

definition Mask :: "32 word \<Rightarrow> nat \<Rightarrow> 32 word" where
  "Mask ip ones = ip AND NOT (mask (32 - ones))"

definition Contains :: "32 word \<times> nat \<Rightarrow> 32 word \<Rightarrow> bool" where
  "Contains net ip \<longleftrightarrow> Mask ip (snd net) = Mask (fst net) (snd net)"

lemma Mask_shift: "Mask ip ones = push_bit (32 - ones) (drop_bit (32 - ones) ip)"
  by (rule bit_word_eqI) (auto simp: Mask_def bit_simps)

lemma unat_Mask: "unat (Mask ip ones) = unat ip div 2 ^ (32 - ones) * 2 ^ (32 - ones)"
proof -
  have le: "unat ip div 2 ^ (32 - ones) * 2 ^ (32 - ones) \<le> unat ip" by (rule div_times_less_eq_dividend)
  have lt: "unat ip < 2 ^ 32" using unsigned_less [of ip] by simp
  with le have "unat ip div 2 ^ (32 - ones) * 2 ^ (32 - ones) < 2 ^ 32" by linarith
  moreover have "unat (Mask ip ones) = take_bit 32 (push_bit (32 - ones) (drop_bit (32 - ones) (unat ip)))"
    by (simp only: Mask_shift unsigned_push_bit_eq unsigned_drop_bit_eq)
      (simp add: take_bit_nat_eq_self [OF lt])
  ultimately show ?thesis by (simp add: push_bit_eq_mult drop_bit_eq_div take_bit_nat_eq_self)
qed

lemma Contains_unat:
  "Contains (b, ones) ip \<longleftrightarrow> unat ip div 2 ^ (32 - ones) = unat b div 2 ^ (32 - ones)"
proof -
  have "Mask ip ones = Mask b ones \<longleftrightarrow> unat (Mask ip ones) = unat (Mask b ones)"
    by (simp add: word_unat_eq_iff)
  then show ?thesis by (simp add: Contains_def unat_Mask)
qed

lemma Mask_block: "unat (Mask ip ones) + 2 ^ (32 - ones) \<le> 2 ^ 32"
proof -
  let ?p = "2 ^ (32 - ones) :: nat"
  have "unat ip < 2 ^ 32" using unsigned_less [of ip] by simp
  also have "(2 :: nat) ^ 32 = 2 ^ (32 - (32 - ones)) * ?p" by (simp flip: power_add)
  finally have "unat ip div ?p < 2 ^ (32 - (32 - ones))" by (simp add: div_less_iff_less_mult)
  then have "(unat ip div ?p + 1) * ?p \<le> 2 ^ (32 - (32 - ones)) * ?p" by (intro mult_right_mono) auto
  then show ?thesis by (simp add: unat_Mask algebra_simps flip: power_add)
qed

end
