(* ===== verification/Overlay6.thy ===== *)
theory Overlay6
  imports Addresses PeerWiring
begin

text \<open>
  The overlay IPv6 address of a node, \<^verbatim>\<open>internal/overlay6/overlay6.go\<close>: the network's prefix with
  the node's IPv4 address as its low 32 bits. An address is its four or sixteen bytes. The functions
  that parse IPv6 text are not modelled.
\<close>

datatype Addr = A4 "32 word" | A6 bytes

definition Is4In6 :: "bytes \<Rightarrow> bool" where
  "Is4In6 b \<longleftrightarrow> take 12 b = [0, 0, 0, 0, 0, 0, 0, 0, 0, 0, 0xFF, 0xFF]"

definition masked_byte :: "nat \<Rightarrow> nat \<Rightarrow> byte \<Rightarrow> byte" where
  "masked_byte bits i b = b AND NOT (mask (8 - min 8 (bits - 8 * i)))"

definition Masked :: "bytes \<Rightarrow> nat \<Rightarrow> bytes" where
  "Masked b bits = map (\<lambda>i. masked_byte bits i (b ! i)) [0..<length b]"

definition DefaultPrefix :: "bytes \<times> nat" where
  "DefaultPrefix = ([0xFD, 0x6C, 0x72, 0x70, 0x6C, 0x74, 0, 0, 0, 0, 0, 0, 0, 0, 0, 0], 64)"

definition FromV4 :: "Addr \<times> nat \<Rightarrow> Addr \<Rightarrow> bytes option" where
  "FromV4 prefix v4 =
     (case prefix of
        (A4 _, _) \<Rightarrow> None
      | (A6 b, bits) \<Rightarrow>
          if Is4In6 b \<or> bits > 96 then None
          else (case v4 of A6 _ \<Rightarrow> None | A4 a \<Rightarrow> Some (take 12 (Masked b bits) @ put_be32 a)))"

text \<open>Of \<^verbatim>\<open>netip.ParseAddr\<close> only the IPv4 results matter here: everything else is refused.\<close>

definition Derive :: "string \<Rightarrow> string option" where
  "Derive v4 =
     (case ParseIP (TrimSpace v4) of
        None \<Rightarrow> None
      | Some a \<Rightarrow> map_option Addr_String (FromV4 (A6 (fst DefaultPrefix), snd DefaultPrefix) (A4 a)))"

definition GatewayAddr :: bytes where
  "GatewayAddr = (Masked (fst DefaultPrefix) (snd DefaultPrefix))[15 := 1]"

definition Contains6 :: "bytes \<Rightarrow> bool" where
  "Contains6 b \<longleftrightarrow> Masked b (snd DefaultPrefix) = Masked (fst DefaultPrefix) (snd DefaultPrefix)"

definition HostAllowedIPs :: "string \<Rightarrow> bool \<Rightarrow> string" where
  "HostAllowedIPs v4 dual =
     (case ParseIP (TrimSpace v4) of
        None \<Rightarrow> ''''
      | Some a \<Rightarrow>
          IP_String a @ ''/32'' @
          (if dual then (case Derive v4 of None \<Rightarrow> '''' | Some v6 \<Rightarrow> '','' @ v6 @ ''/128'') else ''''))"

subsection \<open>Lemmas\<close>

lemma length_Masked [simp]: "length (Masked b n) = length b"
  by (simp add: Masked_def)

lemma masked_byte_simps [simp]: "8 * i + 8 \<le> bits \<Longrightarrow> masked_byte bits i b = b" "bits \<le> 8 * i \<Longrightarrow> masked_byte bits i b = 0"
proof -
  have "NOT (mask 8 :: byte) = 0" by (rule bit_word_eqI) (simp add: bit_simps)
  then show "bits \<le> 8 * i \<Longrightarrow> masked_byte bits i b = 0" by (simp add: masked_byte_def)
qed (simp add: masked_byte_def)

lemma Masked_64: "length b = 16 \<Longrightarrow> Masked b 64 = take 8 b @ [0, 0, 0, 0, 0, 0, 0, 0]"
  by (rule nth_equalityI) (auto simp: Masked_def nth_append less_Suc_eq numeral_nat)

lemma DefaultPrefix_masked [simp]: "Masked (fst DefaultPrefix) (snd DefaultPrefix) = fst DefaultPrefix"
  by (simp add: DefaultPrefix_def Masked_64)

lemma FromV4_default: "FromV4 (A6 (fst DefaultPrefix), snd DefaultPrefix) (A4 a) =
    Some ([0xFD, 0x6C, 0x72, 0x70, 0x6C, 0x74, 0, 0, 0, 0, 0, 0] @ put_be32 a)"
proof -
  have "take 12 (fst DefaultPrefix) = [0xFD, 0x6C, 0x72, 0x70, 0x6C, 0x74, 0, 0, 0, 0, 0, 0]"
    by (simp add: DefaultPrefix_def)
  moreover have "\<not> Is4In6 (fst DefaultPrefix)" "snd DefaultPrefix \<le> 96"
    by (simp_all add: Is4In6_def DefaultPrefix_def)
  ultimately show ?thesis by (simp add: FromV4_def)
qed

text \<open>The derivation is one to one, stays in the prefix and avoids the gateway address of 0.0.0.1.\<close>

lemma overlay6_injective:
  "FromV4 (A6 (fst DefaultPrefix), snd DefaultPrefix) (A4 a) = FromV4 (A6 (fst DefaultPrefix), snd DefaultPrefix) (A4 b) \<longleftrightarrow> a = b"
  unfolding FromV4_default by (metis append_same_eq be32_put option.inject same_append_eq)

lemma overlay6_inside:
  assumes "FromV4 (A6 (fst DefaultPrefix), snd DefaultPrefix) (A4 a) = Some v6"
  shows "length v6 = 16 \<and> Contains6 v6 \<and> (v6 = GatewayAddr \<longleftrightarrow> a = 1)"
proof -
  have v6: "v6 = [0xFD, 0x6C, 0x72, 0x70, 0x6C, 0x74, 0, 0, 0, 0, 0, 0] @ put_be32 a" using assms by (simp add: FromV4_default)
  have g: "GatewayAddr = [0xFD, 0x6C, 0x72, 0x70, 0x6C, 0x74, 0, 0, 0, 0, 0, 0] @ put_be32 1"
    by (simp add: GatewayAddr_def) (simp add: DefaultPrefix_def put_be32_def put_le32_def)
  have "put_be32 a = put_be32 1 \<longleftrightarrow> a = 1" by (metis be32_put)
  moreover have "Contains6 v6"
    unfolding Contains6_def DefaultPrefix_masked
    by (simp add: v6 Masked_64 DefaultPrefix_def put_be32_def put_le32_def)
  ultimately show ?thesis unfolding g v6 by simp
qed

end
