(* ===== verification/ExitTakeover.thy ===== *)
theory ExitTakeover
  imports Prelude
begin

text \<open>
  The consumer side of exit nodes: the policy-routing commands of
  \<^verbatim>\<open>internal/agent/netstate\<close>, the data-path gate of
  \<^verbatim>\<open>internal/agent/exit_gate.go\<close>, and the part of the message handler
  (\<^verbatim>\<open>internal/agent/message_handler.go\<close>) that installs and removes the takeover. The kernel is a record of
  routing rules, routes, chains and jumps; each shell command has an outcome, which is an argument.
\<close>

subsection \<open>Commands\<close>

definition RouteTable :: nat where
  "RouteTable = 5180"

definition RulePrioSelf :: nat where
  "RulePrioSelf = 4500"

definition RulePrioLAN :: nat where
  "RulePrioLAN = 5170"

definition RulePrioTunnel :: nat where
  "RulePrioTunnel = 5180"

definition ChainForward :: string where
  "ChainForward = ''LATTICE-FORWARD''"

definition ChainNAT :: string where
  "ChainNAT = ''LATTICE-NAT''"

definition ChainIngress :: string where
  "ChainIngress = ''LATTICE-INGRESS''"

definition ChainEgress :: string where
  "ChainEgress = ''LATTICE-EGRESS''"

datatype rule_action =
    LookupMain
  | LookupMainSuppressDefault
  | LookupTable nat

record ip_rule =
  priority :: nat
  uid_root :: bool
  action :: rule_action

text \<open>
  A command is the shell line the code runs. The jump of a chain carries the interface qualifier it
  was attached with, which is empty for a plain jump.
\<close>

datatype command =
    RuleAdd ip_rule
  | RouteReplace string string nat
  | RuleDel nat
  | FlushTable nat
  | DetachJump string string string string
  | FlushChain string string
  | DeleteChain string string

definition ExitTakeoverCommands :: "string \<Rightarrow> command list" where
  "ExitTakeoverCommands iface =
     [RuleAdd \<lparr>priority = RulePrioSelf, uid_root = True, action = LookupMain\<rparr>,
      RuleAdd \<lparr>priority = RulePrioLAN, uid_root = False, action = LookupMainSuppressDefault\<rparr>,
      RuleAdd \<lparr>priority = RulePrioTunnel, uid_root = False, action = LookupTable RouteTable\<rparr>,
      RouteReplace ''0.0.0.0/1'' iface RouteTable,
      RouteReplace ''128.0.0.0/1'' iface RouteTable]"

definition ExitTakeoverRemoveCommands :: "command list" where
  "ExitTakeoverRemoveCommands =
     [RuleDel RulePrioTunnel, RuleDel RulePrioLAN, RuleDel RulePrioSelf, FlushTable RouteTable]"

definition sweep :: "string \<times> string \<times> string \<times> string \<Rightarrow> command list" where
  "sweep c =
     (case c of (chain, parent, table, qualified) \<Rightarrow>
        DetachJump table parent [] chain
        # (if qualified \<noteq> [] then [DetachJump table parent qualified chain] else [])
        @ [FlushChain table chain, DeleteChain table chain])"

definition CleanupCommands :: "command list" where
  "CleanupCommands =
     ExitTakeoverRemoveCommands
     @ concat (map sweep
         [(ChainIngress, ''INPUT'', ''filter'', ''-i wf0''),
          (ChainEgress, ''OUTPUT'', ''filter'', ''-o wf0''),
          (ChainForward, ''FORWARD'', ''filter'', []),
          (ChainNAT, ''POSTROUTING'', ''nat'', [])])"

subsection \<open>Kernel\<close>

text \<open>
  The rules in the order they were added, the routes of the numbered tables, the jumps of the
  built-in chains (with repetitions) and the rules of the user chains.
\<close>

record kernel =
  k_rules :: "ip_rule list"
  k_routes :: "(nat \<times> string \<times> string) list"
  k_jumps :: "(string \<times> string \<times> string \<times> string) list"
  k_chains :: "string \<times> string \<Rightarrow> string list option"

text \<open>What the program of the command does to the kernel: \<^term>\<open>None\<close> when it exits with an error.\<close>

fun effect :: "command \<Rightarrow> kernel \<Rightarrow> kernel option" where
  "effect (RuleAdd r) k =
     Some (if r \<in> set (k_rules k) then k else k\<lparr>k_rules := k_rules k @ [r]\<rparr>)"
| "effect (RouteReplace p dev t) k =
     Some (k\<lparr>k_routes := (t, p, dev) # filter (\<lambda>(t', p', _). (t', p') \<noteq> (t, p)) (k_routes k)\<rparr>)"
| "effect (RuleDel n) k =
     (case List.find (\<lambda>r. priority r = n) (k_rules k) of
        None \<Rightarrow> None
      | Some r \<Rightarrow> Some (k\<lparr>k_rules := remove1 r (k_rules k)\<rparr>))"
| "effect (FlushTable t) k = Some (k\<lparr>k_routes := filter (\<lambda>(t', _). t' \<noteq> t) (k_routes k)\<rparr>)"
| "effect (DetachJump t parent q c) k =
     (if (t, parent, q, c) \<in> set (k_jumps k)
      then Some (k\<lparr>k_jumps := remove1 (t, parent, q, c) (k_jumps k)\<rparr>) else None)"
| "effect (FlushChain t c) k =
     (if k_chains k (t, c) = None then None else Some (k\<lparr>k_chains := (k_chains k)((t, c) \<mapsto> [])\<rparr>))"
| "effect (DeleteChain t c) k =
     (if k_chains k (t, c) = Some [] \<and> list_all (\<lambda>(t', _, _, c'). (t', c') \<noteq> (t, c)) (k_jumps k)
      then Some (k\<lparr>k_chains := (k_chains k)((t, c) := None)\<rparr>) else None)"

text \<open>The commands of the sweep end in \<^verbatim>\<open>|| true\<close>.\<close>

fun guarded :: "command \<Rightarrow> bool" where
  "guarded (RuleAdd r) \<longleftrightarrow> False"
| "guarded (RouteReplace p dev t) \<longleftrightarrow> False"
| "guarded c \<longleftrightarrow> True"

text \<open>
  A command runs, or the program refuses (no permission, no such device, a rule that exists and
  cannot be replaced), or the shell itself cannot be started.
\<close>

datatype cmd_outcome = Ran | Refused | NoShell

fun run_command :: "command \<Rightarrow> cmd_outcome \<Rightarrow> kernel \<Rightarrow> bool \<times> kernel" where
  "run_command c Ran k =
     (case effect c k of Some k' \<Rightarrow> (True, k') | None \<Rightarrow> (guarded c, k))"
| "run_command c Refused k = (guarded c, k)"
| "run_command c NoShell k = (False, k)"

text \<open>The outcomes of the commands in order; a command beyond the list runs.\<close>

fun Execute :: "command list \<Rightarrow> cmd_outcome list \<Rightarrow> kernel \<Rightarrow> bool \<times> kernel" where
  "Execute [] os k = (True, k)"
| "Execute (c # cs) os k =
     (case run_command c (case os of [] \<Rightarrow> Ran | o' # _ \<Rightarrow> o') k of
        (True, k') \<Rightarrow> Execute cs (tl os) k'
      | (False, k') \<Rightarrow> (False, k'))"

definition ApplyExitTakeover :: "cmd_outcome list \<Rightarrow> bool \<Rightarrow> string \<Rightarrow> kernel \<Rightarrow> bool \<times> kernel" where
  "ApplyExitTakeover os manifest_ok iface k =
     (case Execute (ExitTakeoverCommands iface) os k of
        (False, k') \<Rightarrow> (False, k')
      | (True, k') \<Rightarrow> (manifest_ok, k'))"

definition RemoveExitTakeover :: "cmd_outcome list \<Rightarrow> bool \<Rightarrow> kernel \<Rightarrow> bool \<times> kernel" where
  "RemoveExitTakeover os manifest_ok k =
     (case Execute ExitTakeoverRemoveCommands os k of (ok, k') \<Rightarrow> (ok \<and> manifest_ok, k'))"

definition Cleanup_net :: "cmd_outcome list \<Rightarrow> bool \<Rightarrow> kernel \<Rightarrow> bool \<times> kernel" where
  "Cleanup_net os manifest_ok k =
     (case Execute CleanupCommands os k of (ok, k') \<Rightarrow> (ok \<and> manifest_ok, k'))"

subsection \<open>Routing\<close>

text \<open>
  A packet of the host, as the rules see it: whether its socket belongs to root, whether the main
  table has a route for its destination that is not the default route, and whether the
  destination's first bit is set.
\<close>

record flow =
  f_root :: bool
  f_lan :: bool
  f_high :: bool

datatype path = Direct | Via string

definition half :: "bool \<Rightarrow> string" where
  "half high = (if high then ''128.0.0.0/1'' else ''0.0.0.0/1'')"

definition consult :: "kernel \<Rightarrow> flow \<Rightarrow> ip_rule \<Rightarrow> path option" where
  "consult k f r =
     (if uid_root r \<and> \<not> f_root f then None
      else case action r of
        LookupMain \<Rightarrow> Some Direct
      | LookupMainSuppressDefault \<Rightarrow> if f_lan f then Some Direct else None
      | LookupTable t \<Rightarrow>
          map_option (\<lambda>(_, _, dev). Via dev)
            (List.find (\<lambda>(t', p, _). t' = t \<and> p = half (f_high f)) (k_routes k)))"

fun first_path :: "(ip_rule \<Rightarrow> path option) \<Rightarrow> ip_rule list \<Rightarrow> path" where
  "first_path c [] = Direct"
| "first_path c (r # rs) = (case c r of Some p \<Rightarrow> p | None \<Rightarrow> first_path c rs)"

text \<open>The rules in the order of their priority; the main table's default route comes last.\<close>

definition route :: "kernel \<Rightarrow> flow \<Rightarrow> path" where
  "route k f = first_path (consult k f) (sort_key priority (k_rules k))"

subsection \<open>Gate\<close>

record PeerStat =
  ps_State :: string
  RxBytes :: "64 word"
  TxBytes :: "64 word"
  HandshakeAgo :: int

text \<open>The zero value, which a lookup of an unknown peer gives.\<close>

definition zero_stat :: PeerStat where
  "zero_stat = \<lparr>ps_State = [], RxBytes = 0, TxBytes = 0, HandshakeAgo = 0\<rparr>"

record ExitPathGate =
  everReady :: bool
  lastProgress :: int
  lastRx :: "64 word"
  lastTx :: "64 word"
  lastHandshakeAgo :: int
  seenHandshake :: bool

text \<open>Times are nanoseconds.\<close>

definition FailOpenPathStall :: int where
  "FailOpenPathStall = 60000000000"

definition stat_progress :: "ExitPathGate \<Rightarrow> PeerStat \<Rightarrow> bool" where
  "stat_progress g st \<longleftrightarrow>
     RxBytes st > lastRx g \<or> TxBytes st > lastTx g
     \<or> HandshakeAgo st \<ge> 0 \<and> (\<not> seenHandshake g \<or> HandshakeAgo st < lastHandshakeAgo g)"

definition stat_ready :: "PeerStat \<Rightarrow> bool" where
  "stat_ready st \<longleftrightarrow> ps_State st = ''ice-ready'' \<or> ps_State st = ''relay-ready''"

definition stat_failed :: "PeerStat \<Rightarrow> bool" where
  "stat_failed st \<longleftrightarrow> ps_State st = ''failed'' \<or> ps_State st = ''closed''"

definition Evaluate_gate :: "ExitPathGate \<Rightarrow> PeerStat \<Rightarrow> int \<Rightarrow> bool \<times> ExitPathGate" where
  "Evaluate_gate g st now =
     (let progress = stat_progress g st;
          g1 = g\<lparr>lastRx := RxBytes st, lastTx := TxBytes st,
                 lastHandshakeAgo := HandshakeAgo st, seenHandshake := True\<rparr>;
          g2 = (if progress then g1\<lparr>lastProgress := now\<rparr> else g1);
          g3 = (if stat_ready st \<and> \<not> everReady g2 then g2\<lparr>everReady := True, lastProgress := now\<rparr> else g2)
      in (if stat_failed st then everReady g3
          else everReady g3 \<and> now - lastProgress g3 > FailOpenPathStall, g3))"

subsection \<open>Handler\<close>

definition IsExitAllowedIPs :: "string \<Rightarrow> bool" where
  "IsExitAllowedIPs allowedIPs \<longleftrightarrow>
     list_ex (\<lambda>cidr. TrimSpace cidr = ''0.0.0.0/0'') (Split (CHR '','') allowedIPs)"

record exit_handler =
  exitTakeoverActive :: bool
  exitSelected :: bool
  exitPeerAppID :: string
  exitGateDead :: bool
  exitGate :: ExitPathGate
  gateStarted :: bool
  kern :: kernel

text \<open>A peer of the netmap: its AppID and its AllowedIPs.\<close>

definition exit_peer :: "(string \<times> string) list \<Rightarrow> (string \<times> string) option" where
  "exit_peer peers = List.find (\<lambda>(_, ips). IsExitAllowedIPs ips) peers"

definition applyExit ::
  "cmd_outcome list \<Rightarrow> bool \<Rightarrow> string \<Rightarrow> (string \<times> string) list \<Rightarrow> exit_handler \<Rightarrow> exit_handler" where
  "applyExit os manifest_ok iface peers h =
     (let h' =
        (if exit_peer peers \<noteq> None \<and> \<not> exitTakeoverActive h \<and> \<not> exitGateDead h then
           (case ApplyExitTakeover os manifest_ok iface (kern h) of
              (ok, k) \<Rightarrow> h\<lparr>kern := k, exitTakeoverActive := ok\<rparr>)
         else if exit_peer peers = None \<and> exitTakeoverActive h then
           (case RemoveExitTakeover os manifest_ok (kern h) of
              (True, k) \<Rightarrow> h\<lparr>kern := k, exitTakeoverActive := False, exitGateDead := False\<rparr>
            | (False, k) \<Rightarrow> h\<lparr>kern := k\<rparr>)
         else h)
      in case exit_peer peers of
           Some (app, _) \<Rightarrow> h'\<lparr>exitSelected := True, exitPeerAppID := app, gateStarted := True\<rparr>
         | None \<Rightarrow> h'\<lparr>exitSelected := False\<rparr>)"

definition reconcileExitGate ::
  "cmd_outcome list \<Rightarrow> bool \<Rightarrow> string \<Rightarrow> (string \<Rightarrow> PeerStat option) \<Rightarrow> int \<Rightarrow> exit_handler \<Rightarrow> exit_handler" where
  "reconcileExitGate os manifest_ok iface stats now h =
     (if \<not> exitSelected h \<or> exitPeerAppID h = [] then h
      else case Evaluate_gate (exitGate h) (case stats (exitPeerAppID h) of Some st \<Rightarrow> st | None \<Rightarrow> zero_stat) now of
        (dead, g) \<Rightarrow>
          let h1 = h\<lparr>exitGate := g\<rparr>
          in if dead \<and> exitTakeoverActive h1 then
               (case RemoveExitTakeover os manifest_ok (kern h1) of
                  (False, k) \<Rightarrow> h1\<lparr>kern := k\<rparr>
                | (True, k) \<Rightarrow> h1\<lparr>kern := k, exitTakeoverActive := False, exitGateDead := True\<rparr>)
             else if \<not> dead \<and> exitGateDead h1 then
               (case ApplyExitTakeover os manifest_ok iface (kern h1) of
                  (False, k) \<Rightarrow> h1\<lparr>kern := k\<rparr>
                | (True, k) \<Rightarrow> h1\<lparr>kern := k, exitTakeoverActive := True, exitGateDead := False\<rparr>)
             else h1)"

text \<open>
  A netmap, or a tick of the watch that the first exit starts. Both hold the handler's lock. The
  interface is the device's, the same in every step.
\<close>

datatype exit_event =
    OnNetmap "cmd_outcome list" bool "(string \<times> string) list"
  | GateTick "cmd_outcome list" bool "string \<Rightarrow> PeerStat option" int

fun exit_event_step :: "string \<Rightarrow> exit_handler \<Rightarrow> exit_event \<Rightarrow> exit_handler" where
  "exit_event_step iface h (OnNetmap os m peers) = applyExit os m iface peers h"
| "exit_event_step iface h (GateTick os m stats now) =
     (if gateStarted h then reconcileExitGate os m iface stats now h else h)"

definition exit_run :: "string \<Rightarrow> exit_handler \<Rightarrow> exit_event list \<Rightarrow> exit_handler" where
  "exit_run iface = foldl (exit_event_step iface)"


subsection \<open>Rules of the takeover\<close>

abbreviation self_rule :: ip_rule where
  "self_rule \<equiv> \<lparr>priority = RulePrioSelf, uid_root = True, action = LookupMain\<rparr>"

abbreviation lan_rule :: ip_rule where
  "lan_rule \<equiv> \<lparr>priority = RulePrioLAN, uid_root = False, action = LookupMainSuppressDefault\<rparr>"

abbreviation tunnel_rule :: ip_rule where
  "tunnel_rule \<equiv> \<lparr>priority = RulePrioTunnel, uid_root = False, action = LookupTable RouteTable\<rparr>"

lemmas exit_constants = RouteTable_def RulePrioSelf_def RulePrioLAN_def RulePrioTunnel_def

text \<open>
  A host on which lattice owns its priorities, its table and its interface: rules at the three
  priorities are its own, only its rule consults its table, only its table routes to the tunnel.
\<close>

definition owns_table :: "string \<Rightarrow> kernel \<Rightarrow> bool" where
  "owns_table iface k \<longleftrightarrow>
     distinct (k_rules k)
     \<and> list_all (\<lambda>r. (priority r = RulePrioSelf \<longrightarrow> r = self_rule)
                   \<and> (priority r = RulePrioLAN \<longrightarrow> r = lan_rule)
                   \<and> (priority r = RulePrioTunnel \<longrightarrow> r = tunnel_rule)
                   \<and> (action r = LookupTable RouteTable \<longrightarrow> r = tunnel_rule)) (k_rules k)
     \<and> list_all (\<lambda>(t, _, dev). dev = iface \<longrightarrow> t = RouteTable) (k_routes k)"

definition underlay_safe :: "kernel \<Rightarrow> bool" where
  "underlay_safe k \<longleftrightarrow> (tunnel_rule \<in> set (k_rules k) \<longrightarrow> self_rule \<in> set (k_rules k))"

lemma first_path_cut:
  assumes "sorted (map priority rs)" and "x \<in> set rs" and "c x = Some Direct"
    and "\<And>r. r \<in> set rs \<Longrightarrow> c r = Some (Via i) \<Longrightarrow> priority x < priority r"
  shows "first_path c rs \<noteq> Via i"
  using assms
proof (induction rs)
  case (Cons r rs)
  show ?case
  proof (cases "x = r")
    case False
    then have x: "x \<in> set rs" using Cons.prems(2) by simp
    then have le: "priority r \<le> priority x" using Cons.prems(1) by simp
    have "c r \<noteq> Some (Via i)" using Cons.prems(4) [of r] le by auto
    moreover have "first_path c rs \<noteq> Via i"
      by (rule Cons.IH) (use Cons.prems x in auto)
    ultimately show ?thesis by (auto split: option.split)
  qed (use Cons.prems(3) in simp)
qed simp

lemma first_path_no:
  "(\<And>r. r \<in> set rs \<Longrightarrow> c r \<noteq> Some (Via i)) \<Longrightarrow> first_path c rs \<noteq> Via i"
  by (induction rs) (auto split: option.split)

lemma consult_tunnel:
  assumes "owns_table iface k" and "r \<in> set (k_rules k)" and "consult k f r = Some (Via iface)"
  shows "r = tunnel_rule"
proof -
  from assms(3) obtain t p where t: "action r = LookupTable t" "(t, p, iface) \<in> set (k_routes k)"
    by (auto simp: consult_def split: if_splits rule_action.splits dest!: find_Some_set)
  then have "t = RouteTable" using assms(1) by (auto simp: owns_table_def list_all_iff)
  then show ?thesis using t(1) assms(1,2) by (auto simp: owns_table_def list_all_iff)
qed

lemma root_direct:
  assumes "owns_table iface k" and "underlay_safe k" and "f_root f"
  shows "route k f \<noteq> Via iface"
proof (cases "tunnel_rule \<in> set (k_rules k)")
  case True
  then have "self_rule \<in> set (k_rules k)" using assms(2) by (simp add: underlay_safe_def)
  moreover have "consult k f self_rule = Some Direct" using assms(3) by (simp add: consult_def)
  ultimately show ?thesis
    unfolding route_def
    by (intro first_path_cut [of _ self_rule])
      (auto dest!: consult_tunnel [OF assms(1), rotated] simp: exit_constants)
next
  case False
  then show ?thesis
    unfolding route_def by (intro first_path_no) (auto dest: consult_tunnel [OF assms(1), rotated])
qed

text \<open>What one command keeps.\<close>

lemma owns_add:
  assumes "owns_table iface k" and "r \<in> {self_rule, lan_rule, tunnel_rule}" and "r \<notin> set (k_rules k)"
  shows "owns_table iface (k\<lparr>k_rules := k_rules k @ [r]\<rparr>)"
  using assms by (auto simp: owns_table_def exit_constants)

lemma owns_remove: "owns_table iface k \<Longrightarrow> owns_table iface (k\<lparr>k_rules := remove1 r (k_rules k)\<rparr>)"
  using set_remove1_subset [of r "k_rules k"] by (auto simp: owns_table_def list_all_iff)

lemma owns_routes:
  "owns_table iface k \<Longrightarrow> owns_table iface (k\<lparr>k_routes := filter P (k_routes k)\<rparr>)"
  "owns_table iface k \<Longrightarrow>
     owns_table iface (k\<lparr>k_routes := (RouteTable, p, iface) # filter P (k_routes k)\<rparr>)"
  by (auto simp: owns_table_def list_all_iff)

lemma effect_owns:
  assumes "owns_table iface k" and "effect c k = Some k'"
    and "c \<in> set (ExitTakeoverCommands iface) \<union> set ExitTakeoverRemoveCommands"
  shows "owns_table iface k'"
proof (cases c)
  case (RuleAdd r)
  then have "r \<in> {self_rule, lan_rule, tunnel_rule}"
    using assms(3) by (auto simp: ExitTakeoverCommands_def ExitTakeoverRemoveCommands_def)
  then show ?thesis using assms(1,2) RuleAdd owns_add by (auto split: if_splits)
next
  case (RouteReplace p dev t)
  then have "t = RouteTable \<and> dev = iface"
    using assms(3) by (auto simp: ExitTakeoverCommands_def ExitTakeoverRemoveCommands_def)
  then show ?thesis using assms(1,2) RouteReplace owns_routes(2) by auto
next
  case (RuleDel n)
  then show ?thesis using assms(1,2) owns_remove by (auto split: option.splits)
next
  case (FlushTable t)
  then show ?thesis using assms(1,2) owns_routes(1) by auto
qed (use assms(3) in \<open>auto simp: ExitTakeoverCommands_def ExitTakeoverRemoveCommands_def\<close>)

lemma run_inv:
  assumes "I k" and "run_command c u k = (ok, k')" and "\<And>k'. effect c k = Some k' \<Longrightarrow> I k'"
  shows "I k'"
  using assms by (cases u) (auto split: option.splits)

lemma Execute_inv:
  assumes "\<And>c k k'. c \<in> set cs \<Longrightarrow> I k \<Longrightarrow> effect c k = Some k' \<Longrightarrow> I k'"
    and "Execute cs os k = (ok, k')" and "I k"
  shows "I k'"
  using assms
proof (induction cs os k rule: Execute.induct)
  case (2 c cs os k)
  obtain b k1 where r: "run_command c (case os of [] \<Rightarrow> Ran | o' # _ \<Rightarrow> o') k = (b, k1)"
    by fastforce
  have k1: "I k1" by (rule run_inv [of I, OF "2.prems"(3) r]) (use "2.prems"(1,3) in auto)
  show ?case
  proof (cases b)
    case True
    then have "Execute cs (tl os) k1 = (ok, k')" using "2.prems"(2) r by simp
    then show ?thesis using "2.IH" [OF r [symmetric] _ _ _ k1] True "2.prems"(1) by auto
  next
    case False
    then show ?thesis using "2.prems"(2) r k1 by simp
  qed
qed simp

lemma Execute_owns:
  assumes "owns_table iface k" and "Execute cs os k = (ok, k')"
    and "set cs \<subseteq> set (ExitTakeoverCommands iface) \<union> set ExitTakeoverRemoveCommands"
  shows "owns_table iface k'"
  by (rule Execute_inv [where I = "owns_table iface", OF _ assms(2,1)]) (use assms(3) effect_owns in blast)

lemma install_underlay_safe:
  assumes "underlay_safe k" and "Execute (ExitTakeoverCommands iface) os k = (ok, k')"
  shows "underlay_safe k'"
proof -
  obtain b k1 where r: "run_command (RuleAdd self_rule) (case os of [] \<Rightarrow> Ran | o' # _ \<Rightarrow> o') k = (b, k1)"
    by fastforce
  have un: "ExitTakeoverCommands iface = RuleAdd self_rule # tl (ExitTakeoverCommands iface)"
    by (simp add: ExitTakeoverCommands_def)
  show ?thesis
  proof (cases b)
    case True
    then have self: "self_rule \<in> set (k_rules k1)"
      using r by (cases "case os of [] \<Rightarrow> Ran | o' # _ \<Rightarrow> o'") (auto split: if_splits)
    have rest: "Execute (tl (ExitTakeoverCommands iface)) (tl os) k1 = (ok, k')"
      using assms(2) r True by (subst (asm) un) simp
    have "self_rule \<in> set (k_rules k')"
      by (rule Execute_inv [where I = "\<lambda>k. self_rule \<in> set (k_rules k)", OF _ rest self])
        (auto simp: ExitTakeoverCommands_def split: if_splits)
    then show ?thesis by (simp add: underlay_safe_def)
  next
    case False
    then have "k1 = k" using r by (cases "case os of [] \<Rightarrow> Ran | o' # _ \<Rightarrow> o'") auto
    then show ?thesis using assms r False by (subst (asm) un) simp
  qed
qed

text \<open>Only the first deletion must not be refused: every other may.\<close>

definition delete_runs :: "cmd_outcome list \<Rightarrow> bool" where
  "delete_runs os \<longleftrightarrow> take 1 os \<noteq> [Refused]"

lemma remove_underlay_safe:
  assumes "owns_table iface k" and "underlay_safe k" and "delete_runs os"
    and "Execute ExitTakeoverRemoveCommands os k = (ok, k')"
  shows "underlay_safe k'"
proof -
  let ?u = "case os of [] \<Rightarrow> Ran | o' # _ \<Rightarrow> o'"
  have u: "?u = Ran \<or> ?u = NoShell"
    using assms(3) by (cases os; cases "hd os") (auto simp: delete_runs_def)
  have un: "ExitTakeoverRemoveCommands = RuleDel RulePrioTunnel # tl ExitTakeoverRemoveCommands"
    by (simp add: ExitTakeoverRemoveCommands_def)
  show ?thesis
  proof (cases "?u = NoShell")
    case True
    then show ?thesis using assms(2,4) by (subst (asm) un) simp
  next
    case False
    then have ran: "?u = Ran" using u by simp
    obtain k1 where k1: "run_command (RuleDel RulePrioTunnel) Ran k = (True, k1)"
      by (cases "List.find (\<lambda>r. priority r = RulePrioTunnel) (k_rules k)") auto
    have gone: "tunnel_rule \<notin> set (k_rules k1)"
    proof (cases "List.find (\<lambda>r. priority r = RulePrioTunnel) (k_rules k)")
      case None
      then have "k1 = k" using k1 by simp
      then show ?thesis using None by (auto simp: find_None_iff)
    next
      case (Some r)
      then have "r = tunnel_rule"
        using assms(1) by (auto simp: owns_table_def list_all_iff dest!: find_Some_set)
      then show ?thesis using Some k1 assms(1) by (auto simp: owns_table_def)
    qed
    have rest: "Execute (tl ExitTakeoverRemoveCommands) (tl os) k1 = (ok, k')"
      using assms(4) ran k1 by (subst (asm) un) simp
    have "tunnel_rule \<notin> set (k_rules k')"
      by (rule Execute_inv [where I = "\<lambda>k. tunnel_rule \<notin> set (k_rules k)", OF _ rest gone])
        (auto simp: ExitTakeoverRemoveCommands_def split: option.splits dest: notin_set_remove1)
    then show ?thesis by (simp add: underlay_safe_def)
  qed
qed

definition kernel_ok :: "string \<Rightarrow> kernel \<Rightarrow> bool" where
  "kernel_ok iface k \<longleftrightarrow> owns_table iface k \<and> underlay_safe k"

lemma ApplyExitTakeover_ok:
  assumes "kernel_ok iface k" and "ApplyExitTakeover os m iface k = (ok, k')"
  shows "kernel_ok iface k'"
proof -
  obtain b where "Execute (ExitTakeoverCommands iface) os k = (b, k')"
    using assms(2) by (auto simp: ApplyExitTakeover_def split: prod.splits bool.splits)
  then show ?thesis
    using assms(1) install_underlay_safe Execute_owns by (fastforce simp: kernel_ok_def)
qed

lemma RemoveExitTakeover_ok:
  assumes "kernel_ok iface k" and "delete_runs os" and "RemoveExitTakeover os m k = (ok, k')"
  shows "kernel_ok iface k'"
proof -
  obtain b where "Execute ExitTakeoverRemoveCommands os k = (b, k')"
    using assms(3) by (auto simp: RemoveExitTakeover_def split: prod.splits)
  then show ?thesis
    using assms(1,2) remove_underlay_safe Execute_owns by (fastforce simp: kernel_ok_def)
qed

fun event_runs :: "exit_event \<Rightarrow> bool" where
  "event_runs (OnNetmap os m peers) = delete_runs os"
| "event_runs (GateTick os m stats now) = delete_runs os"

lemma applyExit_ok:
  assumes "kernel_ok iface (kern h)" and "delete_runs os"
  shows "kernel_ok iface (kern (applyExit os m iface peers h))"
proof -
  obtain a k where A: "ApplyExitTakeover os m iface (kern h) = (a, k)" by fastforce
  obtain b l where R: "RemoveExitTakeover os m (kern h) = (b, l)" by fastforce
  have "kernel_ok iface k" "kernel_ok iface l"
    using ApplyExitTakeover_ok [OF assms(1) A] RemoveExitTakeover_ok [OF assms R] .
  then show ?thesis
    using assms(1) by (cases b) (simp_all add: applyExit_def A R Let_def split: option.split)
qed

lemma reconcileExitGate_ok:
  assumes "kernel_ok iface (kern h)" and "delete_runs os"
  shows "kernel_ok iface (kern (reconcileExitGate os m iface stats now h))"
proof -
  obtain a k where A: "ApplyExitTakeover os m iface (kern h) = (a, k)" by fastforce
  obtain b l where R: "RemoveExitTakeover os m (kern h) = (b, l)" by fastforce
  have "kernel_ok iface k" "kernel_ok iface l"
    using ApplyExitTakeover_ok [OF assms(1) A] RemoveExitTakeover_ok [OF assms R] .
  then show ?thesis
    using assms(1) by (cases a; cases b) (simp_all add: reconcileExitGate_def A R Let_def split: prod.split)
qed

lemma exit_run_ok:
  "kernel_ok iface (kern h) \<Longrightarrow> list_all event_runs evs \<Longrightarrow> kernel_ok iface (kern (exit_run iface h evs))"
  unfolding exit_run_def
proof (induction evs arbitrary: h)
  case (Cons e evs)
  have "kernel_ok iface (kern (exit_event_step iface h e))"
    using Cons.prems applyExit_ok reconcileExitGate_ok by (cases e) auto
  then show ?case using Cons by simp
qed simp

subsection \<open>Sweep\<close>

text \<open>A command of the sweep that cannot do its work is skipped.\<close>

definition attempt :: "kernel \<Rightarrow> command \<Rightarrow> kernel" where
  "attempt k c = (case effect c k of Some k' \<Rightarrow> k' | None \<Rightarrow> k)"

lemma Execute_guarded: "list_all guarded cs \<Longrightarrow> Execute cs [] k = (True, foldl attempt k cs)"
  by (induction cs arbitrary: k) (auto simp: attempt_def split: option.split)

text \<open>What is left of lattice at a chain: jumps to it, and the chain itself.\<close>

definition swept :: "string \<Rightarrow> string \<Rightarrow> kernel \<Rightarrow> bool" where
  "swept table chain k \<longleftrightarrow>
     list_all (\<lambda>(t, _, _, c). (t, c) \<noteq> (table, chain)) (k_jumps k) \<and> k_chains k (table, chain) = None"

definition own_jumps :: "string \<times> string \<times> string \<times> string \<Rightarrow> kernel \<Rightarrow> bool" where
  "own_jumps c k =
     (case c of (chain, parent, table, qualified) \<Rightarrow>
        distinct (k_jumps k)
        \<and> list_all (\<lambda>(t, p, q, c). (t, c) = (table, chain) \<longrightarrow> p = parent \<and> (q = [] \<or> q = qualified)) (k_jumps k))"

lemma attempt_detach:
  "attempt k (DetachJump t p q c) = k\<lparr>k_jumps := remove1 (t, p, q, c) (k_jumps k)\<rparr>"
  by (auto simp: attempt_def remove1_idem)

lemma attempt_flush:
  "attempt k (FlushChain t c) = k\<lparr>k_chains := (k_chains k)((t, c) := map_option (\<lambda>_. []) (k_chains k (t, c)))\<rparr>"
  by (auto simp: attempt_def fun_upd_idem split: option.split)

lemma sweep_swept:
  assumes "own_jumps (chain, parent, table, q) k"
  defines "k' \<equiv> foldl attempt k (sweep (chain, parent, table, q))"
  shows "swept table chain k'"
    and "k_rules k' = k_rules k" and "k_routes k' = k_routes k"
    and "set (k_jumps k') \<subseteq> set (k_jumps k)" and "distinct (k_jumps k')"
    and "\<And>x. x \<noteq> (table, chain) \<Longrightarrow> k_chains k' x = k_chains k x"
proof -
  define js where "js = (if q = [] then remove1 (table, parent, [], chain) (k_jumps k)
    else remove1 (table, parent, q, chain) (remove1 (table, parent, [], chain) (k_jumps k)))"
  have d: "distinct (k_jumps k)" using assms(1) by (simp add: own_jumps_def)
  have set: "set js = set (k_jumps k) - {(table, parent, [], chain), (table, parent, q, chain)}"
    using d by (auto simp: js_def)
  then have free: "list_all (\<lambda>(t, _, _, c). (t, c) \<noteq> (table, chain)) js"
    using assms(1) by (fastforce simp: own_jumps_def list_all_iff)
  have k': "k' = k\<lparr>k_jumps := js, k_chains := (k_chains k)((table, chain) := None)\<rparr>"
  proof -
    have "k' = attempt (k\<lparr>k_jumps := js,
        k_chains := (k_chains k)((table, chain) := map_option (\<lambda>_. []) (k_chains k (table, chain)))\<rparr>)
        (DeleteChain table chain)"
      by (simp add: k'_def sweep_def attempt_detach attempt_flush js_def)
    then show ?thesis using free by (cases "k_chains k (table, chain)") (auto simp: attempt_def)
  qed
  show "swept table chain k'" using free by (simp add: swept_def k')
  show "k_rules k' = k_rules k" "k_routes k' = k_routes k" by (simp_all add: k')
  show "set (k_jumps k') \<subseteq> set (k_jumps k)" using set by (auto simp: k')
  show "distinct (k_jumps k')" using d by (auto simp: k' js_def)
  show "k_chains k' x = k_chains k x" if "x \<noteq> (table, chain)" for x using that by (simp add: k')
qed

lemma swept_mono:
  "swept t c k \<Longrightarrow> set (k_jumps k') \<subseteq> set (k_jumps k) \<Longrightarrow> k_chains k' (t, c) = k_chains k (t, c) \<Longrightarrow> swept t c k'"
  by (auto simp: swept_def list_all_iff)

lemma own_jumps_mono:
  "own_jumps c k \<Longrightarrow> set (k_jumps k') \<subseteq> set (k_jumps k) \<Longrightarrow> distinct (k_jumps k') \<Longrightarrow> own_jumps c k'"
  by (fastforce simp: own_jumps_def list_all_iff split: prod.splits)

lemma sweeps_swept:
  assumes "list_all (\<lambda>c. own_jumps c k) cs"
    and "distinct (map (\<lambda>(chain, _, table, _). (table, chain)) cs)"
  defines "k' \<equiv> foldl attempt k (concat (map sweep cs))"
  shows "list_all (\<lambda>(chain, _, table, _). swept table chain k') cs \<and> k_rules k' = k_rules k
         \<and> k_routes k' = k_routes k \<and> set (k_jumps k') \<subseteq> set (k_jumps k)
         \<and> (\<forall>x. x \<notin> (\<lambda>(chain, _, table, _). (table, chain)) ` set cs \<longrightarrow> k_chains k' x = k_chains k x)"
  using assms(1,2) unfolding k'_def
proof (induction cs arbitrary: k)
  case (Cons c cs)
  obtain chain parent table q where c: "c = (chain, parent, table, q)" by (cases c)
  define k1 where "k1 = foldl attempt k (sweep c)"
  define k2 where "k2 = foldl attempt k1 (concat (map sweep cs))"
  have oj: "own_jumps (chain, parent, table, q) k" using Cons.prems(1) by (simp add: c)
  note s = sweep_swept [OF oj, folded c, folded k1_def]
  have "list_all (\<lambda>c. own_jumps c k1) cs"
    using Cons.prems(1) own_jumps_mono [OF _ s(4,5)] by (auto simp: list_all_iff)
  then have r: "list_all (\<lambda>(chain, _, table, _). swept table chain k2) cs \<and> k_rules k2 = k_rules k1
         \<and> k_routes k2 = k_routes k1 \<and> set (k_jumps k2) \<subseteq> set (k_jumps k1)
         \<and> (\<forall>x. x \<notin> (\<lambda>(chain, _, table, _). (table, chain)) ` set cs \<longrightarrow> k_chains k2 x = k_chains k1 x)"
    using Cons.IH [of k1] Cons.prems(2) unfolding k2_def by simp
  have new: "(table, chain) \<notin> (\<lambda>(chain, _, table, _). (table, chain)) ` set cs"
    using Cons.prems(2) by (auto simp: c)
  then have "swept table chain k2" using r s(1) by (auto intro: swept_mono)
  moreover have "foldl attempt k (concat (map sweep (c # cs))) = k2" by (simp add: k2_def k1_def)
  ultimately show ?case using r s(2-6) by (auto simp: c)
qed simp

lemma owns_unique:
  assumes "owns_table iface k" and "n \<in> {RulePrioSelf, RulePrioLAN, RulePrioTunnel}"
  shows "\<exists>u. \<forall>r \<in> set (k_rules k). priority r = n \<longrightarrow> r = u"
proof -
  have "\<forall>r \<in> set (k_rules k). (priority r = RulePrioSelf \<longrightarrow> r = self_rule)
      \<and> (priority r = RulePrioLAN \<longrightarrow> r = lan_rule) \<and> (priority r = RulePrioTunnel \<longrightarrow> r = tunnel_rule)"
    using assms(1) unfolding owns_table_def list_all_iff by blast
  then show ?thesis using assms(2) by (elim insertE emptyE) blast+
qed

lemma attempt_del:
  assumes "owns_table iface k" and "n \<in> {RulePrioSelf, RulePrioLAN, RulePrioTunnel}"
  shows "attempt k (RuleDel n) = k\<lparr>k_rules := filter (\<lambda>r. priority r \<noteq> n) (k_rules k)\<rparr>"
proof (cases "List.find (\<lambda>r. priority r = n) (k_rules k)")
  case None
  then have "filter (\<lambda>r. priority r \<noteq> n) (k_rules k) = k_rules k"
    by (auto simp: find_None_iff intro!: filter_True)
  then show ?thesis using None by (simp add: attempt_def)
next
  case (Some r)
  have one: "x = r" if "x \<in> set (k_rules k)" "priority x = n" for x
    using that owns_unique [OF assms] find_Some_set [OF Some] by metis
  have "remove1 r (k_rules k) = filter (\<lambda>x. r \<noteq> x) (k_rules k)"
    using assms(1) by (simp add: owns_table_def distinct_remove1_removeAll removeAll_filter_not_eq)
  also have "\<dots> = filter (\<lambda>x. priority x \<noteq> n) (k_rules k)"
    using one find_Some_set [OF Some] by (intro filter_cong) auto
  finally show ?thesis using Some by (simp add: attempt_def)
qed

lemma owns_filter: "owns_table iface k \<Longrightarrow> owns_table iface (k\<lparr>k_rules := filter P (k_rules k)\<rparr>)"
  by (auto simp: owns_table_def list_all_iff)

lemma attempt_remove:
  assumes "owns_table iface k"
  shows "foldl attempt k ExitTakeoverRemoveCommands =
           k\<lparr>k_rules := filter (\<lambda>r. priority r \<notin> {RulePrioSelf, RulePrioLAN, RulePrioTunnel}) (k_rules k),
             k_routes := filter (\<lambda>(t, _). t \<noteq> RouteTable) (k_routes k)\<rparr>"
proof -
  define k1 where "k1 = k\<lparr>k_rules := filter (\<lambda>r. priority r \<noteq> RulePrioTunnel) (k_rules k)\<rparr>"
  define k2 where "k2 = k1\<lparr>k_rules := filter (\<lambda>r. priority r \<noteq> RulePrioLAN) (k_rules k1)\<rparr>"
  have o: "owns_table iface k1" "owns_table iface k2"
    using owns_filter assms by (auto simp: k1_def k2_def)
  have "attempt k (RuleDel RulePrioTunnel) = k1" "attempt k1 (RuleDel RulePrioLAN) = k2"
    using attempt_del [OF assms, of RulePrioTunnel] attempt_del [OF o(1), of RulePrioLAN]
    by (simp_all add: k1_def k2_def)
  moreover have "attempt k2 (RuleDel RulePrioSelf)
      = k\<lparr>k_rules := filter (\<lambda>r. priority r \<notin> {RulePrioSelf, RulePrioLAN, RulePrioTunnel}) (k_rules k)\<rparr>"
    using attempt_del [OF o(2), of RulePrioSelf]
    by (simp add: k1_def k2_def conj_ac)
  ultimately show ?thesis by (simp add: ExitTakeoverRemoveCommands_def attempt_def)
qed

text \<open>The chains of the sweep, with the jumps the agent attaches to them.\<close>

abbreviation lattice_chains :: "(string \<times> string \<times> string \<times> string) list" where
  "lattice_chains \<equiv>
     [(ChainIngress, ''INPUT'', ''filter'', ''-i wf0''), (ChainEgress, ''OUTPUT'', ''filter'', ''-o wf0''),
      (ChainForward, ''FORWARD'', ''filter'', []), (ChainNAT, ''POSTROUTING'', ''nat'', [])]"

lemmas chain_names = ChainIngress_def ChainEgress_def ChainForward_def ChainNAT_def

lemma sweep_guarded: "list_all guarded (sweep c)"
  by (cases c) (simp add: sweep_def)

lemma Cleanup_guarded: "list_all guarded CleanupCommands"
  using sweep_guarded by (auto simp: CleanupCommands_def ExitTakeoverRemoveCommands_def list_all_iff)

subsection \<open>Runs without faults\<close>

definition exit_init :: "kernel \<Rightarrow> exit_handler" where
  "exit_init k =
     \<lparr>exitTakeoverActive = False, exitSelected = False, exitPeerAppID = [], exitGateDead = False,
      exitGate = \<lparr>everReady = False, lastProgress = 0, lastRx = 0, lastTx = 0,
                  lastHandshakeAgo = 0, seenHandshake = False\<rparr>,
      gateStarted = False, kern = k\<rparr>"

fun event_clean :: "exit_event \<Rightarrow> bool" where
  "event_clean (OnNetmap os m peers) \<longleftrightarrow> set os \<subseteq> {Ran} \<and> m"
| "event_clean (GateTick os m stats now) \<longleftrightarrow> set os \<subseteq> {Ran} \<and> m"

text \<open>A host without policy routing of its own.\<close>

definition plain_host :: "kernel \<Rightarrow> bool" where
  "plain_host k \<longleftrightarrow> k_rules k = [] \<and> k_routes k = []"

definition taken_over :: "string \<Rightarrow> kernel \<Rightarrow> kernel" where
  "taken_over iface k =
     k\<lparr>k_rules := [self_rule, lan_rule, tunnel_rule],
       k_routes := [(RouteTable, ''128.0.0.0/1'', iface), (RouteTable, ''0.0.0.0/1'', iface)]\<rparr>"

lemma Execute_clean: "set os \<subseteq> {Ran} \<Longrightarrow> Execute cs os k = Execute cs [] k"
proof (induction cs arbitrary: os k)
  case (Cons c cs)
  have "(case os of [] \<Rightarrow> Ran | o' # _ \<Rightarrow> o') = Ran" using Cons.prems by (cases os) auto
  moreover have "set (tl os) \<subseteq> {Ran}" using Cons.prems by (cases os) auto
  then have "Execute cs (tl os) k' = Execute cs [] k'" for k' by (rule Cons.IH)
  ultimately show ?case by (simp split: prod.split bool.split option.split)
qed simp

lemma install_plain:
  assumes "plain_host k" and "set os \<subseteq> {Ran}"
  shows "ApplyExitTakeover os m iface k = (m, taken_over iface k)"
  unfolding ApplyExitTakeover_def Execute_clean [OF assms(2)]
  using assms(1) by (simp add: ExitTakeoverCommands_def plain_host_def taken_over_def exit_constants)

lemma remove_taken_over:
  assumes "plain_host k" and "set os \<subseteq> {Ran}"
  shows "RemoveExitTakeover os m (taken_over iface k) = (m, k)"
  unfolding RemoveExitTakeover_def Execute_clean [OF assms(2)]
  using assms(1)
  by (cases k) (simp add: ExitTakeoverRemoveCommands_def plain_host_def taken_over_def exit_constants)

lemma remove_plain:
  assumes "plain_host k" and "set os \<subseteq> {Ran}"
  shows "RemoveExitTakeover os m k = (m, k)"
  unfolding RemoveExitTakeover_def Execute_clean [OF assms(2)]
  using assms(1) by (cases k) (simp add: ExitTakeoverRemoveCommands_def plain_host_def)

lemma route_plain: "plain_host k \<Longrightarrow> route k f = Direct"
  by (simp add: route_def plain_host_def)

lemma route_taken_over:
  "route (taken_over iface k) f = (if \<not> f_root f \<and> \<not> f_lan f then Via iface else Direct)"
  by (simp add: route_def taken_over_def exit_constants consult_def half_def)

definition exit_inv :: "string \<Rightarrow> kernel \<Rightarrow> exit_handler \<Rightarrow> bool" where
  "exit_inv iface k h \<longleftrightarrow>
     kern h = (if exitTakeoverActive h then taken_over iface k else k)
     \<and> exitTakeoverActive h = (exitSelected h \<and> \<not> exitGateDead h)
     \<and> (everReady (exitGate h) \<longrightarrow> seenHandshake (exitGate h))
     \<and> (exitSelected h \<longrightarrow> gateStarted h)"

lemma Evaluate_gate_seen: "seenHandshake (snd (Evaluate_gate g st now))"
  by (simp add: Evaluate_gate_def Let_def)

lemma exit_step_inv:
  assumes "plain_host k" and "exit_inv iface k h" and "event_clean e"
  shows "exit_inv iface k (exit_event_step iface h e)"
proof (cases e)
  case (OnNetmap os m peers)
  then have os: "set os \<subseteq> {Ran}" "m" using assms(3) by simp_all
  show ?thesis
    using assms(2) os OnNetmap install_plain [OF assms(1) os(1)] remove_taken_over [OF assms(1) os(1)]
    by (cases "exitTakeoverActive h"; cases "exit_peer peers")
      (auto simp: exit_inv_def applyExit_def Let_def)
next
  case (GateTick os m stats now)
  then have os: "set os \<subseteq> {Ran}" "m" using assms(3) by simp_all
  define st where "st = (case stats (exitPeerAppID h) of Some st \<Rightarrow> st | None \<Rightarrow> zero_stat)"
  obtain dead g where E: "Evaluate_gate (exitGate h) st now = (dead, g)" by fastforce
  have seen: "seenHandshake g" using Evaluate_gate_seen [of "exitGate h" st now] by (simp add: E)
  show ?thesis
    using assms(2) os GateTick install_plain [OF assms(1) os(1)] remove_taken_over [OF assms(1) os(1)] seen
    by (cases "exitTakeoverActive h"; cases dead)
      (auto simp: exit_inv_def reconcileExitGate_def Let_def E st_def [symmetric])
qed

lemma exit_run_inv:
  "plain_host k \<Longrightarrow> exit_inv iface k h \<Longrightarrow> list_all event_clean evs \<Longrightarrow> exit_inv iface k (exit_run iface h evs)"
  unfolding exit_run_def
  by (induction evs arbitrary: h) (auto intro: exit_step_inv)

lemma exit_init_inv: "exit_inv iface k (exit_init k)"
  by (simp add: exit_inv_def exit_init_def)

subsection \<open>Frozen counters\<close>

definition frozen :: "ExitPathGate \<Rightarrow> PeerStat \<Rightarrow> bool" where
  "frozen g st \<longleftrightarrow> RxBytes st = lastRx g \<and> TxBytes st = lastTx g
     \<and> (HandshakeAgo st < 0 \<or> lastHandshakeAgo g \<le> HandshakeAgo st)"

lemma Evaluate_gate_frozen:
  assumes "everReady g" and "seenHandshake g" and "frozen g st"
  shows "Evaluate_gate g st now =
           (stat_failed st \<or> now - lastProgress g > FailOpenPathStall, g\<lparr>lastHandshakeAgo := HandshakeAgo st\<rparr>)"
  using assms by (auto simp: Evaluate_gate_def Let_def frozen_def stat_progress_def)

text \<open>
  Bytes sent count as progress although only bytes received show that the provider answers, and the
  gate keeps what it learned of an earlier provider when another one is selected.
\<close>

lemma sending_hides_stall:
  "lastTx g < TxBytes st \<Longrightarrow> \<not> stat_failed st \<Longrightarrow> \<not> fst (Evaluate_gate g st now)"
  by (simp add: Evaluate_gate_def Let_def stat_progress_def FailOpenPathStall_def)

lemma new_provider_inherits_stall:
  assumes "everReady g" and "seenHandshake g" and "now - lastProgress g > FailOpenPathStall"
  shows "fst (Evaluate_gate g \<lparr>ps_State = ''probing'', RxBytes = 0, TxBytes = 0, HandshakeAgo = -1\<rparr> now)"
  using assms by (auto simp: Evaluate_gate_def Let_def stat_progress_def stat_ready_def stat_failed_def)

text \<open>The ticks of the watch that see one sample each.\<close>

definition gate_ticks :: "string \<Rightarrow> (PeerStat \<times> int) list \<Rightarrow> exit_event list" where
  "gate_ticks app ticks = map (\<lambda>(st, now). GateTick [] True [app \<mapsto> st] now) ticks"

lemma tick_gate:
  assumes "exitSelected h" and "exitPeerAppID h \<noteq> []" and "gateStarted h"
    and h': "h' = exit_event_step iface h (GateTick [] True [exitPeerAppID h \<mapsto> st] now)"
  shows "exitGate h' = snd (Evaluate_gate (exitGate h) st now)" "exitSelected h'" "gateStarted h'"
    "exitPeerAppID h' = exitPeerAppID h"
  using assms(1-3)
  by (simp_all add: h' reconcileExitGate_def Let_def split: prod.split bool.split)

lemma tick_dead:
  assumes "plain_host k" and "exit_inv iface k h" and "exitSelected h" and "exitPeerAppID h \<noteq> []"
  shows "exitGateDead (exit_event_step iface h (GateTick [] True [exitPeerAppID h \<mapsto> st] now))
           = fst (Evaluate_gate (exitGate h) st now)"
proof -
  obtain dead g where E: "Evaluate_gate (exitGate h) st now = (dead, g)" by fastforce
  show ?thesis
    using assms(2-4) install_plain [OF assms(1)] remove_taken_over [OF assms(1)]
    by (cases "exitTakeoverActive h"; cases dead)
      (auto simp: exit_inv_def reconcileExitGate_def Let_def E)
qed

lemma frozen_ticks_dead:
  assumes "plain_host k" and "exit_inv iface k h" and "exitSelected h" and "exitPeerAppID h \<noteq> []"
    and "everReady (exitGate h)" and "ticks \<noteq> []"
    and "\<forall>(st, now) \<in> set ticks. RxBytes st = lastRx (exitGate h) \<and> TxBytes st = lastTx (exitGate h)"
    and "sorted (lastHandshakeAgo (exitGate h) # map (\<lambda>(st, _). HandshakeAgo st) ticks)"
    and "snd (last ticks) - lastProgress (exitGate h) > FailOpenPathStall"
  shows "exitGateDead (exit_run iface h (gate_ticks (exitPeerAppID h) ticks))"
  using assms(2-)
proof (induction ticks arbitrary: h)
  case (Cons x ticks)
  obtain st now where x: "x = (st, now)" by fastforce
  define h' where "h' = exit_event_step iface h (GateTick [] True [exitPeerAppID h \<mapsto> st] now)"
  have seen: "seenHandshake (exitGate h)" "gateStarted h"
    using Cons.prems by (auto simp: exit_inv_def)
  have fr: "frozen (exitGate h) st" using Cons.prems(6,7) by (auto simp: frozen_def x)
  note E = Evaluate_gate_frozen [OF Cons.prems(4) seen(1) fr, of now]
  note t = tick_gate [OF Cons.prems(2,3) seen(2) h'_def]
  have inv: "exit_inv iface k h'"
    unfolding h'_def by (rule exit_step_inv [OF assms(1) Cons.prems(1)]) simp
  have run: "exit_run iface h (gate_ticks (exitPeerAppID h) (x # ticks))
               = exit_run iface h' (gate_ticks (exitPeerAppID h') ticks)"
    using t by (simp add: exit_run_def gate_ticks_def x h'_def)
  show ?case
  proof (cases "ticks = []")
    case True
    then show ?thesis
      using tick_dead [OF assms(1) Cons.prems(1-3), of st now] E Cons.prems(8)
      by (simp add: exit_run_def gate_ticks_def x)
  next
    case False
    show ?thesis
      unfolding run
      by (rule Cons.IH) (use inv t E Cons.prems False in \<open>auto simp: x\<close>)
  qed
qed simp

lemma gate_ticks_clean: "list_all event_clean (gate_ticks app ticks)"
  by (auto simp: gate_ticks_def list_all_iff)

lemma gate_ticks_keep:
  assumes "plain_host k" and "exit_inv iface k h" and "exitSelected h" and "exitPeerAppID h \<noteq> []"
  shows "exitSelected (exit_run iface h (gate_ticks (exitPeerAppID h) ticks))
         \<and> exitPeerAppID (exit_run iface h (gate_ticks (exitPeerAppID h) ticks)) = exitPeerAppID h"
  using assms(2-)
proof (induction ticks arbitrary: h)
  case (Cons x ticks)
  obtain st now where x: "x = (st, now)" by fastforce
  define h' where "h' = exit_event_step iface h (GateTick [] True [exitPeerAppID h \<mapsto> st] now)"
  have g: "gateStarted h" using Cons.prems(1,2) by (simp add: exit_inv_def)
  note t = tick_gate [OF Cons.prems(2,3) g h'_def]
  have inv: "exit_inv iface k h'"
    unfolding h'_def by (rule exit_step_inv [OF assms(1) Cons.prems(1)]) simp
  show ?case
    using Cons.IH [OF inv] t Cons.prems(3) by (simp add: exit_run_def gate_ticks_def x h'_def [symmetric] del: exit_event_step.simps)
qed (simp add: exit_run_def gate_ticks_def)

lemma tick_revives:
  assumes "plain_host k" and "exit_inv iface k h" and "exitSelected h" and "exitPeerAppID h \<noteq> []"
    and "stat_progress (exitGate h) st" and "\<not> stat_failed st" and "\<not> f_root f" and "\<not> f_lan f"
  shows "route (kern (exit_run iface h (gate_ticks (exitPeerAppID h) [(st, now)]))) f = Via iface"
proof -
  define h' where "h' = exit_event_step iface h (GateTick [] True [exitPeerAppID h \<mapsto> st] now)"
  have g: "gateStarted h" using assms(2,3) by (simp add: exit_inv_def)
  have "\<not> fst (Evaluate_gate (exitGate h) st now)"
    using assms(5,6) by (simp add: Evaluate_gate_def Let_def FailOpenPathStall_def)
  then have "\<not> exitGateDead h'" unfolding h'_def using tick_dead [OF assms(1-4)] by simp
  moreover have "exit_inv iface k h'"
    unfolding h'_def by (rule exit_step_inv [OF assms(1,2)]) simp
  ultimately have "kern h' = taken_over iface k"
    using tick_gate(2) [OF assms(3,4) g h'_def] by (simp add: exit_inv_def)
  then show ?thesis
    using assms(7,8) by (simp add: exit_run_def gate_ticks_def h'_def [symmetric] route_taken_over del: exit_event_step.simps)
qed

text \<open>Netmaps that agree with what the handler believes leave the kernel alone.\<close>

lemma netmaps_idle:
  assumes "list_all (\<lambda>ps. exit_peer ps = None \<longleftrightarrow> \<not> exitTakeoverActive h) nms"
  shows "kern (exit_run iface h (map (OnNetmap [] True) nms)) = kern h"
  using assms
proof (induction nms arbitrary: h)
  case (Cons ps nms)
  have "kern (applyExit [] True iface ps h) = kern h
        \<and> exitTakeoverActive (applyExit [] True iface ps h) = exitTakeoverActive h"
    using Cons.prems by (auto simp: applyExit_def Let_def split: option.split)
  then show ?case using Cons by (simp add: exit_run_def)
qed (simp add: exit_run_def)

subsection \<open>Properties\<close>

text \<open>C11. On a host where lattice owns its priorities, table and interface, no packet of a root socket
  (the engine's own WireGuard, relay and control traffic) is ever routed into the tunnel, after any
  sequence of netmaps and gate ticks, whatever commands fail and wherever a sequence of commands is
  cut off, as long as the deletion of the tunnel rule itself is not refused.\<close>

theorem underlay_never_tunnelled:
  assumes "owns_table iface k" and "tunnel_rule \<notin> set (k_rules k)"
    and "list_all event_runs evs" and "f_root f"
  shows "route (kern (exit_run iface (exit_init k) evs)) f \<noteq> Via iface"
proof -
  have "kernel_ok iface (kern (exit_init k))"
    using assms(1,2) by (simp add: kernel_ok_def underlay_safe_def exit_init_def)
  then have "kernel_ok iface (kern (exit_run iface (exit_init k) evs))"
    using exit_run_ok assms(3) by blast
  then show ?thesis using root_direct assms(4) by (simp add: kernel_ok_def)
qed

definition bare_host :: kernel where
  "bare_host = \<lparr>k_rules = [], k_routes = [], k_jumps = [], k_chains = Map.empty\<rparr>"

lemma bare_host_plain: "plain_host bare_host"
  by (simp add: plain_host_def bare_host_def)

abbreviation some_exit :: "(string \<times> string) list" where
  "some_exit \<equiv> [(''p1'', ''10.0.0.2/32''), (''p2'', ''10.0.0.3/32, 0.0.0.0/0'')]"

lemma exit_peer_some: "exit_peer some_exit = Some (''p2'', ''10.0.0.3/32, 0.0.0.0/0'')"
  by (simp add: exit_peer_def IsExitAllowedIPs_def TrimSpace_def TrimLeft_def is_space_def)

theorem underlay_never_tunnelled_witness:
  "route (kern (exit_run ''wf0'' (exit_init bare_host) [OnNetmap [Ran, Ran, Ran, NoShell] True some_exit]))
     \<lparr>f_root = True, f_lan = False, f_high = False\<rparr> \<noteq> Via ''wf0''"
  by (rule underlay_never_tunnelled)
    (simp_all add: owns_table_def bare_host_def delete_runs_def)

text \<open>C12. Without faults, on a host without policy routing of its own, the kernel after any sequence of
  netmaps and gate ticks is exactly the host's own, or the host's own with the takeover: packets of
  users to destinations outside the local networks go to the tunnel exactly while the last netmap
  selects an exit and the gate has not declared its path dead, and everything else goes direct.\<close>

theorem exit_takeover_exact:
  assumes "plain_host k" and "list_all event_clean evs" and h: "h = exit_run iface (exit_init k) evs"
  shows "kern h = (if exitSelected h \<and> \<not> exitGateDead h then taken_over iface k else k)
         \<and> route (kern h) f =
             (if exitSelected h \<and> \<not> exitGateDead h \<and> \<not> f_root f \<and> \<not> f_lan f then Via iface else Direct)"
proof -
  have "exit_inv iface k h"
    unfolding h by (rule exit_run_inv [OF assms(1) exit_init_inv assms(2)])
  then have "kern h = (if exitSelected h \<and> \<not> exitGateDead h then taken_over iface k else k)"
    by (simp add: exit_inv_def)
  then show ?thesis by (simp add: route_plain [OF assms(1)] route_taken_over)
qed

theorem exit_takeover_exact_witness:
  "route (kern (exit_run ''wf0'' (exit_init bare_host) [OnNetmap [] True some_exit]))
     \<lparr>f_root = False, f_lan = False, f_high = True\<rparr> = Via ''wf0''"
proof -
  have "exitSelected (exit_run ''wf0'' (exit_init bare_host) [OnNetmap [] True some_exit])
        \<and> \<not> exitGateDead (exit_run ''wf0'' (exit_init bare_host) [OnNetmap [] True some_exit])"
    by (simp add: exit_run_def applyExit_def exit_peer_some exit_init_def Let_def
        install_plain [OF bare_host_plain])
  then show ?thesis
    using exit_takeover_exact [OF bare_host_plain, of "[OnNetmap [] True some_exit]" _ "''wf0''"
        "\<lparr>f_root = False, f_lan = False, f_high = True\<rparr>"] by (simp add: route_taken_over)
qed

text \<open>C13. The exit fails open: when the provider's path had worked and its counters then stay frozen and
  its handshake only gets older, the first tick later than the stall bound after the last progress
  leaves every packet of the host on the direct path; and a tick that sees progress on a path that
  is not failed puts the users' traffic back into the tunnel.\<close>

theorem exit_fails_open:
  assumes "plain_host k" and "list_all event_clean evs" and h: "h = exit_run iface (exit_init k) evs"
    and "exitSelected h" and "exitPeerAppID h \<noteq> []" and "everReady (exitGate h)"
    and "ticks \<noteq> []"
    and "\<forall>(st, now) \<in> set ticks. RxBytes st = lastRx (exitGate h) \<and> TxBytes st = lastTx (exitGate h)"
    and "sorted (lastHandshakeAgo (exitGate h) # map (\<lambda>(st, _). HandshakeAgo st) ticks)"
    and "snd (last ticks) - lastProgress (exitGate h) > FailOpenPathStall"
    and h': "h' = exit_run iface h (gate_ticks (exitPeerAppID h) ticks)"
  shows "route (kern h') f = Direct
    \<and> (stat_progress (exitGate h') st \<and> \<not> stat_failed st \<and> \<not> f_root f \<and> \<not> f_lan f \<longrightarrow>
         route (kern (exit_run iface h' (gate_ticks (exitPeerAppID h) [(st, now)]))) f = Via iface)"
proof -
  have inv: "exit_inv iface k h"
    unfolding h by (rule exit_run_inv [OF assms(1) exit_init_inv assms(2)])
  have inv': "exit_inv iface k h'"
    unfolding h' by (rule exit_run_inv [OF assms(1) inv gate_ticks_clean])
  have dead: "exitGateDead h'"
    unfolding h' by (rule frozen_ticks_dead [OF assms(1) inv assms(4-10)])
  have keep: "exitSelected h' \<and> exitPeerAppID h' = exitPeerAppID h"
    unfolding h' by (rule gate_ticks_keep [OF assms(1) inv assms(4,5)])
  have "route (kern h') f = Direct"
    using inv' dead route_plain [OF assms(1)] by (simp add: exit_inv_def)
  moreover have "stat_progress (exitGate h') st \<Longrightarrow> \<not> stat_failed st \<Longrightarrow> \<not> f_root f \<Longrightarrow> \<not> f_lan f \<Longrightarrow>
      route (kern (exit_run iface h' (gate_ticks (exitPeerAppID h) [(st, now)]))) f = Via iface"
    using tick_revives [OF assms(1) inv', where st = st and now = now and f = f] keep assms(5) by simp
  ultimately show ?thesis by blast
qed

definition ready_stat :: "int \<Rightarrow> PeerStat" where
  "ready_stat ago = \<lparr>ps_State = ''relay-ready'', RxBytes = 7, TxBytes = 9, HandshakeAgo = ago\<rparr>"

lemma exit_fails_open_run:
  fixes evs :: "exit_event list"
  defines "evs \<equiv> [OnNetmap [] True some_exit, GateTick [] True [''p2'' \<mapsto> ready_stat 5] 0]"
  shows "exitSelected (exit_run ''wf0'' (exit_init bare_host) evs)"
    and "exitPeerAppID (exit_run ''wf0'' (exit_init bare_host) evs) = ''p2''"
    and "exitGate (exit_run ''wf0'' (exit_init bare_host) evs) =
           \<lparr>everReady = True, lastProgress = 0, lastRx = 7, lastTx = 9, lastHandshakeAgo = 5, seenHandshake = True\<rparr>"
  by (simp_all add: evs_def exit_run_def applyExit_def reconcileExitGate_def exit_peer_some exit_init_def Let_def
      install_plain [OF bare_host_plain] Evaluate_gate_def stat_progress_def stat_ready_def stat_failed_def
      ready_stat_def FailOpenPathStall_def)

abbreviation user_flow :: flow where
  "user_flow \<equiv> \<lparr>f_root = False, f_lan = False, f_high = False\<rparr>"

lemma ready_stat_simps [simp]:
  "RxBytes (ready_stat n) = 7" "TxBytes (ready_stat n) = 9" "HandshakeAgo (ready_stat n) = n"
  by (simp_all add: ready_stat_def)

theorem exit_fails_open_witness:
  "route (kern (exit_run ''wf0''
     (exit_run ''wf0'' (exit_init bare_host)
       [OnNetmap [] True some_exit, GateTick [] True [''p2'' \<mapsto> ready_stat 5] 0])
     (gate_ticks ''p2'' [(ready_stat 10, 5000000000), (ready_stat 70, 65000000000)]))) user_flow = Direct"
proof -
  define h where "h = exit_run ''wf0'' (exit_init bare_host)
    [OnNetmap [] True some_exit, GateTick [] True [''p2'' \<mapsto> ready_stat 5] 0]"
  note r = exit_fails_open_run [folded h_def]
  show ?thesis
    unfolding h_def [symmetric]
    using exit_fails_open [OF bare_host_plain _ h_def, where
        ticks = "[(ready_stat 10, 5000000000), (ready_stat 70, 65000000000)]" and f = user_flow]
    by (simp add: r FailOpenPathStall_def)
qed





end
