(* ===== verification/NetmapApply.thy ===== *)
theory NetmapApply
  imports ProbeFactory Overlay6 ExitTakeover
begin

text \<open>
  How an agent applies a network map: \<^verbatim>\<open>internal/agent/message_handler.go\<close> over the node's peer
  operations (\<^verbatim>\<open>internal/agent/node.go\<close>, \<^verbatim>\<open>internal/server/client/client.go\<close>), and when it does so: the
  refresh and the poll loop with their version guards (\<^verbatim>\<open>node.go\<close>, \<^verbatim>\<open>netmap_sync.go\<close>).
\<close>

subsection \<open>Node\<close>

text \<open>Calls into the host that are best effort: their failure is only logged.\<close>

datatype host_call =
    CallApplyIP string
  | CallOverlay6 bytes
  | CallExitGateway string

record 'cand Node =
  n_fac :: "'cand ProbeFactory"
  n_key :: string
  n_removed :: "string list"
  n_calls :: "host_call list"
  n_exit :: exit_handler
  n_rules :: "FirewallRule option"

text \<open>
  The surroundings of one apply: the probes' surroundings, the key parser, the answers of the
  device and the enforcer, the outcomes of the routing commands, and the parser of IPv6 prefixes.
\<close>

record 'cand apply_env =
  a_cfg :: "PeerIdentity \<Rightarrow> probe_env"
  a_ParseKey :: "string \<Rightarrow> bytes option"
  a_ext :: "'cand outside"
  a_ip_ok :: bool
  a_provision :: "FirewallRule \<Rightarrow> bool"
  a_outcomes :: "cmd_outcome list"
  a_manifest_ok :: bool
  a_iface :: string
  a_ParsePrefix :: "string \<Rightarrow> (Addr \<times> nat) option"

definition Client_AddPeer :: "'cand apply_env \<Rightarrow> Peer \<Rightarrow> 'cand ProbeFactory \<Rightarrow> bool \<times> 'cand ProbeFactory" where
  "Client_AddPeer env p fac =
     (case a_ParseKey env (PublicKey p) of
        None \<Rightarrow> (False, fac)
      | Some key \<Rightarrow>
          (let f1 = Get_probe (a_cfg env) (NewPeerIdentity (AppID p) key) fac;
               f2 = on_probe (a_cfg env) (\<lambda>e q. snd (SyncAllowedIPs e (AllowedIPs p) q)) (AppID p) f1
           in (True, on_probe (a_cfg env) (\<lambda>e. Start_probe e (a_ext env)) (AppID p) f2)))"

definition Node_AddPeer :: "'cand apply_env \<Rightarrow> Peer \<Rightarrow> 'cand Node \<Rightarrow> bool \<times> 'cand Node" where
  "Node_AddPeer env p n =
     (let m = the (AddPeer (a_ParseKey env) (peerManager (n_fac n)) (AppID p) (Some p));
          n1 = n\<lparr>n_fac := (n_fac n)\<lparr>peerManager := m\<rparr>\<rparr>
      in if PublicKey p = n_key n then (True, n1)
         else (case Client_AddPeer env p (n_fac n1) of (ok, f) \<Rightarrow> (ok, n1\<lparr>n_fac := f\<rparr>)))"

text \<open>Whether the device accepts the removal is only logged.\<close>

definition Node_RemovePeer :: "'cand apply_env \<Rightarrow> Peer \<Rightarrow> 'cand Node \<Rightarrow> 'cand Node" where
  "Node_RemovePeer env p n =
     n\<lparr>n_fac := snd (Remove_probe (a_cfg env) (AppID p) (n_fac n)), n_removed := n_removed n @ [PublicKey p]\<rparr>"

definition prune_peer :: "'cand apply_env \<Rightarrow> string list \<Rightarrow> 'cand Node \<Rightarrow> Peer \<Rightarrow> 'cand Node" where
  "prune_peer env keep n p =
     (if AppID p \<in> set keep then n
      else (let n1 = Node_RemovePeer env p n
            in n1\<lparr>n_fac := (n_fac n1)\<lparr>peerManager := RemovePeer (a_ParseKey env) (peerManager (n_fac n1)) (AppID p)\<rparr>\<rparr>))"

text \<open>\<open>order\<close> is the order in which the store's map is walked for the snapshot.\<close>

definition PrunePeersExcept :: "'cand apply_env \<Rightarrow> string list \<Rightarrow> string list \<Rightarrow> 'cand Node \<Rightarrow> 'cand Node" where
  "PrunePeersExcept env order keep n =
     foldl (prune_peer env keep) n (List.map_filter (peers (peerManager (n_fac n))) order)"

subsection \<open>Handler\<close>

fun add_remote_peers :: "'cand apply_env \<Rightarrow> Peer list \<Rightarrow> 'cand Node \<Rightarrow> bool \<times> 'cand Node" where
  "add_remote_peers env [] n = (True, n)"
| "add_remote_peers env (p # ps) n =
     (case Node_AddPeer env p n of
        (True, n') \<Rightarrow> add_remote_peers env ps n'
      | (False, n') \<Rightarrow> (False, n'))"

definition keep_apps :: "Message \<Rightarrow> string list" where
  "keep_apps msg =
     (case Current msg of Some c \<Rightarrow> if AppID c \<noteq> [] then [AppID c] else [] | None \<Rightarrow> [])
     @ map AppID (ComputedPeers msg)"

definition applyRemotePeers :: "'cand apply_env \<Rightarrow> string list \<Rightarrow> Message \<Rightarrow> 'cand Node \<Rightarrow> bool \<times> 'cand Node" where
  "applyRemotePeers env order msg n =
     (case add_remote_peers env (ComputedPeers msg) (PrunePeersExcept env order (keep_apps msg) n) of
        (False, n') \<Rightarrow> (False, n')
      | (True, n') \<Rightarrow>
          (True, n'\<lparr>n_exit := applyExit (a_outcomes env) (a_manifest_ok env) (a_iface env)
                                (map (\<lambda>p. (AppID p, AllowedIPs p)) (ComputedPeers msg)) (n_exit n')\<rparr>))"

definition applyFirewallRules :: "'cand apply_env \<Rightarrow> Message \<Rightarrow> 'cand Node \<Rightarrow> bool \<times> 'cand Node" where
  "applyFirewallRules env msg n =
     (case ComputedRules msg of
        None \<Rightarrow> (True, n)
      | Some r \<Rightarrow> if a_provision env r then (True, n\<lparr>n_rules := Some r\<rparr>) else (False, n))"

definition own_record :: "Peer \<Rightarrow> string \<Rightarrow> Peer" where
  "own_record c addr = (if AllowedIPs c = [] then c\<lparr>AllowedIPs := addr @ ''/32''\<rparr> else c)"

text \<open>\<open>ParseIP\<close> reads IPv4 addresses, which overlay addresses are.\<close>

definition MeshCIDRFromAddr :: "string \<Rightarrow> string" where
  "MeshCIDRFromAddr addr =
     (case ParseIP addr of
        None \<Rightarrow> []
      | Some a \<Rightarrow> Join (CHR ''.'') (map Itoa (take 3 (octets a)) @ [''0'']) @ ''/24'')"

definition HostFromAllowedIPs :: "(string \<Rightarrow> (Addr \<times> nat) option) \<Rightarrow> string \<Rightarrow> bytes option" where
  "HostFromAllowedIPs ParsePrefix allowed =
     (case List.map_filter (\<lambda>part. case ParsePrefix (TrimSpace part) of
             Some (A6 b, bits) \<Rightarrow> if bits = 128 \<and> Contains6 b then Some b else None
           | _ \<Rightarrow> None) (Split (CHR '','') allowed) of
        [] \<Rightarrow> None
      | b # _ \<Rightarrow> Some b)"

definition host_setup :: "'cand apply_env \<Rightarrow> Peer \<Rightarrow> string \<Rightarrow> host_call list" where
  "host_setup env c addr =
     (case HostFromAllowedIPs (a_ParsePrefix env) (AllowedIPs c) of Some v6 \<Rightarrow> [CallOverlay6 v6] | None \<Rightarrow> [])
     @ (if AdvertisedRoutes c \<noteq> [] \<and> MeshCIDRFromAddr addr \<noteq> []
        then [CallExitGateway (MeshCIDRFromAddr addr)] else [])"

definition applyFullConfig :: "'cand apply_env \<Rightarrow> string list \<Rightarrow> Message \<Rightarrow> 'cand Node \<Rightarrow> bool \<times> 'cand Node" where
  "applyFullConfig env order msg n =
     (case Current msg of
        None \<Rightarrow> (True, n)
      | Some c \<Rightarrow>
          (case Address c of
             None \<Rightarrow> (True, n)
           | Some addr \<Rightarrow>
               if addr = [] then (True, n)
               else if \<not> a_ip_ok env then (False, n)
               else
                 (let cur = own_record c addr
                  in case Node_AddPeer env cur (n\<lparr>n_calls := n_calls n @ [CallApplyIP addr]\<rparr>) of
                       (False, n1) \<Rightarrow> (False, n1)
                     | (True, n1) \<Rightarrow>
                         (case applyRemotePeers env order msg (n1\<lparr>n_calls := n_calls n1 @ host_setup env cur addr\<rparr>) of
                            (False, n2) \<Rightarrow> (False, n2)
                          | (True, n2) \<Rightarrow> applyFirewallRules env msg n2))))"

subsection \<open>Frames\<close>

lemma store_Start:
  assumes "probe_ok env p"
  shows "store (world (Start_probe env ext p)) = store (world p)"
  using probe_okD(1) [OF assms]
  by (simp add: Start_probe_def Transition_eq prepare_dialers_def factory_callbacks_def signaler_cb_def config_cb_def)

lemma store_Sync: "store (world (snd (SyncAllowedIPs env al p))) = store (world p)"
  by (simp add: SyncAllowedIPs_def register_peer_def case_prod_beta)

lemma state_Sync: "state (snd (SyncAllowedIPs env al p)) = state p"
  by (simp add: SyncAllowedIPs_def case_prod_beta)

lemma state_Start_live: "state p \<noteq> StateClosed \<Longrightarrow> state (Start_probe env ext p) \<noteq> StateClosed"
  by (simp add: Start_probe_def Transition_eq prepare_dialers_def)

lemma manager_on_probe:
  assumes "\<And>rid p. probes fac app = Some (rid, p) \<Longrightarrow>
      store (world (f (cfg rid) (p\<lparr>world := (world p)\<lparr>store := peerManager fac, clock := f_now fac\<rparr>\<rparr>))) = peerManager fac"
  shows "peerManager (on_probe cfg f app fac) = peerManager fac"
  using assms by (auto simp: on_probe_def Let_def split: option.split)

lemma factory_ok_manager: "factory_ok cfg (fac\<lparr>peerManager := m\<rparr>) = factory_ok cfg fac"
  by (simp add: factory_ok_def)

lemma newIce_Sync: "newIceDialer (snd (SyncAllowedIPs env al p)) = newIceDialer p"
  by (simp add: SyncAllowedIPs_def case_prod_beta)

lemma Get_probe_frame:
  shows "peerManager (Get_probe cfg rid fac) = peerManager fac"
    and "app \<noteq> i_AppID rid \<Longrightarrow> probes (Get_probe cfg rid fac) app = probes fac app"
    and "\<exists>r q. probes (Get_probe cfg rid fac) (i_AppID rid) = Some (r, q) \<and> state q \<noteq> StateClosed
           \<and> (\<forall>r' q'. probes fac (i_AppID rid) = Some (r', q') \<and> state q' \<noteq> StateClosed \<longrightarrow> r = r')"
  by (auto simp: Get_probe_def Register_probe_def NewProbe_def OnTransition_def NewStateMachine_def split: option.split)

lemma Client_AddPeer_frame:
  assumes "factory_ok (a_cfg env) fac" and "Client_AddPeer env p fac = (ok, fac')"
  shows "factory_ok (a_cfg env) fac'" and "peerManager fac' = peerManager fac"
    and "app \<noteq> AppID p \<Longrightarrow> probes fac' app = probes fac app"
    and "ok \<Longrightarrow> \<exists>r q. probes fac' (AppID p) = Some (r, q) \<and> state q \<noteq> StateClosed
           \<and> (\<forall>r' q'. probes fac (AppID p) = Some (r', q') \<and> state q' \<noteq> StateClosed \<longrightarrow> r = r')"
    and "ok \<longleftrightarrow> a_ParseKey env (PublicKey p) \<noteq> None" and "\<not> ok \<Longrightarrow> fac' = fac"
proof -
  let ?sync = "\<lambda>e q. snd (SyncAllowedIPs e (AllowedIPs p) q)"
  let ?start = "\<lambda>e. Start_probe e (a_ext env)"
  show ok: "ok \<longleftrightarrow> a_ParseKey env (PublicKey p) \<noteq> None"
    using assms(2) by (auto simp: Client_AddPeer_def Let_def split: option.splits)
  define f1 where "f1 = (case a_ParseKey env (PublicKey p) of
    Some key \<Rightarrow> Get_probe (a_cfg env) (NewPeerIdentity (AppID p) key) fac | None \<Rightarrow> fac)"
  define f2 where "f2 = on_probe (a_cfg env) ?sync (AppID p) f1"
  have fac': "fac' = (if ok then on_probe (a_cfg env) ?start (AppID p) f2 else fac)"
    using assms(2) by (auto simp: Client_AddPeer_def Let_def f1_def f2_def split: option.splits)
  then show "\<not> ok \<Longrightarrow> fac' = fac" by simp
  have ok1: "factory_ok (a_cfg env) f1"
    using assms(1) factory_ok_Get by (auto simp: f1_def split: option.split)
  have ok2: "factory_ok (a_cfg env) f2"
    unfolding f2_def by (rule factory_ok_on_probe [OF ok1]) (simp add: probe_ok_Sync newIce_Sync)
  show "factory_ok (a_cfg env) fac'"
    using assms(1) factory_ok_on_probe [OF ok2, of ?start "AppID p"] by (simp add: fac' probe_ok_Start)
  have "peerManager f1 = peerManager fac" by (simp add: f1_def Get_probe_frame split: option.split)
  moreover have "peerManager f2 = peerManager f1"
    unfolding f2_def by (rule manager_on_probe) (simp add: store_Sync)
  moreover have "peerManager (on_probe (a_cfg env) ?start (AppID p) f2) = peerManager f2"
    by (rule manager_on_probe) (simp add: store_Start probe_ok_world factory_okD(2) [OF ok2])
  ultimately show "peerManager fac' = peerManager fac" by (simp add: fac')
  show "app \<noteq> AppID p \<Longrightarrow> probes fac' app = probes fac app"
    by (simp add: fac' probes_on_probe f2_def f1_def Get_probe_frame NewPeerIdentity_def split: option.split)
  show "\<exists>r q. probes fac' (AppID p) = Some (r, q) \<and> state q \<noteq> StateClosed
           \<and> (\<forall>r' q'. probes fac (AppID p) = Some (r', q') \<and> state q' \<noteq> StateClosed \<longrightarrow> r = r')" if o: ok
  proof -
    obtain key where key: "a_ParseKey env (PublicKey p) = Some key" using ok o by auto
    obtain r q where q: "probes f1 (AppID p) = Some (r, q)" "state q \<noteq> StateClosed"
      "\<forall>r' q'. probes fac (AppID p) = Some (r', q') \<and> state q' \<noteq> StateClosed \<longrightarrow> r = r'"
      using Get_probe_frame(3) [of "a_cfg env" "NewPeerIdentity (AppID p) key" fac]
      by (auto simp: f1_def key NewPeerIdentity_def)
    show ?thesis
      using q o by (auto simp: fac' probes_on_probe f2_def state_Start_live state_Sync)
  qed
qed

definition node_ok :: "'cand apply_env \<Rightarrow> 'cand Node \<Rightarrow> bool" where
  "node_ok env n \<longleftrightarrow> factory_ok (a_cfg env) (n_fac n)
     \<and> (\<forall>app p. peers (peerManager (n_fac n)) app = Some p \<longrightarrow> AppID p = app)"

abbreviation stored :: "'cand Node \<Rightarrow> string \<rightharpoonup> Peer" where
  "stored n \<equiv> peers (peerManager (n_fac n))"

abbreviation probe_of :: "'cand Node \<Rightarrow> string \<rightharpoonup> PeerIdentity \<times> 'cand Probe" where
  "probe_of n \<equiv> probes (n_fac n)"

text \<open>A probe that is there and not closed, with the identity of the live probe it replaced.\<close>

definition live :: "(PeerIdentity \<times> 'cand Probe) option \<Rightarrow> bool" where
  "live x \<longleftrightarrow> (\<exists>r q. x = Some (r, q) \<and> state q \<noteq> StateClosed)"

lemma AppID_scrub [simp]: "AppID (scrub p) = AppID p"
  by (simp add: scrub_def)

lemma peers_AddPeer: "peers (the (AddPeer ParseKey m app (Some p))) = (peers m)(app \<mapsto> scrub p)"
  by (simp add: AddPeer_def Let_def split: option.split)

lemma peers_RemovePeer: "peers (RemovePeer ParseKey m app) = (peers m)(app := None)"
  by (auto simp: RemovePeer_def Let_def split: option.split)

lemma Node_AddPeer_frame:
  assumes "node_ok env n" and "Node_AddPeer env p n = (ok, n')"
  shows "node_ok env n'" and "stored n' = (stored n)(AppID p \<mapsto> scrub p)"
    and "app \<noteq> AppID p \<Longrightarrow> probe_of n' app = probe_of n app"
    and "ok \<Longrightarrow> PublicKey p \<noteq> n_key n \<Longrightarrow> live (probe_of n' (AppID p))"
    and "ok \<longleftrightarrow> PublicKey p = n_key n \<or> a_ParseKey env (PublicKey p) \<noteq> None"
    and "n_key n' = n_key n" and "n_rules n' = n_rules n" and "n_exit n' = n_exit n"
    and "n_removed n' = n_removed n"
    and "probe_of n app = Some (r, q) \<Longrightarrow> state q \<noteq> StateClosed \<Longrightarrow>
           \<exists>q'. probe_of n' app = Some (r, q') \<and> state q' \<noteq> StateClosed"
proof -
  define f0 where "f0 = (n_fac n)\<lparr>peerManager :=
    the (AddPeer (a_ParseKey env) (peerManager (n_fac n)) (AppID p) (Some p))\<rparr>"
  have f0: "factory_ok (a_cfg env) f0"
    using assms(1) by (simp add: node_ok_def f0_def factory_ok_manager)
  obtain b f where c: "Client_AddPeer env p f0 = (b, f)" by fastforce
  note fr = Client_AddPeer_frame [OF f0 c]
  have n': "n' = (if PublicKey p = n_key n then n\<lparr>n_fac := f0\<rparr> else n\<lparr>n_fac := f\<rparr>)"
    and ok: "ok = (PublicKey p = n_key n \<or> b)"
    using assms(2) c by (auto simp: Node_AddPeer_def Let_def f0_def split: if_splits)
  have st0: "peers (peerManager f0) = (stored n)(AppID p \<mapsto> scrub p)"
    by (simp add: f0_def peers_AddPeer)
  then show st: "stored n' = (stored n)(AppID p \<mapsto> scrub p)" using fr(2) by (simp add: n')
  then show "node_ok env n'"
    using f0 fr(1) assms(1) by (auto simp: node_ok_def n')
  show "app \<noteq> AppID p \<Longrightarrow> probe_of n' app = probe_of n app"
    using fr(3) by (simp add: n' f0_def)
  show "live (probe_of n' (AppID p))" if "ok" "PublicKey p \<noteq> n_key n"
    using fr(4) that ok by (auto simp: n' live_def)
  show "ok \<longleftrightarrow> PublicKey p = n_key n \<or> a_ParseKey env (PublicKey p) \<noteq> None"
    using ok fr(5) by simp
  show "n_key n' = n_key n" "n_rules n' = n_rules n" "n_exit n' = n_exit n" "n_removed n' = n_removed n"
    by (simp_all add: n')
  show "\<exists>q'. probe_of n' app = Some (r, q') \<and> state q' \<noteq> StateClosed"
    if q: "probe_of n app = Some (r, q)" "state q \<noteq> StateClosed"
  proof -
    have q0: "probes f0 app = Some (r, q)" using q(1) by (simp add: f0_def)
    have "\<exists>q'. probes f app = Some (r, q') \<and> state q' \<noteq> StateClosed"
    proof (cases "b \<and> app = AppID p")
      case True
      then show ?thesis using fr(4) q0 q(2) by metis
    next
      case False
      then have "probes f app = probes f0 app" using fr(3,6) by (cases b) auto
      then show ?thesis using q0 q(2) by simp
    qed
    then show ?thesis using q0 q(2) by (simp add: n')
  qed
qed

lemma add_peers_frame:
  assumes "node_ok env n" and "add_remote_peers env ps n = (ok, n')"
  shows "node_ok env n' \<and> n_key n' = n_key n \<and> n_rules n' = n_rules n \<and> n_exit n' = n_exit n
    \<and> (\<forall>app. app \<notin> AppID ` set ps \<longrightarrow> probe_of n' app = probe_of n app)
    \<and> (ok \<longleftrightarrow> list_all (\<lambda>p. PublicKey p = n_key n \<or> a_ParseKey env (PublicKey p) \<noteq> None) ps)
    \<and> (ok \<longrightarrow> stored n' = foldl (\<lambda>m p. m(AppID p \<mapsto> scrub p)) (stored n) ps)"
  using assms
proof (induction ps arbitrary: n)
  case (Cons p ps)
  obtain b n1 where a: "Node_AddPeer env p n = (b, n1)" by fastforce
  note fr = Node_AddPeer_frame [OF Cons.prems(1) a]
  show ?case
  proof (cases b)
    case True
    then have r: "add_remote_peers env ps n1 = (ok, n')" using Cons.prems(2) a by simp
    show ?thesis using Cons.IH [OF fr(1) r] fr(2,3,5-8) True by auto
  next
    case False
    then show ?thesis using Cons.prems(2) a fr(1,3,5-8) by auto
  qed
qed simp

lemma add_peers_live:
  assumes "node_ok env n" and "add_remote_peers env ps n = (True, n')" and "distinct (map AppID ps)"
    and "p \<in> set ps" and "PublicKey p \<noteq> n_key n"
  shows "live (probe_of n' (AppID p))"
  using assms
proof (induction ps arbitrary: n)
  case (Cons x ps)
  obtain n1 where a: "Node_AddPeer env x n = (True, n1)" and r: "add_remote_peers env ps n1 = (True, n')"
    using Cons.prems(2) by (auto split: prod.splits bool.splits)
  note fr = Node_AddPeer_frame [OF Cons.prems(1) a]
  show ?case
  proof (cases "p = x")
    case True
    then have "AppID x \<notin> AppID ` set ps" using Cons.prems(3) by auto
    then have "probe_of n' (AppID x) = probe_of n1 (AppID x)" using add_peers_frame [OF fr(1) r] by blast
    then show ?thesis using fr(4) Cons.prems(5) True by simp
  next
    case False
    then show ?thesis using Cons.IH [OF fr(1) r] Cons.prems(3-5) fr(6) by simp
  qed
qed simp

lemma add_peers_append:
  "add_remote_peers env ps n = (b, n1) \<Longrightarrow> add_remote_peers env (ps @ qs) n = (if b then add_remote_peers env qs n1 else (False, n1))"
  by (induction ps arbitrary: n) (auto split: prod.splits bool.splits)

lemma add_peers_identity:
  assumes "node_ok env n" and "add_remote_peers env ps n = (ok, n')"
    and "probe_of n app = Some (r, q)" and "state q \<noteq> StateClosed"
  shows "\<exists>q'. probe_of n' app = Some (r, q') \<and> state q' \<noteq> StateClosed"
  using assms
proof (induction ps arbitrary: n q)
  case (Cons p ps)
  obtain b n1 where a: "Node_AddPeer env p n = (b, n1)" by fastforce
  note fr = Node_AddPeer_frame [OF Cons.prems(1) a]
  obtain q1 where q1: "probe_of n1 app = Some (r, q1)" "state q1 \<noteq> StateClosed"
    using fr(10) [OF Cons.prems(3,4)] by blast
  show ?case
  proof (cases b)
    case True
    then have "add_remote_peers env ps n1 = (ok, n')" using Cons.prems(2) a by simp
    then show ?thesis using Cons.IH [OF fr(1) _ q1] by blast
  next
    case False
    then show ?thesis using Cons.prems(2) a q1 by auto
  qed
qed simp

subsection \<open>Pruning\<close>

lemma prune_peer_frame:
  assumes "node_ok env n"
  shows "node_ok env (prune_peer env keep n p)"
    and "n_key (prune_peer env keep n p) = n_key n" and "n_rules (prune_peer env keep n p) = n_rules n"
    and "n_exit (prune_peer env keep n p) = n_exit n"
    and "stored (prune_peer env keep n p) = (if AppID p \<in> set keep then stored n else (stored n)(AppID p := None))"
    and "probe_of (prune_peer env keep n p) = (if AppID p \<in> set keep then probe_of n else (probe_of n)(AppID p := None))"
  using assms
  by (auto simp: prune_peer_def Node_RemovePeer_def Remove_probe_def Let_def peers_RemovePeer node_ok_def factory_ok_def)

lemma prune_fold:
  assumes "node_ok env n" and n': "n' = foldl (prune_peer env keep) n ps"
  shows "node_ok env n' \<and> n_key n' = n_key n \<and> n_rules n' = n_rules n \<and> n_exit n' = n_exit n
    \<and> (\<forall>app. stored n' app = (if app \<in> AppID ` set ps - set keep then None else stored n app))
    \<and> (\<forall>app. probe_of n' app = (if app \<in> AppID ` set ps - set keep then None else probe_of n app))"
  using assms(1) unfolding n'
proof (induction ps arbitrary: n)
  case (Cons p ps)
  show ?case using Cons.IH [OF prune_peer_frame(1) [OF Cons.prems]] prune_peer_frame [OF Cons.prems, of keep p]
    by auto
qed simp

lemma PrunePeersExcept_frame:
  assumes "node_ok env n" and "dom (stored n) \<subseteq> set order" and n': "n' = PrunePeersExcept env order keep n"
  shows "node_ok env n'" and "n_key n' = n_key n" and "n_rules n' = n_rules n" and "n_exit n' = n_exit n"
    and "stored n' app = (if app \<in> set keep then stored n app else None)"
    and "probe_of n' app = (if app \<notin> set keep \<and> stored n app \<noteq> None then None else probe_of n app)"
proof -
  let ?ps = "List.map_filter (stored n) order"
  have apps: "app \<in> AppID ` set ?ps \<longleftrightarrow> stored n app \<noteq> None" for app
    using assms(1,2) by (force simp: node_ok_def map_filter_def image_iff dom_def)
  note f = prune_fold [OF assms(1) n' [unfolded PrunePeersExcept_def]]
  show "node_ok env n'" "n_key n' = n_key n" "n_rules n' = n_rules n" "n_exit n' = n_exit n" using f by auto
  show "stored n' app = (if app \<in> set keep then stored n app else None)" using f apps [of app] by auto
  show "probe_of n' app = (if app \<notin> set keep \<and> stored n app \<noteq> None then None else probe_of n app)"
    using f apps [of app] by auto
qed

subsection \<open>Whole applies\<close>

text \<open>A netmap that has something to apply: an own record with an address.\<close>

definition ready_netmap :: "Message \<Rightarrow> Peer \<Rightarrow> string \<Rightarrow> bool" where
  "ready_netmap msg c addr \<longleftrightarrow> Current msg = Some c \<and> Address c = Some addr \<and> addr \<noteq> [] \<and> AppID c \<noteq> []
     \<and> distinct (AppID c # map AppID (ComputedPeers msg))"

lemma AppID_own [simp]: "AppID (own_record c addr) = AppID c" "PublicKey (own_record c addr) = PublicKey c"
  by (simp_all add: own_record_def)

lemma node_ok_more [simp]:
  "node_ok env (n\<lparr>n_calls := x\<rparr>) = node_ok env n" "node_ok env (n\<lparr>n_exit := e\<rparr>) = node_ok env n"
  "node_ok env (n\<lparr>n_rules := y\<rparr>) = node_ok env n"
  by (simp_all add: node_ok_def)

text \<open>The state before the remote peers are added: the own record stored, the departed peers gone.\<close>

lemma apply_prefix:
  assumes "node_ok env n" and "insert (AppID c) (dom (stored n)) \<subseteq> set order" and "ready_netmap msg c addr"
    and "a_ip_ok env" and "PublicKey c = n_key n"
  obtains n2 where "node_ok env n2" and "n_key n2 = n_key n" and "n_rules n2 = n_rules n" and "n_exit n2 = n_exit n"
    and "\<And>app. stored n2 app = (if app = AppID c then Some (scrub (own_record c addr))
           else if app \<in> AppID ` set (ComputedPeers msg) then stored n app else None)"
    and "\<And>app. probe_of n2 app =
           (if app \<noteq> AppID c \<and> app \<notin> AppID ` set (ComputedPeers msg) \<and> stored n app \<noteq> None then None else probe_of n app)"
    and "applyFullConfig env order msg n =
      (case add_remote_peers env (ComputedPeers msg) n2 of
         (False, n3) \<Rightarrow> (False, n3)
       | (True, n3) \<Rightarrow> applyFirewallRules env msg
           (n3\<lparr>n_exit := applyExit (a_outcomes env) (a_manifest_ok env) (a_iface env)
                 (map (\<lambda>p. (AppID p, AllowedIPs p)) (ComputedPeers msg)) (n_exit n3)\<rparr>))"
proof -
  note m = assms(3) [unfolded ready_netmap_def]
  let ?cur = "own_record c addr"
  let ?n0 = "n\<lparr>n_calls := n_calls n @ [CallApplyIP addr]\<rparr>"
  obtain n1 where a: "Node_AddPeer env ?cur ?n0 = (True, n1)"
    using assms(5) by (simp add: Node_AddPeer_def Let_def)
  have ok0: "node_ok env ?n0" using assms(1) by simp
  note fr = Node_AddPeer_frame [OF ok0 a]
  have probes1: "probe_of n1 = probe_of n"
    using a assms(5) by (auto simp: Node_AddPeer_def Let_def)
  define n1' where "n1' = n1\<lparr>n_calls := n_calls n1 @ host_setup env ?cur addr\<rparr>"
  define n2 where "n2 = PrunePeersExcept env order (keep_apps msg) n1'"
  have ok1: "node_ok env n1'" using fr(1) by (simp add: n1'_def)
  have st1: "stored n1' = (stored n)(AppID c \<mapsto> scrub ?cur)" using fr(2) by (simp add: n1'_def)
  have pr1: "probe_of n1' = probe_of n" using probes1 by (simp add: n1'_def)
  have "dom (stored n1') \<subseteq> set order" using assms(2) by (auto simp: st1)
  note pf = PrunePeersExcept_frame [OF ok1 this n2_def]
  have keep: "set (keep_apps msg) = insert (AppID c) (AppID ` set (ComputedPeers msg))"
    using m by (simp add: keep_apps_def)
  show ?thesis
  proof (rule that [of n2])
    show "node_ok env n2" by (rule pf(1))
    show "n_key n2 = n_key n" "n_rules n2 = n_rules n" "n_exit n2 = n_exit n"
      using pf(2-4) fr(6-8) by (simp_all add: n1'_def)
    show "stored n2 app = (if app = AppID c then Some (scrub ?cur)
        else if app \<in> AppID ` set (ComputedPeers msg) then stored n app else None)" for app
      using pf(5) [of app] by (simp add: keep st1)
    show "probe_of n2 app = (if app \<noteq> AppID c \<and> app \<notin> AppID ` set (ComputedPeers msg) \<and> stored n app \<noteq> None
        then None else probe_of n app)" for app
      using pf(6) [of app] unfolding keep st1 pr1 by (cases "app = AppID c") auto
    show "applyFullConfig env order msg n =
      (case add_remote_peers env (ComputedPeers msg) n2 of
         (False, n3) \<Rightarrow> (False, n3)
       | (True, n3) \<Rightarrow> applyFirewallRules env msg
           (n3\<lparr>n_exit := applyExit (a_outcomes env) (a_manifest_ok env) (a_iface env)
                 (map (\<lambda>p. (AppID p, AllowedIPs p)) (ComputedPeers msg)) (n_exit n3)\<rparr>))"
      using m assms(4)
      by (simp add: applyFullConfig_def Let_def a applyRemotePeers_def n1'_def [symmetric] n2_def [symmetric]
          split: prod.split bool.split)
  qed
qed

lemma map_of_apps: "map_of (map (\<lambda>p. (AppID p, scrub p)) ps) app = None \<longleftrightarrow> app \<notin> AppID ` set ps"
  by (simp add: map_of_eq_None_iff image_comp comp_def)

lemma foldl_update_map_of:
  "distinct (map AppID ps) \<Longrightarrow>
   foldl (\<lambda>m p. m(AppID p \<mapsto> scrub p)) m ps app = (case map_of (map (\<lambda>p. (AppID p, scrub p)) ps) app of
     Some p \<Rightarrow> Some p | None \<Rightarrow> m app)"
proof (induction ps arbitrary: m)
  case (Cons p ps)
  have "map_of (map (\<lambda>p. (AppID p, scrub p)) ps) (AppID p) = None"
    using Cons.prems by (simp add: map_of_apps)
  then show ?case
    using Cons.IH [of "m(AppID p \<mapsto> scrub p)"] Cons.prems by (auto split: option.split)
qed simp

lemma netmap_keeps_key: "n_key (snd (applyFullConfig env order msg n)) = n_key n"
proof -
  have add: "n_key (snd (Node_AddPeer env p m)) = n_key m" for p and m :: "'a Node"
    by (simp add: Node_AddPeer_def Let_def case_prod_beta)
  have adds: "n_key (snd (add_remote_peers env ps m)) = n_key m" for ps and m :: "'a Node"
  proof (induction ps arbitrary: m)
    case (Cons p ps)
    show ?case using add [of p m] Cons by (auto split: prod.splits bool.splits)
  qed simp
  have prune: "n_key (foldl (prune_peer env keep) m ps) = n_key m" for keep ps and m :: "'a Node"
    by (induction ps arbitrary: m) (simp_all add: prune_peer_def Node_RemovePeer_def Let_def)
  have remote: "n_key (snd (applyRemotePeers env order msg m)) = n_key m" for m :: "'a Node"
    using adds [of "ComputedPeers msg" "PrunePeersExcept env order (keep_apps msg) m"]
    by (auto simp: applyRemotePeers_def PrunePeersExcept_def prune split: prod.splits bool.splits)
  have rules: "n_key (snd (applyFirewallRules env msg m)) = n_key m" for m :: "'a Node"
    by (simp add: applyFirewallRules_def split: option.split)
  have body: "n_key (snd (case Node_AddPeer env cur m of
        (False, n1) \<Rightarrow> (False, n1)
      | (True, n1) \<Rightarrow> (case applyRemotePeers env order msg (n1\<lparr>n_calls := n_calls n1 @ calls\<rparr>) of
          (False, n2) \<Rightarrow> (False, n2)
        | (True, n2) \<Rightarrow> applyFirewallRules env msg n2))) = n_key m" for cur calls and m :: "'a Node"
  proof -
    obtain b1 n1 where a: "Node_AddPeer env cur m = (b1, n1)" by fastforce
    obtain b2 n2 where r: "applyRemotePeers env order msg (n1\<lparr>n_calls := n_calls n1 @ calls\<rparr>) = (b2, n2)" by fastforce
    have "n_key n1 = n_key m" "n_key n2 = n_key n1"
      using add [of cur m] a remote [of "n1\<lparr>n_calls := n_calls n1 @ calls\<rparr>"] r by simp_all
    then show ?thesis using rules [of n2] by (simp add: a r split: bool.split)
  qed
  show ?thesis
    by (simp add: applyFullConfig_def Let_def body split: option.split)
qed

lemma node_ok_apply:
  assumes "node_ok env n"
  shows "node_ok env (snd (applyFullConfig env order msg n))"
proof -
  have add: "node_ok env m \<Longrightarrow> node_ok env (snd (Node_AddPeer env p m))" for p m
    using Node_AddPeer_frame(1) by (metis prod.collapse)
  have remote: "node_ok env (snd (applyRemotePeers env order msg m))" if "node_ok env m" for m
  proof -
    have "node_ok env (PrunePeersExcept env order (keep_apps msg) m)"
      unfolding PrunePeersExcept_def using prune_fold [OF that refl] by blast
    moreover obtain b m' where "add_remote_peers env (ComputedPeers msg) (PrunePeersExcept env order (keep_apps msg) m) = (b, m')"
      by fastforce
    ultimately show ?thesis
      using add_peers_frame [of env "PrunePeersExcept env order (keep_apps msg) m" "ComputedPeers msg" b m']
      by (cases b) (simp_all add: applyRemotePeers_def)
  qed
  have rules: "node_ok env m \<Longrightarrow> node_ok env (snd (applyFirewallRules env msg m))" for m
    by (simp add: applyFirewallRules_def split: option.split)
  have body: "node_ok env (snd (case Node_AddPeer env cur m of
        (False, n1) \<Rightarrow> (False, n1)
      | (True, n1) \<Rightarrow> (case applyRemotePeers env order msg (n1\<lparr>n_calls := n_calls n1 @ calls\<rparr>) of
          (False, n2) \<Rightarrow> (False, n2)
        | (True, n2) \<Rightarrow> applyFirewallRules env msg n2)))" if "node_ok env m" for cur calls m
  proof -
    obtain b1 n1 where a: "Node_AddPeer env cur m = (b1, n1)" by fastforce
    obtain b2 n2 where r: "applyRemotePeers env order msg (n1\<lparr>n_calls := n_calls n1 @ calls\<rparr>) = (b2, n2)" by fastforce
    have "node_ok env n1" "node_ok env n2"
      using add [OF that, of cur] a remote [of "n1\<lparr>n_calls := n_calls n1 @ calls\<rparr>"] r by simp_all
    then show ?thesis using rules [of n2] by (simp add: a r split: bool.split)
  qed
  show ?thesis
    using assms by (simp add: applyFullConfig_def Let_def body split: option.split)
qed

lemma netmap_succeeds:
  assumes "node_ok env n" and "insert (AppID c) (dom (stored n)) \<subseteq> set order" and "ready_netmap msg c addr"
    and "a_ip_ok env" and "PublicKey c = n_key n" and "applyFullConfig env order msg n = (ok, n')"
  shows "ok \<longleftrightarrow> list_all (\<lambda>p. PublicKey p = n_key n \<or> a_ParseKey env (PublicKey p) \<noteq> None) (ComputedPeers msg)
             \<and> (\<forall>r. ComputedRules msg = Some r \<longrightarrow> a_provision env r)"
proof (rule apply_prefix [OF assms(1-5)])
  fix n2
  assume n2: "node_ok env n2" "n_key n2 = n_key n"
    and eq: "applyFullConfig env order msg n =
      (case add_remote_peers env (ComputedPeers msg) n2 of
         (False, n3) \<Rightarrow> (False, n3)
       | (True, n3) \<Rightarrow> applyFirewallRules env msg
           (n3\<lparr>n_exit := applyExit (a_outcomes env) (a_manifest_ok env) (a_iface env)
                 (map (\<lambda>p. (AppID p, AllowedIPs p)) (ComputedPeers msg)) (n_exit n3)\<rparr>))"
  obtain b n3 where a: "add_remote_peers env (ComputedPeers msg) n2 = (b, n3)" by fastforce
  show ?thesis
    using add_peers_frame [OF n2(1) a] a assms(6) eq n2(2)
    by (cases b; cases "ComputedRules msg") (auto simp: applyFirewallRules_def split: if_splits)
qed

subsection \<open>Properties\<close>


definition ex_netmap :: "Peer list \<Rightarrow> FirewallRule option \<Rightarrow> Message" where
  "ex_netmap ps r =
     \<lparr>EventType = EventTypeJoinNetwork, ConfigVersion = ''v1'', Timestamp = 0, Changes = None,
      Current = Some (ex_peer\<lparr>AppID := ''me'', PublicKey := ''own'', Address := Some ''10.0.0.1''\<rparr>),
      m_Network = None, Policies = [], ComputedPeers = ps, ComputedRules = r, m_Labels = Map.empty\<rparr>"

definition ex_apply :: "string apply_env" where
  "ex_apply =
     \<lparr>a_cfg = ex_cfg, a_ParseKey = (\<lambda>k. if k = ''bad'' then None else Some []), a_ext = ex_out, a_ip_ok = True,
      a_provision = (\<lambda>_. True), a_outcomes = [], a_manifest_ok = True, a_iface = ''wf0'', a_ParsePrefix = (\<lambda>_. None)\<rparr>"

definition ex_node :: "string Node" where
  "ex_node = \<lparr>n_fac = ex_fac, n_key = ''own'', n_removed = [], n_calls = [], n_exit = exit_init bare_host, n_rules = None\<rparr>"

abbreviation ex_remote :: "string \<Rightarrow> string \<Rightarrow> Peer" where
  "ex_remote app key \<equiv> ex_peer\<lparr>AppID := app, PublicKey := key\<rparr>"

lemma ex_node_ok: "node_ok ex_apply ex_node" "stored ex_node = Map.empty"
proof -
  have "factory_ok ex_cfg ex_fac"
    unfolding ex_fac_def by (rule factory_ok_Get) (simp add: factory_ok_def NewProbeFactory_def)
  moreover have "stored ex_node = Map.empty"
    by (simp add: ex_node_def ex_fac_def Get_probe_frame NewProbeFactory_def NewPeerManager_def)
  ultimately show "node_ok ex_apply ex_node" "stored ex_node = Map.empty"
    by (simp_all add: node_ok_def ex_apply_def ex_node_def)
qed

lemma ex_netmap_ready:
  "distinct (''me'' # map AppID ps) \<Longrightarrow>
   ready_netmap (ex_netmap ps r) (ex_remote ''me'' ''own''\<lparr>Address := Some ''10.0.0.1''\<rparr>) ''10.0.0.1''"
  by (simp add: ready_netmap_def ex_netmap_def ex_peer_def)

lemma ex_node_simps [simp]:
  "n_key ex_node = ''own''" "n_rules ex_node = None" "a_ip_ok ex_apply" "a_provision ex_apply r"
  "a_ParseKey ex_apply k = (if k = ''bad'' then None else Some [])"
  "ComputedPeers (ex_netmap ps r') = ps" "ComputedRules (ex_netmap ps r') = r'"
  by (simp_all add: ex_node_def ex_apply_def ex_netmap_def)


text \<open>C36. One peer whose key cannot be read stops the whole apply after its predecessors were added: they
  are in the store with a live probe, while the enforcer keeps its old rules and the exit handler
  does not see the map, whatever the map says about either.\<close>

theorem bad_peer_blocks_policy:
  assumes "node_ok env n" and "insert (AppID c) (dom (stored n)) \<subseteq> set order" and "ready_netmap msg c addr"
    and "a_ip_ok env" and "PublicKey c = n_key n" and "ComputedPeers msg = ps @ bad # rest"
    and "list_all (\<lambda>p. PublicKey p \<noteq> n_key n \<and> a_ParseKey env (PublicKey p) \<noteq> None) ps"
    and "PublicKey bad \<noteq> n_key n" and "a_ParseKey env (PublicKey bad) = None"
    and "applyFullConfig env order msg n = (ok, n')"
  shows "\<not> ok \<and> n_rules n' = n_rules n \<and> n_exit n' = n_exit n
    \<and> (\<forall>p \<in> set ps. stored n' (AppID p) = Some (scrub p) \<and> live (probe_of n' (AppID p)))"
proof -
  obtain n2 where n2: "node_ok env n2" "n_key n2 = n_key n" "n_rules n2 = n_rules n" "n_exit n2 = n_exit n"
    and eq: "applyFullConfig env order msg n =
      (case add_remote_peers env (ComputedPeers msg) n2 of
         (False, n3) \<Rightarrow> (False, n3)
       | (True, n3) \<Rightarrow> applyFirewallRules env msg
           (n3\<lparr>n_exit := applyExit (a_outcomes env) (a_manifest_ok env) (a_iface env)
                 (map (\<lambda>p. (AppID p, AllowedIPs p)) (ComputedPeers msg)) (n_exit n3)\<rparr>))"
    by (rule apply_prefix [OF assms(1-5)]) blast
  obtain b n3 where a: "add_remote_peers env ps n2 = (b, n3)" by fastforce
  note fr = add_peers_frame [OF n2(1) a]
  have b: b using fr assms(7) n2(2) by (auto simp: list_all_iff)
  have n3: "node_ok env n3" "n_key n3 = n_key n" using fr n2(2) by auto
  obtain b4 n4 where a4: "Node_AddPeer env bad n3 = (b4, n4)" by fastforce
  note fr4 = Node_AddPeer_frame [OF n3(1) a4]
  have b4: "\<not> b4" using fr4(5) assms(8,9) n3(2) by simp
  have "add_remote_peers env (ps @ bad # rest) n2 = (False, n4)"
    using add_peers_append [OF a] b a4 b4 by simp
  then have res: "ok = False" "n' = n4" using assms(6,10) eq by simp_all
  have d: "distinct (map AppID ps)" "AppID bad \<notin> AppID ` set ps"
    using assms(3,6) by (auto simp: ready_netmap_def)
  have "stored n4 (AppID p) = Some (scrub p) \<and> live (probe_of n4 (AppID p))" if p: "p \<in> set ps" for p
  proof -
    have ne: "AppID p \<noteq> AppID bad" using d(2) p by (metis imageI)
    have "map_of (map (\<lambda>p. (AppID p, scrub p)) ps) (AppID p) = Some (scrub p)"
      using d(1) p by (intro map_of_is_SomeI) (auto simp: comp_def)
    then have "stored n3 (AppID p) = Some (scrub p)"
      using fr b foldl_update_map_of [OF d(1), of "stored n2" "AppID p"] by simp
    moreover have "live (probe_of n3 (AppID p))"
      using add_peers_live [OF n2(1) _ d(1) p] a b assms(7) n2(2) p by (auto simp: list_all_iff)
    ultimately show ?thesis using fr4(2,3) ne by simp
  qed
  then show ?thesis using res fr4(7,8) fr n2(3,4) by simp
qed

theorem bad_peer_blocks_policy_witness:
  "n_rules (snd (applyFullConfig ex_apply [''me'']
     (ex_netmap [ex_remote ''b'' ''kb'', ex_remote ''c'' ''bad'']
        (Some \<lparr>f_Platform = ''linux'', f_PolicyName = [], f_Ingress = [], f_Egress = []\<rparr>)) ex_node)) = None"
proof -
  let ?r = "Some \<lparr>f_Platform = ''linux'', f_PolicyName = [], f_Ingress = [], f_Egress = []\<rparr>"
  let ?m = "ex_netmap [ex_remote ''b'' ''kb'', ex_remote ''c'' ''bad''] ?r"
  obtain ok n' where e: "applyFullConfig ex_apply [''me''] ?m ex_node = (ok, n')" by fastforce
  have r: "ready_netmap ?m (ex_remote ''me'' ''own''\<lparr>Address := Some ''10.0.0.1''\<rparr>) ''10.0.0.1''"
    by (rule ex_netmap_ready) simp
  have "n_rules n' = n_rules ex_node"
    using bad_peer_blocks_policy [OF ex_node_ok(1) _ r _ _ _ _ _ _ e,
        where ps = "[ex_remote ''b'' ''kb'']" and bad = "ex_remote ''c'' ''bad''" and rest = "[]"] ex_node_ok(2)
    by simp
  then show ?thesis by (simp add: e)
qed

text \<open>C37. A peer that comes back under the same AppID with another key is stored with the new key, but as
  long as its probe is not closed the probe keeps the identity, and so the key, it was made for.\<close>

theorem rekeyed_peer_keeps_probe:
  assumes "node_ok env n" and "insert (AppID c) (dom (stored n)) \<subseteq> set order" and "ready_netmap msg c addr"
    and "a_ip_ok env" and "PublicKey c = n_key n" and "applyFullConfig env order msg n = (True, n')"
    and "p \<in> set (ComputedPeers msg)" and "probe_of n (AppID p) = Some (old, q)" and "state q \<noteq> StateClosed"
  shows "map_option PublicKey (stored n' (AppID p)) = Some (PublicKey p)
    \<and> (\<exists>q'. probe_of n' (AppID p) = Some (old, q'))"
proof -
  obtain n2 where n2: "node_ok env n2"
    and pr2: "\<And>app. probe_of n2 app =
           (if app \<noteq> AppID c \<and> app \<notin> AppID ` set (ComputedPeers msg) \<and> stored n app \<noteq> None then None else probe_of n app)"
    and eq: "applyFullConfig env order msg n =
      (case add_remote_peers env (ComputedPeers msg) n2 of
         (False, n3) \<Rightarrow> (False, n3)
       | (True, n3) \<Rightarrow> applyFirewallRules env msg
           (n3\<lparr>n_exit := applyExit (a_outcomes env) (a_manifest_ok env) (a_iface env)
                 (map (\<lambda>p. (AppID p, AllowedIPs p)) (ComputedPeers msg)) (n_exit n3)\<rparr>))"
    by (rule apply_prefix [OF assms(1-5)]) blast
  obtain n3 where a: "add_remote_peers env (ComputedPeers msg) n2 = (True, n3)"
    and n': "n_fac n' = n_fac n3"
    using assms(6) eq by (auto simp: applyFirewallRules_def split: prod.splits bool.splits option.splits if_splits)
  have "probe_of n2 (AppID p) = Some (old, q)" using pr2 [of "AppID p"] assms(7,8) by auto
  then have "\<exists>q'. probe_of n' (AppID p) = Some (old, q')"
    using add_peers_identity [OF n2 a _ assms(9)] n' by auto
  moreover have d: "distinct (map AppID (ComputedPeers msg))" using assms(3) by (simp add: ready_netmap_def)
  have "map_of (map (\<lambda>p. (AppID p, scrub p)) (ComputedPeers msg)) (AppID p) = Some (scrub p)"
    using d assms(7) by (intro map_of_is_SomeI) (auto simp: comp_def)
  then have "stored n' (AppID p) = Some (scrub p)"
    using add_peers_frame [OF n2 a] foldl_update_map_of [OF d, of "stored n2" "AppID p"] n' by simp
  ultimately show ?thesis by (simp add: scrub_def)
qed

theorem rekeyed_peer_keeps_probe_witness:
  "\<exists>q'. probe_of (snd (applyFullConfig ex_apply [''me''] (ex_netmap [ex_remote ''app'' ''newkey''] None) ex_node)) ''app''
          = Some (ex_rid, q')"
proof -
  let ?m = "ex_netmap [ex_remote ''app'' ''newkey''] None"
  obtain ok n' where e: "applyFullConfig ex_apply [''me''] ?m ex_node = (ok, n')" by fastforce
  have r: "ready_netmap ?m (ex_remote ''me'' ''own''\<lparr>Address := Some ''10.0.0.1''\<rparr>) ''10.0.0.1''"
    by (rule ex_netmap_ready) simp
  have ok using netmap_succeeds [OF ex_node_ok(1) _ r _ _ e] ex_node_ok(2) by simp
  then have e': "applyFullConfig ex_apply [''me''] ?m ex_node = (True, n')" using e by simp
  have p: "probe_of ex_node ''app'' = Some (ex_rid, NewProbe ex_penv NewPeerManager 0)"
    by (simp add: ex_node_def ex_fac_def Get_probe_def Register_probe_def NewProbeFactory_def ex_rid_def ex_cfg_def)
  have "state (NewProbe ex_penv NewPeerManager 0 :: string Probe) \<noteq> StateClosed"
    by (simp add: NewProbe_def OnTransition_def NewStateMachine_def)
  then show ?thesis
    using rekeyed_peer_keeps_probe [OF ex_node_ok(1) _ r _ _ e', of "ex_remote ''app'' ''newkey''" ex_rid] p ex_node_ok(2)
    by (simp add: e)
qed

text \<open>C14. Whatever maps an agent applies, in whatever surroundings, and whether the applies succeed or stop
  at an error, the node stays well formed: every stored record is filed under its own AppID, every
  probe of the table under the AppID of its identity, and every probe keeps its lifecycle invariant.\<close>

theorem node_well_formed:
  assumes "node_ok env n" and "list_all (\<lambda>(e, _, _). a_cfg e = a_cfg env) runs"
  shows "node_ok env (foldl (\<lambda>n (e, order, msg). snd (applyFullConfig e order msg n)) n runs)"
  using assms
proof (induction runs arbitrary: n)
  case (Cons x runs)
  obtain e order msg where x: "x = (e, order, msg)" by (cases x)
  have same: "node_ok e m = node_ok env m" for m using Cons.prems(2) by (simp add: x node_ok_def)
  have "node_ok env (snd (applyFullConfig e order msg n))"
    using node_ok_apply [of e n order msg] Cons.prems(1) same by simp
  then show ?case using Cons.IH Cons.prems(2) by (simp add: x)
qed simp

theorem node_well_formed_witness:
  "node_ok ex_apply (foldl (\<lambda>n (e, order, msg). snd (applyFullConfig e order msg n)) ex_node
     [(ex_apply, [''me''], ex_netmap [ex_remote ''b'' ''kb'', ex_remote ''c'' ''bad''] None),
      (ex_apply\<lparr>a_ip_ok := False\<rparr>, [''me'', ''b''], ex_netmap [] None)])"
  by (rule node_well_formed [OF ex_node_ok(1)]) simp

subsection \<open>Refresh and poll\<close>

text \<open>
  The versions a running agent remembers: the one it recorded after an apply, and the one the poll
  loop keeps for itself. \<open>lastApplied\<close> is not in the code: the map whose apply succeeded last.
\<close>

record 's netmap_sync =
  node :: 's
  appliedVersion :: string
  lastVersion :: string
  lastApplied :: "Message option"

datatype fetched = FetchFailed | FetchNil | Fetched Message

definition refresh_guard :: "Message \<Rightarrow> 's netmap_sync \<Rightarrow> bool" where
  "refresh_guard m s \<longleftrightarrow> \<not> (ConfigVersion m \<noteq> [] \<and> ConfigVersion m = appliedVersion s)"

text \<open>\<^verbatim>\<open>ApplyFullConfig\<close> runs under the handler's lock; the record of the version is a separate step.\<close>

definition refresh_apply :: "(Message \<Rightarrow> 's \<Rightarrow> bool \<times> 's) \<Rightarrow> Message \<Rightarrow> 's netmap_sync \<Rightarrow> bool \<times> 's netmap_sync" where
  "refresh_apply apply_full m s =
     (case apply_full m (node s) of
        (True, n) \<Rightarrow> (True, s\<lparr>node := n, lastApplied := Some m\<rparr>)
      | (False, n) \<Rightarrow> (False, s\<lparr>node := n\<rparr>))"

definition setAppliedVersion :: "string \<Rightarrow> 's netmap_sync \<Rightarrow> 's netmap_sync" where
  "setAppliedVersion v s = s\<lparr>appliedVersion := v\<rparr>"

definition RefreshConfig :: "(Message \<Rightarrow> 's \<Rightarrow> bool \<times> 's) \<Rightarrow> Message option \<Rightarrow> 's netmap_sync \<Rightarrow> bool \<times> 's netmap_sync" where
  "RefreshConfig apply_full fetch s =
     (case fetch of
        None \<Rightarrow> (False, s)
      | Some m \<Rightarrow>
          if \<not> refresh_guard m s then (True, s)
          else (case refresh_apply apply_full m s of
                  (False, s') \<Rightarrow> (False, s')
                | (True, s') \<Rightarrow> (True, setAppliedVersion (ConfigVersion m) s')))"

text \<open>One tick of \<^verbatim>\<open>RunNetmapSync\<close>, with the apply function the node gives it.\<close>

definition poll_tick :: "(Message \<Rightarrow> 's \<Rightarrow> bool \<times> 's) \<Rightarrow> fetched \<Rightarrow> 's netmap_sync \<Rightarrow> 's netmap_sync" where
  "poll_tick apply_full f s =
     (case f of
        Fetched m \<Rightarrow>
          if ConfigVersion m \<noteq> [] \<and> ConfigVersion m = lastVersion s then s
          else (case refresh_apply apply_full m s of
                  (False, s') \<Rightarrow> s'
                | (True, s') \<Rightarrow> (setAppliedVersion (ConfigVersion m) s')\<lparr>lastVersion := ConfigVersion m\<rparr>)
      | _ \<Rightarrow> s)"

datatype sync_event = Refresh "Message option" | Poll fetched

fun sync_step :: "(Message \<Rightarrow> 's \<Rightarrow> bool \<times> 's) \<Rightarrow> 's netmap_sync \<Rightarrow> sync_event \<Rightarrow> 's netmap_sync" where
  "sync_step f s (Refresh m) = snd (RefreshConfig f m s)"
| "sync_step f s (Poll m) = poll_tick f m s"

definition sync_init :: "'s \<Rightarrow> Message \<Rightarrow> 's netmap_sync" where
  "sync_init n m = \<lparr>node = n, appliedVersion = ConfigVersion m, lastVersion = [], lastApplied = Some m\<rparr>"

definition recorded :: "'s netmap_sync \<Rightarrow> bool" where
  "recorded s \<longleftrightarrow> (\<exists>m. lastApplied s = Some m \<and> appliedVersion s = ConfigVersion m)"

lemma recorded_step: "recorded s \<Longrightarrow> recorded (sync_step f s e)"
  by (cases e)
    (auto simp: recorded_def RefreshConfig_def poll_tick_def refresh_apply_def setAppliedVersion_def
      split: option.split prod.split bool.split fetched.split)

lemma recorded_run: "recorded s \<Longrightarrow> recorded (foldl (sync_step f) s es)"
  by (induction es arbitrary: s) (auto intro: recorded_step)

text \<open>C38. Refreshes and polls that do not overlap keep the recorded version equal to that of the map applied
  last, so every refresh that succeeds leaves the node on a map of the version the control plane
  has; but the poll loop compares with a version of its own, and a map that comes back after a
  refresh has replaced it is never applied again by polling, however often it is fetched.\<close>

theorem sync_converges_but_for_polls:
  assumes "s = foldl (sync_step f) (sync_init n m0) es"
    and "RefreshConfig f (Some m) s = (True, s')" and "ConfigVersion m \<noteq> []"
    and "ConfigVersion m1 \<noteq> []" and "ConfigVersion m1 \<noteq> ConfigVersion m" and "lastVersion s = ConfigVersion m1"
  shows "map_option ConfigVersion (lastApplied s') = Some (ConfigVersion m)
    \<and> foldl (sync_step f) s' (replicate k (Poll (Fetched m1))) = s'"
proof -
  have r: "recorded s"
    unfolding assms(1) by (rule recorded_run) (simp add: recorded_def sync_init_def)
  then have "recorded s'" using recorded_step [of s f "Refresh (Some m)"] assms(2) by simp
  moreover have "appliedVersion s' = ConfigVersion m \<and> lastVersion s' = lastVersion s"
    using assms(2)
    by (auto simp: RefreshConfig_def refresh_guard_def refresh_apply_def setAppliedVersion_def
        split: if_splits prod.splits bool.splits)
  moreover have "foldl (sync_step f) s' (replicate k (Poll (Fetched m1))) = s'" if "lastVersion s' = ConfigVersion m1"
    using that assms(4) by (induction k) (simp_all add: poll_tick_def)
  ultimately show ?thesis using assms(6) by (auto simp: recorded_def)
qed

definition ex_version :: "string \<Rightarrow> Message" where
  "ex_version v = (ex_netmap [] None)\<lparr>ConfigVersion := v\<rparr>"

abbreviation ex_full :: "Message \<Rightarrow> string Node \<Rightarrow> bool \<times> string Node" where
  "ex_full \<equiv> applyFullConfig ex_apply [''me'']"

lemma ex_full_ok: "fst (ex_full (ex_version v) n)" if "n_key n = ''own''"
  using that
  by (simp add: applyFullConfig_def ex_version_def ex_netmap_def ex_apply_def ex_peer_def own_record_def Node_AddPeer_def
      Let_def applyRemotePeers_def applyFirewallRules_def)

theorem sync_converges_but_for_polls_witness:
  "\<exists>s s'. lastVersion s = ''v1'' \<and> RefreshConfig ex_full (Some (ex_version ''v2'')) s = (True, s')
     \<and> foldl (sync_step ex_full) s' (replicate 3 (Poll (Fetched (ex_version ''v1'')))) = s'"
proof -
  define s where "s = foldl (sync_step ex_full) (sync_init ex_node (ex_version ''v0'')) [Poll (Fetched (ex_version ''v1''))]"
  have v: "ConfigVersion (ex_version v) = v" for v by (simp add: ex_version_def)
  obtain n1 where n1: "ex_full (ex_version ''v1'') ex_node = (True, n1)"
    using ex_full_ok [of ex_node "''v1''"] by (metis ex_node_simps(1) prod.collapse)
  have key: "n_key n1 = ''own''"
    using n1 netmap_keeps_key [of ex_apply "[''me'']" "ex_version ''v1''" ex_node] by simp
  obtain n2 where n2: "ex_full (ex_version ''v2'') n1 = (True, n2)"
    using ex_full_ok [of n1 "''v2''"] key by (metis prod.collapse)
  have s: "node s = n1" "appliedVersion s = ''v1''" "lastVersion s = ''v1''"
    using n1 by (simp_all add: s_def poll_tick_def sync_init_def refresh_apply_def setAppliedVersion_def v)
  obtain s' where s': "RefreshConfig ex_full (Some (ex_version ''v2'')) s = (True, s')"
    using n2 by (simp add: RefreshConfig_def refresh_guard_def refresh_apply_def s v)
  show ?thesis
    using sync_converges_but_for_polls [OF s_def s', of "ex_version ''v1''" 3] s' s(3) by (auto simp: v)
qed

text \<open>C39. Two refreshes that overlap can leave the node on the older map for good: both pass the guard, the
  newer map is applied first, and the newer version is recorded last. From then on every refresh
  that fetches the newer map is skipped.\<close>

theorem refresh_race_sticks:
  assumes "refresh_guard m1 s" and "refresh_guard m2 s"
    and "ConfigVersion m2 \<noteq> []"
    and "refresh_apply f m2 s = (True, s1)" and "refresh_apply f m1 s1 = (True, s2)"
    and "s3 = setAppliedVersion (ConfigVersion m2) (setAppliedVersion (ConfigVersion m1) s2)"
  shows "lastApplied s3 = Some m1 \<and> node s3 = snd (f m1 (node s1))
    \<and> foldl (sync_step f) s3 (replicate k (Refresh (Some m2))) = s3"
proof -
  have "lastApplied s3 = Some m1 \<and> node s3 = snd (f m1 (node s1))"
    using assms(5,6) by (auto simp: refresh_apply_def setAppliedVersion_def split: prod.splits bool.splits)
  moreover have "foldl (sync_step f) s3 (replicate k (Refresh (Some m2))) = s3"
    using assms(3,6) by (induction k) (simp_all add: RefreshConfig_def refresh_guard_def setAppliedVersion_def)
  ultimately show ?thesis by blast
qed

theorem refresh_race_sticks_witness:
  "\<exists>s1 s2 s3. refresh_apply ex_full (ex_version ''v2'') (sync_init ex_node (ex_version ''v0'')) = (True, s1)
     \<and> refresh_apply ex_full (ex_version ''v1'') s1 = (True, s2)
     \<and> s3 = setAppliedVersion ''v2'' (setAppliedVersion ''v1'' s2)
     \<and> lastApplied s3 = Some (ex_version ''v1'')
     \<and> foldl (sync_step ex_full) s3 (replicate 3 (Refresh (Some (ex_version ''v2'')))) = s3"
proof -
  define s where "s = sync_init ex_node (ex_version ''v0'')"
  have v: "ConfigVersion (ex_version v) = v" for v by (simp add: ex_version_def)
  obtain n1 where n1: "ex_full (ex_version ''v2'') ex_node = (True, n1)"
    using ex_full_ok [of ex_node "''v2''"] by (metis ex_node_simps(1) prod.collapse)
  have key: "n_key n1 = ''own''"
    using n1 netmap_keeps_key [of ex_apply "[''me'']" "ex_version ''v2''" ex_node] by simp
  obtain n2 where n2: "ex_full (ex_version ''v1'') n1 = (True, n2)"
    using ex_full_ok [of n1 "''v1''"] key by (metis prod.collapse)
  obtain s1 where s1: "refresh_apply ex_full (ex_version ''v2'') s = (True, s1)" "node s1 = n1"
    using n1 by (simp add: refresh_apply_def s_def sync_init_def)
  obtain s2 where s2: "refresh_apply ex_full (ex_version ''v1'') s1 = (True, s2)"
    using n2 s1(2) by (simp add: refresh_apply_def)
  have g: "refresh_guard (ex_version ''v1'') s" "refresh_guard (ex_version ''v2'') s"
    by (simp_all add: refresh_guard_def s_def sync_init_def v)
  show ?thesis
    using refresh_race_sticks [OF g _ s1(1) s2 refl, of 3] s1(1) s2 unfolding s_def [symmetric] by (simp add: v)
qed

end
