(* ===== verification/Heap.thy ===== *)
theory Heap
  imports Prelude
begin

text \<open>
  The binary heap of Go's \<^verbatim>\<open>container/heap\<close>, which the reconcile runner instantiates for its
  timed events: the sift-up and sift-down loops on a slice, \<open>heap_push\<close> and \<open>heap_pop\<close>.
  The order comes from a key into a linear order, so that \<open>Less i j\<close> is
  \<open>key (xs ! i) < key (xs ! j)\<close>. The contract a client relies on is the locale
  \<open>priority_queue\<close>; the slice heap interprets it.
\<close>

definition swap :: "nat \<Rightarrow> nat \<Rightarrow> 'a list \<Rightarrow> 'a list" where
  "swap i j xs = xs[i := xs ! j, j := xs ! i]"

definition parent :: "nat \<Rightarrow> nat" where
  "parent j = (j - 1) div 2"

function heap_up :: "('a \<Rightarrow> 'k::linorder) \<Rightarrow> 'a list \<Rightarrow> nat \<Rightarrow> 'a list" where
  "heap_up key xs j =
     (if parent j = j \<or> \<not> key (xs ! j) < key (xs ! parent j) then xs
      else heap_up key (swap (parent j) j xs) (parent j))"
  by pat_completeness auto
termination
  by (relation "measure (\<lambda>(_, _, j). j)") (auto simp: parent_def)

definition min_child :: "('a \<Rightarrow> 'k::linorder) \<Rightarrow> 'a list \<Rightarrow> nat \<Rightarrow> nat \<Rightarrow> nat" where
  "min_child key xs i n =
     (let j1 = 2 * i + 1; j2 = j1 + 1
      in if j2 < n \<and> key (xs ! j2) < key (xs ! j1) then j2 else j1)"

function heap_down :: "('a \<Rightarrow> 'k::linorder) \<Rightarrow> 'a list \<Rightarrow> nat \<Rightarrow> nat \<Rightarrow> 'a list" where
  "heap_down key xs i n =
     (if n \<le> 2 * i + 1 then xs
      else if \<not> key (xs ! min_child key xs i n) < key (xs ! i) then xs
      else heap_down key (swap i (min_child key xs i n) xs) (min_child key xs i n) n)"
  by pat_completeness auto
termination
  by (relation "measure (\<lambda>(_, _, i, n). n - i)") (auto simp: min_child_def Let_def)

declare heap_up.simps [simp del] heap_down.simps [simp del]

definition heap_push :: "('a \<Rightarrow> 'k::linorder) \<Rightarrow> 'a list \<Rightarrow> 'a \<Rightarrow> 'a list" where
  "heap_push key xs x = heap_up key (xs @ [x]) (length xs)"

definition heap_pop :: "('a \<Rightarrow> 'k::linorder) \<Rightarrow> 'a list \<Rightarrow> ('a \<times> 'a list) option" where
  "heap_pop key xs =
     (case xs of [] \<Rightarrow> None
      | _ \<Rightarrow> (let n = length xs - 1; ys = heap_down key (swap 0 n xs) 0 n
             in Some (last ys, butlast ys)))"

subsection \<open>Contents\<close>

lemma length_swap [simp]: "length (swap i j xs) = length xs"
  by (simp add: swap_def)

lemma mset_swap_in [simp]: "i < length xs \<Longrightarrow> j < length xs \<Longrightarrow> mset (swap i j xs) = mset xs"
  by (simp add: swap_def mset_swap)

lemma nth_swap:
  "i < length xs \<Longrightarrow> j < length xs \<Longrightarrow> k < length xs \<Longrightarrow>
   swap i j xs ! k = (if k = j then xs ! i else if k = i then xs ! j else xs ! k)"
  by (simp add: swap_def nth_list_update)

lemma parent_le: "parent j \<le> j"
  by (simp add: parent_def)

lemma parent_less: "0 < j \<Longrightarrow> parent j < j"
  by (auto simp: parent_def)

lemma parent_fix [simp]: "parent j = j \<longleftrightarrow> j = 0"
  using parent_less by (cases j) (auto simp: parent_def)

lemma mset_heap_up: "j < length xs \<Longrightarrow> mset (heap_up key xs j) = mset xs"
proof (induction key xs j rule: heap_up.induct)
  case (1 key xs j)
  moreover have "parent j < length xs"
    using "1.prems" parent_le le_less_trans by blast
  ultimately show ?case
    by (subst heap_up.simps) simp
qed

lemma min_child_bounds: "2 * i + 1 < n \<Longrightarrow> i < min_child key xs i n \<and> min_child key xs i n < n"
  by (auto simp: min_child_def Let_def)

lemma heap_down_mset_length:
  "n \<le> length xs \<Longrightarrow> mset (heap_down key xs i n) = mset xs \<and> length (heap_down key xs i n) = length xs"
proof (induction key xs i n rule: heap_down.induct)
  case (1 key xs i n)
  show ?case
  proof (cases "n \<le> 2 * i + 1 \<or> \<not> key (xs ! min_child key xs i n) < key (xs ! i)")
    case True
    then show ?thesis by (auto simp: heap_down.simps [of key xs i n])
  next
    case False
    then have "i < min_child key xs i n" "min_child key xs i n < n"
      using min_child_bounds [of i n key xs] by auto
    with False 1 show ?thesis
      by (simp add: heap_down.simps [of key xs i n])
  qed
qed

text \<open>The sift-down loop leaves the slots from \<open>n\<close> on alone.\<close>

lemma heap_down_above:
  "n \<le> length xs \<Longrightarrow> n \<le> k \<Longrightarrow> k < length xs \<Longrightarrow> heap_down key xs i n ! k = xs ! k"
proof (induction key xs i n rule: heap_down.induct)
  case (1 key xs i n)
  show ?case
  proof (cases "n \<le> 2 * i + 1 \<or> \<not> key (xs ! min_child key xs i n) < key (xs ! i)")
    case True
    then show ?thesis by (subst heap_down.simps) auto
  next
    case False
    then have "i < min_child key xs i n" "min_child key xs i n < n"
      using min_child_bounds [of i n key xs] by auto
    with False 1 show ?thesis
      by (subst heap_down.simps) (simp add: nth_swap)
  qed
qed

subsection \<open>The heap order\<close>

definition is_heap :: "('a \<Rightarrow> 'k::linorder) \<Rightarrow> 'a list \<Rightarrow> nat \<Rightarrow> bool" where
  "is_heap key xs n \<longleftrightarrow> (\<forall>i. 0 < i \<longrightarrow> i < n \<longrightarrow> key (xs ! parent i) \<le> key (xs ! i))"

text \<open>The order may fail between \<open>j\<close> and its parent only, and skipping \<open>j\<close> it holds.\<close>

definition up_heap :: "('a \<Rightarrow> 'k::linorder) \<Rightarrow> 'a list \<Rightarrow> nat \<Rightarrow> bool" where
  "up_heap key xs j \<longleftrightarrow>
     (\<forall>i. 0 < i \<longrightarrow> i < length xs \<longrightarrow> i \<noteq> j \<longrightarrow> key (xs ! parent i) \<le> key (xs ! i)) \<and>
     (\<forall>i. 0 < j \<longrightarrow> 0 < i \<longrightarrow> i < length xs \<longrightarrow> parent i = j \<longrightarrow> key (xs ! parent j) \<le> key (xs ! i))"

text \<open>The order may fail between \<open>p\<close> and its children only, and skipping \<open>p\<close> it holds.\<close>

definition down_heap :: "('a \<Rightarrow> 'k::linorder) \<Rightarrow> 'a list \<Rightarrow> nat \<Rightarrow> nat \<Rightarrow> bool" where
  "down_heap key xs p n \<longleftrightarrow>
     (\<forall>i. 0 < i \<longrightarrow> i < n \<longrightarrow> parent i \<noteq> p \<longrightarrow> key (xs ! parent i) \<le> key (xs ! i)) \<and>
     (\<forall>i. 0 < p \<longrightarrow> 0 < i \<longrightarrow> i < n \<longrightarrow> parent i = p \<longrightarrow> key (xs ! parent p) \<le> key (xs ! i))"

lemma up_heap_swap:
  assumes "up_heap key xs j" "j < length xs" "0 < j" "key (xs ! j) < key (xs ! parent j)"
  shows "up_heap key (swap (parent j) j xs) (parent j)"
proof -
  have pj: "parent j < j" "parent j < length xs"
    using assms parent_less [of j] by auto
  have ord: "key (xs ! parent i) \<le> key (xs ! i)" if "0 < i" "i < length xs" "i \<noteq> j" for i
    using assms(1) that by (simp add: up_heap_def)
  have skip: "key (xs ! parent j) \<le> key (xs ! i)" if "0 < i" "i < length xs" "parent i = j" for i
    using assms(1,3) that by (simp add: up_heap_def)
  have par: "parent i < length xs" if "i < length xs" for i
    using that parent_le le_less_trans by blast
  show ?thesis
    unfolding up_heap_def
  proof (intro conjI allI impI)
    fix i assume i: "0 < i" "i < length (swap (parent j) j xs)" "i \<noteq> parent j"
    then show "key (swap (parent j) j xs ! parent i) \<le> key (swap (parent j) j xs ! i)"
      using ord [of i] skip [of i] assms pj par [of i]
      by (auto simp: nth_swap intro: less_imp_le)
  next
    fix i assume i: "0 < parent j" "0 < i" "i < length (swap (parent j) j xs)" "parent i = parent j"
    then have "key (xs ! parent (parent j)) \<le> key (xs ! parent j)"
      using ord [of "parent j"] pj by simp
    moreover have "key (xs ! parent j) \<le> key (xs ! i)" if "i \<noteq> j"
      using ord [of i] i that by simp
    moreover have "parent (parent j) < parent j"
      using i parent_less by blast
    ultimately show "key (swap (parent j) j xs ! parent (parent j)) \<le> key (swap (parent j) j xs ! i)"
      using i pj assms(2) by (auto simp: nth_swap)
  qed
qed

lemma heap_up_is_heap:
  "up_heap key xs j \<Longrightarrow> j < length xs \<Longrightarrow> is_heap key (heap_up key xs j) (length xs)"
proof (induction key xs j rule: heap_up.induct)
  case (1 key xs j)
  show ?case
  proof (cases "parent j = j \<or> \<not> key (xs ! j) < key (xs ! parent j)")
    case True
    then have "j = 0 \<or> key (xs ! parent j) \<le> key (xs ! j)"
      by auto
    with "1.prems" have "is_heap key xs (length xs)"
      by (auto simp: is_heap_def up_heap_def)
    with True show ?thesis by (subst heap_up.simps) simp
  next
    case False
    then have "up_heap key (swap (parent j) j xs) (parent j)"
      using "1.prems" by (intro up_heap_swap) auto
    moreover have "parent j < length xs"
      using "1.prems" parent_le le_less_trans by blast
    ultimately show ?thesis
      using "1.IH" False by (subst heap_up.simps) simp
  qed
qed

lemma child_parent: "parent (2 * i + 1) = i" "parent (2 * i + 2) = i"
  by (simp_all add: parent_def)

lemma parent_child: "0 < k \<Longrightarrow> parent k = i \<longleftrightarrow> k = 2 * i + 1 \<or> k = 2 * i + 2"
  by (auto simp: parent_def)

lemma parent_min_child [simp]: "parent (min_child key xs i n) = i"
  by (auto simp: min_child_def Let_def parent_def)

lemma min_child_least:
  "0 < k \<Longrightarrow> k < n \<Longrightarrow> parent k = i \<Longrightarrow> key (xs ! min_child key xs i n) \<le> key (xs ! k)"
  by (auto simp: parent_child min_child_def Let_def)

lemma down_heap_swap:
  assumes down: "down_heap key xs i n" and n: "n \<le> length xs" "2 * i + 1 < n"
    and lt: "key (xs ! min_child key xs i n) < key (xs ! i)"
  shows "down_heap key (swap i (min_child key xs i n) xs) (min_child key xs i n) n"
proof -
  let ?m = "min_child key xs i n"
  have m: "i < ?m" "?m < n"
    using min_child_bounds [of i n key xs] n by auto
  have ord: "key (xs ! parent k) \<le> key (xs ! k)" if "0 < k" "k < n" "parent k \<noteq> i" for k
    using down that by (simp add: down_heap_def)
  have skip: "key (xs ! parent i) \<le> key (xs ! k)" if "0 < i" "0 < k" "k < n" "parent k = i" for k
    using down that by (simp add: down_heap_def)
  have least: "key (xs ! ?m) \<le> key (xs ! k)" if "0 < k" "k < n" "parent k = i" for k
    using that by (rule min_child_least)
  have par: "parent k < n" if "k < n" for k
    using that parent_le le_less_trans by blast
  show ?thesis
    unfolding down_heap_def
  proof (intro conjI allI impI)
    fix k assume k: "0 < k" "k < n" "parent k \<noteq> ?m"
    have "parent k < k" using k parent_less by blast
    then have in_range: "parent k < length xs" "k < length xs" "i < length xs" "?m < length xs"
      using k m n by auto
    consider (child) "parent k = i" | (at) "parent k \<noteq> i" "k = i"
      | (other) "parent k \<noteq> i" "k \<noteq> i" by blast
    then show "key (swap i ?m xs ! parent k) \<le> key (swap i ?m xs ! k)"
    proof cases
      case child
      with k m lt least [OF k(1,2)] in_range show ?thesis
        by (simp add: nth_swap less_imp_le)
    next
      case at
      with k m skip [of ?m] in_range show ?thesis
        by (simp add: nth_swap)
    next
      case other
      with k m ord [OF k(1,2)] in_range parent_min_child [of key xs i n] show ?thesis
        by (auto simp: nth_swap)
    qed
  next
    fix k assume k: "0 < ?m" "0 < k" "k < n" "parent k = ?m"
    then have "key (xs ! ?m) \<le> key (xs ! k)"
      using ord [of k] m by simp
    moreover have "?m < k"
      using parent_less [OF k(2)] k(4) by simp
    ultimately show "key (swap i ?m xs ! parent ?m) \<le> key (swap i ?m xs ! k)"
      using k m n by (auto simp: nth_swap)
  qed
qed

lemma heap_down_is_heap:
  "down_heap key xs i n \<Longrightarrow> n \<le> length xs \<Longrightarrow> is_heap key (heap_down key xs i n) n"
proof (induction key xs i n rule: heap_down.induct)
  case (1 key xs i n)
  show ?case
  proof (cases "n \<le> 2 * i + 1 \<or> \<not> key (xs ! min_child key xs i n) < key (xs ! i)")
    case True
    have "key (xs ! i) \<le> key (xs ! k)" if "0 < k" "k < n" "parent k = i" for k
      using True that min_child_least [of k n i key xs] by (auto simp: parent_child)
    moreover have "key (xs ! parent k) \<le> key (xs ! k)" if "0 < k" "k < n" "parent k \<noteq> i" for k
      using that "1.prems" by (simp add: down_heap_def)
    ultimately have "is_heap key xs n"
      unfolding is_heap_def by blast
    with True show ?thesis by (auto simp: heap_down.simps [of key xs i n])
  next
    case False
    then have "down_heap key (swap i (min_child key xs i n) xs) (min_child key xs i n) n"
      using "1.prems" by (intro down_heap_swap) auto
    with False "1.prems" "1.IH" show ?thesis
      by (simp add: heap_down.simps [of key xs i n])
  qed
qed

lemma is_heap_root_least:
  "is_heap key xs n \<Longrightarrow> i < n \<Longrightarrow> key (xs ! 0) \<le> key (xs ! i)"
proof (induction i rule: less_induct)
  case (less i)
  show ?case
  proof (cases "i = 0")
    case False
    then have "parent i < i" using parent_less by blast
    with less have "key (xs ! 0) \<le> key (xs ! parent i)" by simp
    also have "\<dots> \<le> key (xs ! i)" using less.prems False by (simp add: is_heap_def)
    finally show ?thesis .
  qed simp
qed

subsection \<open>Push and pop\<close>

definition heap_ok :: "('a \<Rightarrow> 'k::linorder) \<Rightarrow> 'a list \<Rightarrow> bool" where
  "heap_ok key xs \<longleftrightarrow> is_heap key xs (length xs)"

lemma heap_ok_Nil [simp]: "heap_ok key []"
  by (simp add: heap_ok_def is_heap_def)

lemma mset_heap_push [simp]: "mset (heap_push key xs x) = add_mset x (mset xs)"
  by (simp add: heap_push_def mset_heap_up)

lemma set_heap_push [simp]: "set (heap_push key xs x) = insert x (set xs)"
  by (metis mset_heap_push set_mset_add_mset_insert set_mset_mset)

lemma length_heap_push [simp]: "length (heap_push key xs x) = Suc (length xs)"
  by (metis mset_heap_push size_add_mset size_mset)

lemma heap_ok_push [simp]:
  assumes "heap_ok key xs"
  shows "heap_ok key (heap_push key xs x)"
proof -
  have "parent i < length xs" if "i < length xs" for i
    using that parent_le le_less_trans by blast
  then have "up_heap key (xs @ [x]) (length xs)"
    using assms by (auto simp: up_heap_def heap_ok_def is_heap_def nth_append parent_child)
  then show ?thesis
    unfolding heap_ok_def heap_push_def
    by (metis heap_up_is_heap length_append_singleton lessI mset_heap_up size_mset)
qed

lemma heap_pop_Nil [simp]: "heap_pop key [] = None"
  by (simp add: heap_pop_def)

text \<open>Whatever the order of the slice, \<open>heap_pop\<close> removes its first element.\<close>

definition pop_rest :: "('a \<Rightarrow> 'k::linorder) \<Rightarrow> 'a list \<Rightarrow> 'a list" where
  "pop_rest key xs = butlast (heap_down key (swap 0 (length xs - 1) xs) 0 (length xs - 1))"

lemma pop_split:
  assumes "xs \<noteq> []"
  shows "heap_down key (swap 0 (length xs - 1) xs) 0 (length xs - 1) = pop_rest key xs @ [hd xs]"
proof -
  let ?n = "length xs - 1"
  let ?zs = "swap 0 ?n xs"
  let ?d = "heap_down key ?zs 0 ?n"
  have n: "?n < length xs" "0 < length xs" using assms by auto
  have len: "length ?d = length xs"
    using heap_down_mset_length [of ?n ?zs key 0] by simp
  with n have ne: "?d \<noteq> []" by auto
  have "?d ! ?n = ?zs ! ?n" using heap_down_above [of ?n ?zs ?n key 0] n by simp
  also have "\<dots> = hd xs" using assms(1) n by (simp add: nth_swap hd_conv_nth)
  finally have "last ?d = hd xs" using len ne by (simp add: last_conv_nth)
  then show ?thesis
    using append_butlast_last_id [OF ne] by (simp add: pop_rest_def)
qed

lemma heap_pop_Cons: "xs \<noteq> [] \<Longrightarrow> heap_pop key xs = Some (hd xs, pop_rest key xs)"
  using pop_split [of xs key] by (cases xs) (simp_all add: heap_pop_def Let_def)

lemma mset_pop_rest: "xs \<noteq> [] \<Longrightarrow> mset xs = add_mset (hd xs) (mset (pop_rest key xs))"
proof -
  assume ne: "xs \<noteq> []"
  then have "length xs - 1 < length xs" "0 < length xs" by auto
  then have "mset xs = mset (heap_down key (swap 0 (length xs - 1) xs) 0 (length xs - 1))"
    using heap_down_mset_length [of "length xs - 1" "swap 0 (length xs - 1) xs" key 0] by simp
  then have "mset xs = mset (pop_rest key xs @ [hd xs])"
    by (simp only: pop_split [OF ne])
  then show ?thesis by simp
qed

lemma heap_ok_pop_rest:
  assumes "xs \<noteq> []" "heap_ok key xs"
  shows "heap_ok key (pop_rest key xs)"
proof -
  let ?n = "length xs - 1"
  let ?zs = "swap 0 ?n xs"
  let ?d = "heap_down key ?zs 0 ?n"
  have n: "?n < length xs" "0 < length xs" using assms by auto
  have "down_heap key ?zs 0 ?n"
    unfolding down_heap_def
  proof (intro conjI allI impI)
    fix i assume i: "0 < i" "i < ?n" "parent i \<noteq> 0"
    then have "parent i < ?n" using parent_less [of i] by simp
    with i n assms(2) show "key (?zs ! parent i) \<le> key (?zs ! i)"
      by (simp add: nth_swap heap_ok_def is_heap_def)
  qed simp
  then have heap: "is_heap key ?d ?n"
    by (rule heap_down_is_heap) simp
  have len: "length ?d = length xs"
    using heap_down_mset_length [of ?n ?zs key 0] by simp
  show ?thesis
    unfolding heap_ok_def is_heap_def
  proof (intro allI impI)
    fix i assume i: "0 < i" "i < length (pop_rest key xs)"
    then have "parent i < length (pop_rest key xs)"
      using parent_less [of i] by simp
    with i heap len show "key (pop_rest key xs ! parent i) \<le> key (pop_rest key xs ! i)"
      by (simp add: pop_rest_def nth_butlast is_heap_def)
  qed
qed

lemma heap_top_least: "heap_ok key xs \<Longrightarrow> x \<in> set xs \<Longrightarrow> key (xs ! 0) \<le> key x"
  by (auto simp: heap_ok_def in_set_conv_nth intro: is_heap_root_least)

subsection \<open>The contract\<close>

text \<open>
  What a client of a timed queue relies on: \<open>pop\<close> takes an element of least key, both
  operations keep the contents as a multiset and the representation invariant.
\<close>

locale priority_queue =
  fixes key :: "'a \<Rightarrow> 'k::linorder"
    and push :: "'q \<Rightarrow> 'a \<Rightarrow> 'q"
    and pop :: "'q \<Rightarrow> ('a \<times> 'q) option"
    and elems :: "'q \<Rightarrow> 'a multiset"
    and ok :: "'q \<Rightarrow> bool"
  assumes push_elems: "elems (push q x) = add_mset x (elems q)"
    and push_ok: "ok q \<Longrightarrow> ok (push q x)"
    and pop_None: "pop q = None \<longleftrightarrow> elems q = {#}"
    and pop_elems: "ok q \<Longrightarrow> pop q = Some (x, q') \<Longrightarrow> elems q = add_mset x (elems q')"
    and pop_ok: "ok q \<Longrightarrow> pop q = Some (x, q') \<Longrightarrow> ok q'"
    and pop_least: "ok q \<Longrightarrow> pop q = Some (x, q') \<Longrightarrow> y \<in># elems q \<Longrightarrow> key x \<le> key y"
begin

text \<open>An element is served before every element of larger key.\<close>

lemma pop_before: "ok q \<Longrightarrow> pop q = Some (x, q') \<Longrightarrow> y \<in># elems q' \<Longrightarrow> key x \<le> key y"
  using pop_elems pop_least by fastforce

lemma pop_size: "ok q \<Longrightarrow> pop q = Some (x, q') \<Longrightarrow> size (elems q') < size (elems q)"
  using pop_elems by fastforce

lemma pop_in: "ok q \<Longrightarrow> pop q = Some (x, q') \<Longrightarrow> x \<in># elems q"
  using pop_elems by fastforce

end

interpretation slice_heap: priority_queue key "heap_push key" "heap_pop key" mset "heap_ok key"
  for key :: "'a \<Rightarrow> 'k::linorder"
proof unfold_locales
  fix q :: "'a list"
  show "heap_pop key q = None \<longleftrightarrow> mset q = {#}"
    by (cases q) (auto simp: heap_pop_def Let_def)
next
  fix q q' :: "'a list" and x
  assume ok: "heap_ok key q" and pop: "heap_pop key q = Some (x, q')"
  then have "q \<noteq> []" by auto
  with ok pop have *: "x = hd q" "q' = pop_rest key q" "heap_ok key q'"
    by (auto simp: heap_pop_Cons heap_ok_pop_rest)
  then show "mset q = add_mset x (mset q')" "heap_ok key q'"
    using mset_pop_rest [OF \<open>q \<noteq> []\<close>] by simp_all
  show "key x \<le> key y" if "y \<in># mset q" for y
    using heap_top_least [OF ok, of y] that *(1) \<open>q \<noteq> []\<close> by (simp add: hd_conv_nth)
qed simp_all

end
