(* ===== verification/Runner.thy ===== *)
theory Runner
  imports Heap
begin

text \<open>
  The reconcile runner of the standalone control plane (\<^verbatim>\<open>internal/reconcile\<close>): registration,
  notification, and the scheduler loop with its pending queue, in-flight set, coalescing set,
  failure counters and timed event heap. Reconcilers and key listers are interfaces the runner
  only calls: a reconcile outcome is an arbitrary completion, a lister an arbitrary answer.

  The loop's iterations are \<open>loop_step\<close>; the other goroutines (notifiers between the inbox
  write and the wake-up, workers holding a task or blocked on the completion channel) are part
  of the state, so that the steps of the loop interleave with theirs.
\<close>

subsection \<open>Data\<close>

record Request =
  Kind :: string
  Key :: string

record Result =
  RequeueAfter :: duration

record ('rec, 'lst) registration =
  reg_kind :: string
  reconciler :: 'rec
  lister :: "'lst option"
  resync :: duration

record event =
  at :: time
  ev_req :: Request
  ev_kind :: string
  ev_resync :: bool

record completion =
  c_req :: Request
  c_res :: Result
  c_err :: bool

record ('rec, 'lst) Runner =
  workers :: nat
  backoff :: "duration list"
  regs :: "string \<rightharpoonup> ('rec, 'lst) registration"
  inbox :: "Request set"
  started :: bool
  wake :: bool

datatype runner_error = EmptyKind | NilReconciler string | ErrAlreadyStarted

definition DefaultResyncInterval :: duration where
  "DefaultResyncInterval = 30 * Second"

definition defaultWorkers :: nat where
  "defaultWorkers = 4"

subsection \<open>Construction and registration\<close>

datatype Option = WithWorkers int | WithBackoff "duration list"

fun apply_option :: "('rec, 'lst) Runner \<Rightarrow> Option \<Rightarrow> ('rec, 'lst) Runner" where
  "apply_option r (WithWorkers n) = (if n > 0 then r\<lparr>workers := nat n\<rparr> else r)"
| "apply_option r (WithBackoff steps) = (if length steps > 0 then r\<lparr>backoff := steps\<rparr> else r)"

definition default_runner :: "('rec, 'lst) Runner" where
  "default_runner =
     \<lparr>workers = defaultWorkers,
      backoff = [100 * Millisecond, Second, 5 * Second, 30 * Second],
      regs = Map.empty, inbox = {}, started = False, wake = False\<rparr>"

definition NewRunner :: "Option list \<Rightarrow> ('rec, 'lst) Runner" where
  "NewRunner opts = foldl apply_option default_runner opts"

definition RegisterWithResync ::
  "('rec, 'lst) Runner \<Rightarrow> string \<Rightarrow> 'rec option \<Rightarrow> 'lst option \<Rightarrow> duration \<Rightarrow>
   runner_error + ('rec, 'lst) Runner" where
  "RegisterWithResync r kind rec lst rs =
     (if kind = [] then Inl EmptyKind
      else case rec of None \<Rightarrow> Inl (NilReconciler kind)
      | Some rc \<Rightarrow>
          if started r then Inl ErrAlreadyStarted
          else Inr (r\<lparr>regs := (regs r)(kind \<mapsto>
                 \<lparr>reg_kind = kind, reconciler = rc, lister = lst, resync = rs\<rparr>)\<rparr>))"

definition Register ::
  "('rec, 'lst) Runner \<Rightarrow> string \<Rightarrow> 'rec option \<Rightarrow> 'lst option \<Rightarrow>
   runner_error + ('rec, 'lst) Runner" where
  "Register r kind rec lst = RegisterWithResync r kind rec lst DefaultResyncInterval"

text \<open>
  \<open>Notify\<close> is two critical sections: the inbox write under the mutex and, after the unlock,
  the non-blocking send on the wake channel of capacity one.
\<close>

definition Notify_inbox :: "('rec, 'lst) Runner \<Rightarrow> string \<Rightarrow> string \<Rightarrow> ('rec, 'lst) Runner option" where
  "Notify_inbox r kind key =
     (if regs r kind = None then None
      else Some (r\<lparr>inbox := insert \<lparr>Kind = kind, Key = key\<rparr> (inbox r)\<rparr>))"

definition Notify_wake :: "('rec, 'lst) Runner \<Rightarrow> ('rec, 'lst) Runner" where
  "Notify_wake r = r\<lparr>wake := True\<rparr>"

subsection \<open>The scheduler's state\<close>

record ('rec, 'lst) sched =
  runner :: "('rec, 'lst) Runner"
  lregs :: "string \<rightharpoonup> ('rec, 'lst) registration"
  pending :: "Request set"
  pendingQueue :: "Request list"
  inFlight :: "Request set"
  pendingAfter :: "Request set"
  fails :: "Request \<Rightarrow> nat"
  eq :: "event list"
  busy :: nat
  running :: "Request list" \<comment> \<open>tasks held by worker goroutines\<close>
  finished :: "completion list" \<comment> \<open>workers blocked on the completion channel\<close>
  notifiers :: nat \<comment> \<open>Notify calls between the inbox write and the wake-up\<close>

definition zero_req :: Request where
  "zero_req = \<lparr>Kind = [], Key = []\<rparr>"

definition resync_event :: "time \<Rightarrow> string \<Rightarrow> event" where
  "resync_event t kind = \<lparr>at = t, ev_req = zero_req, ev_kind = kind, ev_resync = True\<rparr>"

definition key_event :: "time \<Rightarrow> Request \<Rightarrow> event" where
  "key_event t req = \<lparr>at = t, ev_req = req, ev_kind = [], ev_resync = False\<rparr>"

text \<open>
  The start of the loop: a snapshot of the registrations, then one resync event per kind with
  a lister, in the iteration order \<open>kinds\<close> of the registration map.
\<close>

definition push_initial :: "time \<Rightarrow> (string \<rightharpoonup> ('rec, 'lst) registration) \<Rightarrow> event list \<Rightarrow> string \<Rightarrow> event list" where
  "push_initial now rs q kind =
     (case rs kind of None \<Rightarrow> q
      | Some reg \<Rightarrow> if lister reg \<noteq> None \<and> resync reg > 0
                   then heap_push at q (resync_event now (reg_kind reg)) else q)"

definition loop_start :: "('rec, 'lst) Runner \<Rightarrow> time \<Rightarrow> string list \<Rightarrow> ('rec, 'lst) sched" where
  "loop_start r now kinds =
     \<lparr>runner = r, lregs = regs r, pending = {}, pendingQueue = [], inFlight = {},
      pendingAfter = {}, fails = (\<lambda>_. 0), eq = foldl (push_initial now (regs r)) [] kinds,
      busy = 0, running = [], finished = [], notifiers = 0\<rparr>"

definition Start :: "('rec, 'lst) Runner \<Rightarrow> time \<Rightarrow> string list \<Rightarrow> runner_error + ('rec, 'lst) sched" where
  "Start r now kinds =
     (if started r then Inl ErrAlreadyStarted
      else Inr (loop_start (r\<lparr>started := True\<rparr>) now kinds))"

subsection \<open>The closures of the loop\<close>

definition enqueue :: "('rec, 'lst) sched \<Rightarrow> Request \<Rightarrow> ('rec, 'lst) sched" where
  "enqueue s req =
     (if req \<in> inFlight s then s\<lparr>pendingAfter := insert req (pendingAfter s)\<rparr>
      else if req \<in> pending s then s
      else s\<lparr>pending := insert req (pending s), pendingQueue := pendingQueue s @ [req]\<rparr>)"

text \<open>\<open>batch\<close> is the inbox in the order the map is iterated.\<close>

definition drainInbox :: "('rec, 'lst) sched \<Rightarrow> Request list \<Rightarrow> ('rec, 'lst) sched" where
  "drainInbox s batch = foldl enqueue (s\<lparr>runner := (runner s)\<lparr>inbox := {}\<rparr>\<rparr>) batch"

text \<open>One iteration of the \<open>fireDue\<close> loop, on the popped event.\<close>

definition reschedule :: "time \<Rightarrow> ('rec, 'lst) sched \<Rightarrow> event \<Rightarrow> ('rec, 'lst) sched" where
  "reschedule firedAt s ev =
     (case lregs s (ev_kind ev) of None \<Rightarrow> s
      | Some reg \<Rightarrow> if lister reg \<noteq> None \<and> resync reg > 0
                   then s\<lparr>eq := heap_push at (eq s) (resync_event (firedAt + resync reg) (ev_kind ev))\<rparr>
                   else s)"

definition list_kind ::
  "('lst \<Rightarrow> Request list option) \<Rightarrow> ('rec, 'lst) sched \<Rightarrow> string \<Rightarrow> Request list" where
  "list_kind ListKeys s kind =
     (case lregs s kind of None \<Rightarrow> []
      | Some reg \<Rightarrow> (case lister reg of None \<Rightarrow> []
                    | Some l \<Rightarrow> (case ListKeys l of None \<Rightarrow> [] | Some keys \<Rightarrow> keys)))"

definition fire_event ::
  "('lst \<Rightarrow> Request list option) \<Rightarrow> time \<Rightarrow> ('rec, 'lst) sched \<Rightarrow> event \<Rightarrow> ('rec, 'lst) sched" where
  "fire_event ListKeys firedAt s ev =
     (if ev_resync ev
      then (let s1 = reschedule firedAt s ev
            in foldl enqueue s1 (list_kind ListKeys s1 (ev_kind ev)))
      else enqueue s (ev_req ev))"

definition due :: "time \<Rightarrow> event list \<Rightarrow> bool" where
  "due t q \<longleftrightarrow> q \<noteq> [] \<and> at (q ! 0) \<le> t"

lemma eq_enqueue [simp]: "eq (enqueue s r) = eq s"
  by (simp add: enqueue_def)

lemma eq_foldl_enqueue [simp]: "eq (foldl enqueue s rs) = eq s"
  by (induction rs arbitrary: s) simp_all

text \<open>A popped event leaves the heap and what it schedules lies after \<open>firedAt\<close>.\<close>

lemma eq_fire_event:
  "mset (eq (fire_event lk t s ev)) = mset (eq s) \<or>
   (\<exists>e. t < at e \<and> mset (eq (fire_event lk t s ev)) = add_mset e (mset (eq s)))"
proof (cases "eq (reschedule t s ev) = eq s")
  case False
  then obtain d where "0 < d"
    "eq (reschedule t s ev) = heap_push at (eq s) (resync_event (t + d) (ev_kind ev))"
    by (auto simp: reschedule_def split: option.splits if_splits)
  then show ?thesis
    by (auto simp: fire_event_def Let_def resync_event_def)
qed (auto simp: fire_event_def Let_def)

definition due_count :: "time \<Rightarrow> event list \<Rightarrow> nat" where
  "due_count t q = size (filter_mset (\<lambda>e. at e \<le> t) (mset q))"

lemma due_count_fire [simp]: "due_count t (eq (fire_event lk t s ev)) = due_count t (eq s)"
  using eq_fire_event [of lk t s ev] by (auto simp: due_count_def)

lemma due_count_pop: "due t q \<Longrightarrow> due_count t (pop_rest at q) < due_count t q"
  using mset_pop_rest [of q at] by (auto simp: due_count_def due_def hd_conv_nth)

function fireDue ::
  "('lst \<Rightarrow> Request list option) \<Rightarrow> ('rec, 'lst) sched \<Rightarrow> time \<Rightarrow> ('rec, 'lst) sched" where
  "fireDue ListKeys s firedAt =
     (if due firedAt (eq s)
      then (case heap_pop at (eq s) of None \<Rightarrow> s
            | Some (ev, q) \<Rightarrow> fireDue ListKeys (fire_event ListKeys firedAt (s\<lparr>eq := q\<rparr>) ev) firedAt)
      else s)"
  by pat_completeness auto
termination
proof (relation "measure (\<lambda>(_, s, t). due_count t (eq s))", goal_cases)
  case (2 lk s t x ev q)
  then have "eq s \<noteq> []" by (auto simp: due_def)
  with 2 show ?case by (auto simp: heap_pop_Cons due_count_pop)
qed simp

declare fireDue.simps [simp del]

text \<open>\<open>dispatch\<close> hands queued keys to idle workers over the unbuffered task channel.\<close>

definition dispatch1 :: "('rec, 'lst) sched \<Rightarrow> ('rec, 'lst) sched" where
  "dispatch1 s =
     (let req = hd (pendingQueue s)
      in s\<lparr>pendingQueue := tl (pendingQueue s), pending := pending s - {req},
           inFlight := insert req (inFlight s), busy := busy s + 1, running := running s @ [req]\<rparr>)"

function dispatch :: "('rec, 'lst) sched \<Rightarrow> ('rec, 'lst) sched" where
  "dispatch s =
     (if busy s < workers (runner s) \<and> pendingQueue s \<noteq> [] then dispatch (dispatch1 s) else s)"
  by pat_completeness auto
termination
  by (relation "measure (\<lambda>s. length (pendingQueue s))") (auto simp: dispatch1_def Let_def)

declare dispatch.simps [simp del]

text \<open>The completion arm of the loop; indexing an empty backoff table panics (\<open>None\<close>).\<close>

definition backoff_step :: "duration list \<Rightarrow> nat \<Rightarrow> duration option" where
  "backoff_step steps failures =
     (let idx = failures - 1;
          i = (if idx \<ge> length steps then length steps - 1 else idx)
      in if i < length steps then Some (steps ! i) else None)"

definition release :: "('rec, 'lst) sched \<Rightarrow> completion \<Rightarrow> ('rec, 'lst) sched" where
  "release s c = s\<lparr>busy := busy s - 1, inFlight := inFlight s - {c_req c},
                   finished := remove1 c (finished s)\<rparr>"

definition settle :: "('rec, 'lst) sched \<Rightarrow> time \<Rightarrow> completion \<Rightarrow> ('rec, 'lst) sched option" where
  "settle s now c =
     (let req = c_req c
      in if c_err c
         then (let n = fails s req + 1
               in case backoff_step (backoff (runner s)) n of None \<Rightarrow> None
                  | Some d \<Rightarrow> Some (s\<lparr>fails := (fails s)(req := n),
                                   eq := heap_push at (eq s) (key_event (now + d) req)\<rparr>))
         else Some (s\<lparr>fails := (fails s)(req := 0),
                      eq := (if RequeueAfter (c_res c) > 0
                             then heap_push at (eq s) (key_event (now + RequeueAfter (c_res c)) req)
                             else eq s)\<rparr>))"

definition rerun :: "('rec, 'lst) sched \<Rightarrow> Request \<Rightarrow> ('rec, 'lst) sched" where
  "rerun s req =
     (if req \<in> pendingAfter s
      then enqueue (s\<lparr>pendingAfter := pendingAfter s - {req}\<rparr>) req
      else s)"

definition complete :: "('rec, 'lst) sched \<Rightarrow> time \<Rightarrow> completion \<Rightarrow> ('rec, 'lst) sched option" where
  "complete s now c = map_option (\<lambda>s'. rerun s' (c_req c)) (settle (release s c) now c)"

subsection \<open>Steps\<close>

inductive loop_step :: "('rec, 'lst) sched \<Rightarrow> ('rec, 'lst) sched \<Rightarrow> bool" where
  notify_inbox: "Notify_inbox (runner s) kind key = Some r \<Longrightarrow>
     loop_step s (s\<lparr>runner := r, notifiers := notifiers s + 1\<rparr>)"
| notify_wake: "0 < notifiers s \<Longrightarrow>
     loop_step s (s\<lparr>runner := Notify_wake (runner s), notifiers := notifiers s - 1\<rparr>)"
| work: "req \<in> set (running s) \<Longrightarrow>
     loop_step s (s\<lparr>running := remove1 req (running s),
                    finished := finished s @ [\<lparr>c_req = req, c_res = res, c_err = err\<rparr>]\<rparr>)"
| wake_arm: "wake (runner s) \<Longrightarrow> set batch = inbox (runner s) \<Longrightarrow> distinct batch \<Longrightarrow>
     loop_step s (dispatch (drainInbox (s\<lparr>runner := (runner s)\<lparr>wake := False\<rparr>\<rparr>) batch))"
| timer_arm: "eq s \<noteq> [] \<Longrightarrow>
     loop_step s (dispatch (fireDue ListKeys s firedAt))"
| completion_arm: "c \<in> set (finished s) \<Longrightarrow> complete s now c = Some s' \<Longrightarrow>
     loop_step s (dispatch s')"

inductive_cases loop_stepE: "loop_step s t"

subsection \<open>The scheduler invariant\<close>

definition queue_ok :: "('rec, 'lst) sched \<Rightarrow> bool" where
  "queue_ok s \<longleftrightarrow>
     distinct (pendingQueue s) \<and> set (pendingQueue s) = pending s \<and>
     pending s \<inter> inFlight s = {} \<and> pendingAfter s \<subseteq> inFlight s"

definition workers_ok :: "('rec, 'lst) sched \<Rightarrow> bool" where
  "workers_ok s \<longleftrightarrow>
     distinct (running s @ map c_req (finished s)) \<and>
     inFlight s = set (running s @ map c_req (finished s)) \<and>
     busy s = length (running s) + length (finished s) \<and> busy s \<le> workers (runner s)"

definition sched_inv :: "('rec, 'lst) sched \<Rightarrow> bool" where
  "sched_inv s \<longleftrightarrow>
     queue_ok s \<and> workers_ok s \<and> heap_ok at (eq s) \<and> backoff (runner s) \<noteq> [] \<and>
     (inbox (runner s) \<noteq> {} \<longrightarrow> wake (runner s) \<or> 0 < notifiers s)"

text \<open>After every arm of the loop no key waits while a worker is idle.\<close>

definition work_conserving :: "('rec, 'lst) sched \<Rightarrow> bool" where
  "work_conserving s \<longleftrightarrow> pendingQueue s \<noteq> [] \<longrightarrow> workers (runner s) \<le> busy s"

lemma enqueue_frame [frame_simps, simp]:
  "runner (enqueue s r) = runner s" "lregs (enqueue s r) = lregs s"
  "inFlight (enqueue s r) = inFlight s" "fails (enqueue s r) = fails s"
  "busy (enqueue s r) = busy s" "running (enqueue s r) = running s"
  "finished (enqueue s r) = finished s" "notifiers (enqueue s r) = notifiers s"
  by (simp_all add: enqueue_def)

lemma foldl_enqueue_frame [frame_simps, simp]:
  "runner (foldl enqueue s rs) = runner s" "lregs (foldl enqueue s rs) = lregs s"
  "inFlight (foldl enqueue s rs) = inFlight s" "fails (foldl enqueue s rs) = fails s"
  "busy (foldl enqueue s rs) = busy s" "running (foldl enqueue s rs) = running s"
  "finished (foldl enqueue s rs) = finished s" "notifiers (foldl enqueue s rs) = notifiers s"
  by (induction rs arbitrary: s) simp_all

lemma queue_ok_enqueue: "queue_ok s \<Longrightarrow> queue_ok (enqueue s r)"
  by (auto simp: queue_ok_def enqueue_def)

lemma queue_ok_foldl_enqueue: "queue_ok s \<Longrightarrow> queue_ok (foldl enqueue s rs)"
  by (induction rs arbitrary: s) (auto intro: queue_ok_enqueue)

text \<open>Enqueuing is idempotent and never forgets a key.\<close>

definition scheduled :: "('rec, 'lst) sched \<Rightarrow> Request set" where
  "scheduled s = pending s \<union> pendingAfter s"

lemma scheduled_enqueue: "scheduled (enqueue s r) = insert r (scheduled s)"
  by (auto simp: scheduled_def enqueue_def)

lemma scheduled_foldl_enqueue: "scheduled (foldl enqueue s rs) = set rs \<union> scheduled s"
  by (induction rs arbitrary: s) (auto simp: scheduled_enqueue)

lemma workers_ok_frame:
  "running t = running s \<Longrightarrow> finished t = finished s \<Longrightarrow> inFlight t = inFlight s \<Longrightarrow>
   busy t = busy s \<Longrightarrow> workers (runner t) = workers (runner s) \<Longrightarrow> workers_ok t = workers_ok s"
  by (simp add: workers_ok_def)

subsubsection \<open>Dispatch\<close>

lemma dispatch1_ok:
  assumes "queue_ok s" "workers_ok s" "busy s < workers (runner s)" "pendingQueue s \<noteq> []"
  shows "queue_ok (dispatch1 s)" "workers_ok (dispatch1 s)"
proof -
  obtain r q where q: "pendingQueue s = r # q"
    using assms(4) by (cases "pendingQueue s") auto
  then have "r \<in> pending s" "r \<notin> inFlight s" "r \<notin> set q"
    using assms(1) by (auto simp: queue_ok_def)
  then show "queue_ok (dispatch1 s)" "workers_ok (dispatch1 s)"
    using assms q by (auto simp: queue_ok_def workers_ok_def dispatch1_def Let_def)
qed

lemma dispatch1_frame [frame_simps]:
  "runner (dispatch1 s) = runner s" "eq (dispatch1 s) = eq s" "fails (dispatch1 s) = fails s"
  "notifiers (dispatch1 s) = notifiers s" "finished (dispatch1 s) = finished s"
  "pendingAfter (dispatch1 s) = pendingAfter s"
  by (simp_all add: dispatch1_def Let_def)

definition can_dispatch :: "('rec, 'lst) sched \<Rightarrow> bool" where
  "can_dispatch s \<longleftrightarrow> busy s < workers (runner s) \<and> pendingQueue s \<noteq> []"

lemma dispatch_go: "can_dispatch s \<Longrightarrow> dispatch s = dispatch (dispatch1 s)"
  by (subst dispatch.simps) (simp add: can_dispatch_def)

lemma dispatch_halt: "\<not> can_dispatch s \<Longrightarrow> dispatch s = s"
  by (subst dispatch.simps) (auto simp: can_dispatch_def)

lemma dispatch_induct [case_names halt go]:
  assumes "\<And>s. \<not> can_dispatch s \<Longrightarrow> P s"
    and "\<And>s. can_dispatch s \<Longrightarrow> P (dispatch1 s) \<Longrightarrow> P s"
  shows "P s"
  by (induction s rule: dispatch.induct) (metis assms can_dispatch_def)

lemmas dispatch_steps = dispatch_go dispatch_halt

lemma dispatch_frame [simp]:
  "runner (dispatch s) = runner s" "eq (dispatch s) = eq s" "fails (dispatch s) = fails s"
  "notifiers (dispatch s) = notifiers s" "finished (dispatch s) = finished s"
  "pendingAfter (dispatch s) = pendingAfter s"
  by (induction s rule: dispatch_induct; simp add: dispatch_steps dispatch1_frame)+

lemma dispatch_ok:
  "queue_ok s \<and> workers_ok s \<Longrightarrow> queue_ok (dispatch s) \<and> workers_ok (dispatch s)"
  by (induction s rule: dispatch_induct)
    (simp_all add: dispatch_steps dispatch1_ok can_dispatch_def)

lemma dispatch_not_can: "\<not> can_dispatch (dispatch s)"
  by (induction s rule: dispatch_induct) (simp_all add: dispatch_steps)

lemma dispatch_work_conserving: "work_conserving (dispatch s)"
  using dispatch_not_can [of s] by (auto simp: work_conserving_def can_dispatch_def)

text \<open>Every key \<open>dispatch\<close> takes from the queue is running afterwards.\<close>

lemma dispatch_keeps: "pending s \<union> set (running s) \<subseteq> pending (dispatch s) \<union> set (running (dispatch s))"
proof (induction s rule: dispatch_induct)
  case (go s)
  moreover have "pending s \<union> set (running s) \<subseteq> pending (dispatch1 s) \<union> set (running (dispatch1 s))"
    by (auto simp: dispatch1_def Let_def)
  ultimately show ?case by (auto simp: dispatch_go)
qed (simp add: dispatch_halt)

subsubsection \<open>The timed events\<close>

lemma reschedule_frame [frame_simps, simp]:
  "runner (reschedule t s ev) = runner s" "lregs (reschedule t s ev) = lregs s"
  "pending (reschedule t s ev) = pending s" "pendingQueue (reschedule t s ev) = pendingQueue s"
  "inFlight (reschedule t s ev) = inFlight s" "pendingAfter (reschedule t s ev) = pendingAfter s"
  "fails (reschedule t s ev) = fails s" "busy (reschedule t s ev) = busy s"
  "running (reschedule t s ev) = running s" "finished (reschedule t s ev) = finished s"
  "notifiers (reschedule t s ev) = notifiers s"
  by (simp_all add: reschedule_def split: option.splits)

lemma queue_ok_reschedule [simp]: "queue_ok (reschedule t s ev) = queue_ok s"
  by (simp add: queue_ok_def)

lemma heap_ok_reschedule: "heap_ok at (eq s) \<Longrightarrow> heap_ok at (eq (reschedule t s ev))"
  by (simp add: reschedule_def split: option.splits)

lemma fire_event_ok:
  "queue_ok s \<and> workers_ok s \<and> heap_ok at (eq s) \<Longrightarrow>
   queue_ok (fire_event lk t s ev) \<and> workers_ok (fire_event lk t s ev) \<and>
   heap_ok at (eq (fire_event lk t s ev))"
  by (auto simp: fire_event_def Let_def heap_ok_reschedule
      intro!: queue_ok_foldl_enqueue queue_ok_enqueue elim!: workers_ok_frame [THEN iffD1, rotated -1])

lemma fire_event_frame [simp]:
  "runner (fire_event lk t s ev) = runner s" "notifiers (fire_event lk t s ev) = notifiers s"
  "inFlight (fire_event lk t s ev) = inFlight s"
  "lregs (fire_event lk t s ev) = lregs s" "fails (fire_event lk t s ev) = fails s"
  "busy (fire_event lk t s ev) = busy s"
  by (simp_all add: fire_event_def Let_def)

lemma fireDue_unfold:
  "due t (eq s) \<Longrightarrow>
   fireDue lk s t = fireDue lk (fire_event lk t (s\<lparr>eq := pop_rest at (eq s)\<rparr>) (hd (eq s))) t"
  by (subst fireDue.simps) (simp add: heap_pop_Cons due_def)

lemma fireDue_done: "\<not> due t (eq s) \<Longrightarrow> fireDue lk s t = s"
  by (subst fireDue.simps) simp

lemma fireDue_induct [case_names halt fire]:
  assumes "\<And>s. \<not> due t (eq s) \<Longrightarrow> P s"
    and "\<And>s. due t (eq s) \<Longrightarrow>
           P (fire_event lk t (s\<lparr>eq := pop_rest at (eq s)\<rparr>) (hd (eq s))) \<Longrightarrow> P s"
  shows "P s"
proof (induction "due_count t (eq s)" arbitrary: s rule: less_induct)
  case less
  show ?case
  proof (cases "due t (eq s)")
    case True
    then show ?thesis
      using assms(2) less due_count_pop by simp
  qed (rule assms(1))
qed

lemma fireDue_ok:
  "queue_ok s \<and> workers_ok s \<and> heap_ok at (eq s) \<Longrightarrow>
   queue_ok (fireDue lk s t) \<and> workers_ok (fireDue lk s t) \<and> heap_ok at (eq (fireDue lk s t))"
proof (induction s rule: fireDue_induct [where t = t and lk = lk])
  case (fire s)
  then have "queue_ok (s\<lparr>eq := pop_rest at (eq s)\<rparr>)" "workers_ok (s\<lparr>eq := pop_rest at (eq s)\<rparr>)"
    "heap_ok at (pop_rest at (eq s))"
    by (auto simp: queue_ok_def workers_ok_def due_def heap_ok_pop_rest)
  with fire show ?case
    using fire_event_ok [of "s\<lparr>eq := pop_rest at (eq s)\<rparr>" lk t "hd (eq s)"]
    by (simp add: fireDue_unfold)
qed (simp add: fireDue_done)

lemma fireDue_frame [simp]:
  "runner (fireDue lk s t) = runner s" "notifiers (fireDue lk s t) = notifiers s"
  by (induction s rule: fireDue_induct [where t = t and lk = lk]; simp add: fireDue_unfold fireDue_done)+

lemma fireDue_none_due: "\<not> due t (eq (fireDue lk s t))"
  by (induction s rule: fireDue_induct [where t = t and lk = lk])
    (simp_all add: fireDue_unfold fireDue_done)

text \<open>What \<open>fireDue\<close> schedules: events not yet due stay, keys are never forgotten.\<close>

lemma eq_fire_event_set: "set (eq s) \<subseteq> set (eq (fire_event lk t s ev))"
  by (auto simp: fire_event_def Let_def reschedule_def split: option.splits)

lemma fireDue_keeps_future:
  "e \<in> set (eq s) \<Longrightarrow> t < at e \<Longrightarrow> e \<in> set (eq (fireDue lk s t))"
proof (induction s rule: fireDue_induct [where t = t and lk = lk])
  case (fire s)
  then have ne: "eq s \<noteq> []" and hd: "at (hd (eq s)) \<le> t"
    by (auto simp: due_def hd_conv_nth)
  have "set (eq s) = insert (hd (eq s)) (set (pop_rest at (eq s)))"
    using mset_pop_rest [OF ne, of at] by (metis set_mset_add_mset_insert set_mset_mset)
  with fire.prems hd have "e \<in> set (pop_rest at (eq s))" by auto
  then show ?case
    using fire eq_fire_event_set [of "s\<lparr>eq := pop_rest at (eq s)\<rparr>" lk t "hd (eq s)"]
    by (auto simp: fireDue_unfold)
qed (simp add: fireDue_done)

lemma scheduled_reschedule [simp]: "scheduled (reschedule t s ev) = scheduled s"
  by (simp add: scheduled_def)

lemma scheduled_fire_event:
  "scheduled (fire_event lk t s ev) =
     (if ev_resync ev then set (list_kind lk s (ev_kind ev)) else {ev_req ev}) \<union> scheduled s"
  by (simp add: fire_event_def Let_def scheduled_foldl_enqueue scheduled_enqueue list_kind_def)

lemma scheduled_eq_upd [simp]: "scheduled (s\<lparr>eq := q\<rparr>) = scheduled s"
  by (simp add: scheduled_def)

lemma list_kind_eq_upd [simp]: "list_kind lk (s\<lparr>eq := q\<rparr>) k = list_kind lk s k"
  by (simp add: list_kind_def)

lemma list_kind_lregs: "lregs s' = lregs s \<Longrightarrow> list_kind lk s' k = list_kind lk s k"
  by (simp add: list_kind_def)

lemma fireDue_scheduled_mono: "scheduled s \<subseteq> scheduled (fireDue lk s t)"
  by (induction s rule: fireDue_induct [where t = t and lk = lk])
    (auto simp: fireDue_unfold fireDue_done scheduled_fire_event)

lemma eq_fire_resync:
  assumes "ev_resync ev" "lregs s (ev_kind ev) = Some reg" "lister reg \<noteq> None" "resync reg > 0"
  shows "resync_event (t + resync reg) (ev_kind ev) \<in> set (eq (fire_event lk t s ev))"
  using assms by (simp add: fire_event_def Let_def reschedule_def)

definition served :: "('lst \<Rightarrow> Request list option) \<Rightarrow> time \<Rightarrow> event \<Rightarrow> ('rec, 'lst) sched \<Rightarrow> bool" where
  "served lk t e s \<longleftrightarrow>
     (if ev_resync e
      then set (list_kind lk s (ev_kind e)) \<subseteq> scheduled s \<and>
           (\<forall>reg. lregs s (ev_kind e) = Some reg \<longrightarrow> lister reg \<noteq> None \<longrightarrow> resync reg > 0 \<longrightarrow>
                  resync_event (t + resync reg) (ev_kind e) \<in> set (eq s))
      else ev_req e \<in> scheduled s)"

lemma served_fire_event: "served lk t ev (fire_event lk t s ev)"
  using list_kind_lregs [of "fire_event lk t s ev" s lk]
  by (auto simp: served_def scheduled_fire_event eq_fire_resync)

lemma lregs_fireDue [simp]: "lregs (fireDue lk s t) = lregs s"
  by (induction s rule: fireDue_induct [where t = t and lk = lk]; simp add: fireDue_unfold fireDue_done)

lemma at_resync_event [simp]: "at (resync_event t k) = t"
  by (simp add: resync_event_def)

lemma served_fireDue: "served lk t e s \<Longrightarrow> served lk t e (fireDue lk s t)"
  using fireDue_scheduled_mono [of s lk t] fireDue_keeps_future [of _ s t lk]
    list_kind_lregs [of "fireDue lk s t" s lk]
  by (auto simp: served_def split: if_splits)

lemma fireDue_serves:
  "heap_ok at (eq s) \<Longrightarrow> e \<in> set (eq s) \<Longrightarrow> at e \<le> t \<Longrightarrow> served lk t e (fireDue lk s t)"
proof (induction s rule: fireDue_induct [where t = t and lk = lk])
  case (halt s)
  then have "at (eq s ! 0) \<le> at e" by (intro heap_top_least)
  with halt show ?case by (auto simp: due_def)
next
  case (fire s)
  let ?s1 = "fire_event lk t (s\<lparr>eq := pop_rest at (eq s)\<rparr>) (hd (eq s))"
  have ne: "eq s \<noteq> []" using fire by (auto simp: due_def)
  show ?case
  proof (cases "e = hd (eq s)")
    case True
    then have "served lk t e ?s1" by (simp add: served_fire_event)
    with fire show ?thesis by (simp add: fireDue_unfold served_fireDue)
  next
    case False
    have "set (eq s) = insert (hd (eq s)) (set (pop_rest at (eq s)))"
      using mset_pop_rest [OF ne, of at] by (metis set_mset_add_mset_insert set_mset_mset)
    with False fire.prems have "e \<in> set (eq ?s1)"
      using eq_fire_event_set [of "s\<lparr>eq := pop_rest at (eq s)\<rparr>" lk t "hd (eq s)"] by auto
    moreover have "heap_ok at (eq ?s1)"
      using heap_ok_pop_rest [OF ne fire.prems(1)]
      by (simp add: fire_event_def Let_def heap_ok_reschedule)
    ultimately show ?thesis
      using fire by (simp add: fireDue_unfold)
  qed
qed

subsubsection \<open>Completions\<close>

lemma backoff_step_Some:
  "steps \<noteq> [] \<Longrightarrow> 0 < n \<Longrightarrow> backoff_step steps n = Some (steps ! (min n (length steps) - 1))"
  by (auto simp: backoff_step_def Let_def min_def)

lemma settle_Some:
  assumes "settle s now c = Some s'"
  obtains f q where "s' = s\<lparr>fails := f, eq := q\<rparr>" "heap_ok at (eq s) \<Longrightarrow> heap_ok at q"
proof
  show "s' = s\<lparr>fails := fails s', eq := eq s'\<rparr>"
    using assms by (auto simp: settle_def Let_def split: if_splits option.splits)
  show "heap_ok at (eq s')" if "heap_ok at (eq s)"
    using assms that by (auto simp: settle_def Let_def split: if_splits option.splits)
qed

lemma rerun_frame [frame_simps, simp]:
  "runner (rerun s r) = runner s" "eq (rerun s r) = eq s" "notifiers (rerun s r) = notifiers s"
  "inFlight (rerun s r) = inFlight s" "running (rerun s r) = running s" "finished (rerun s r) = finished s"
  "busy (rerun s r) = busy s" "fails (rerun s r) = fails s"
  by (simp_all add: rerun_def)

lemma workers_ok_release:
  assumes "workers_ok s" "c \<in> set (finished s)"
  shows "workers_ok (release s c)"
proof -
  obtain xs ys where "finished s = xs @ c # ys" "remove1 c (finished s) = xs @ ys"
    using assms(2) by (metis remove1_split)
  with assms(1) show ?thesis by (auto simp: workers_ok_def release_def)
qed

text \<open>Between \<open>release\<close> and \<open>rerun\<close> the completed key alone may be coalesced without being in flight.\<close>

lemma queue_ok_rerun:
  "queue_ok s \<Longrightarrow> queue_ok (rerun ((release s c)\<lparr>fails := f, eq := q\<rparr>) (c_req c))"
  by (auto simp: queue_ok_def rerun_def release_def enqueue_def)

lemma complete_Some: "backoff (runner s) \<noteq> [] \<Longrightarrow> \<exists>s'. complete s now c = Some s'"
  by (simp add: complete_def settle_def release_def Let_def backoff_step_Some)

lemma complete_ok:
  assumes ok: "queue_ok s" "workers_ok s" "heap_ok at (eq s)" and c: "c \<in> set (finished s)"
    and s': "complete s now c = Some s'"
  shows "queue_ok s'" "workers_ok s'" "heap_ok at (eq s')"
    "runner s' = runner s" "notifiers s' = notifiers s"
proof -
  obtain s1 where s1: "settle (release s c) now c = Some s1" "s' = rerun s1 (c_req c)"
    using s' by (auto simp: complete_def)
  have eq: "eq (release s c) = eq s" by (simp add: release_def)
  obtain f q where fq: "s1 = (release s c)\<lparr>fails := f, eq := q\<rparr>" "heap_ok at q"
    using settle_Some [OF s1(1)] ok(3) eq by metis
  show "queue_ok s'" using ok(1) s1(2) fq(1) by (simp add: queue_ok_rerun)
  show "workers_ok s'"
    using workers_ok_release [OF ok(2) c] s1(2) fq(1) by (simp add: workers_ok_def)
  show "heap_ok at (eq s')" "runner s' = runner s" "notifiers s' = notifiers s"
    using s1(2) fq by (simp_all add: release_def)
qed

subsubsection \<open>Every step keeps the invariant\<close>

lemma drainInbox_ok:
  assumes "queue_ok s" "workers_ok s"
  shows "queue_ok (drainInbox s batch)" "workers_ok (drainInbox s batch)"
proof -
  have "queue_ok (s\<lparr>runner := r\<rparr>)" for r
    using assms(1) by (simp add: queue_ok_def)
  then show "queue_ok (drainInbox s batch)"
    by (simp add: drainInbox_def queue_ok_foldl_enqueue)
  show "workers_ok (drainInbox s batch)"
    using assms(2) by (simp add: drainInbox_def workers_ok_def)
qed

lemma sched_inv_loop_step: "loop_step s t \<Longrightarrow> sched_inv s \<Longrightarrow> sched_inv t"
proof (induction rule: loop_step.induct)
  case (notify_inbox s kind key r)
  then show ?case
    by (auto simp: sched_inv_def Notify_inbox_def queue_ok_def workers_ok_def split: if_splits)
next
  case (notify_wake s)
  then show ?case
    by (auto simp: sched_inv_def Notify_wake_def queue_ok_def workers_ok_def)
next
  case (work req s res err)
  then obtain xs ys where "running s = xs @ req # ys" "remove1 req (running s) = xs @ ys"
    by (metis remove1_split)
  with work show ?case
    by (auto simp: sched_inv_def queue_ok_def workers_ok_def)
next
  case (wake_arm s batch)
  let ?d = "drainInbox (s\<lparr>runner := (runner s)\<lparr>wake := False\<rparr>\<rparr>) batch"
  have "queue_ok (s\<lparr>runner := (runner s)\<lparr>wake := False\<rparr>\<rparr>)"
    "workers_ok (s\<lparr>runner := (runner s)\<lparr>wake := False\<rparr>\<rparr>)"
    using wake_arm.prems by (auto simp: sched_inv_def queue_ok_def workers_ok_def)
  then have "queue_ok ?d" "workers_ok ?d"
    by (rule drainInbox_ok)+
  then have "queue_ok (dispatch ?d)" "workers_ok (dispatch ?d)"
    using dispatch_ok by blast+
  with wake_arm.prems show ?case
    by (auto simp: sched_inv_def drainInbox_def)
next
  case (timer_arm s ListKeys firedAt)
  then have "queue_ok (fireDue ListKeys s firedAt)" "workers_ok (fireDue ListKeys s firedAt)"
    "heap_ok at (eq (fireDue ListKeys s firedAt))"
    using fireDue_ok by (auto simp: sched_inv_def)
  moreover from this have "queue_ok (dispatch (fireDue ListKeys s firedAt))"
    "workers_ok (dispatch (fireDue ListKeys s firedAt))"
    using dispatch_ok by blast+
  ultimately show ?case using timer_arm.prems by (auto simp: sched_inv_def)
next
  case (completion_arm c s now s')
  then have "queue_ok s'" "workers_ok s'" "heap_ok at (eq s')" "runner s' = runner s"
    "notifiers s' = notifiers s"
    using complete_ok [of s c now s'] by (auto simp: sched_inv_def)
  moreover from this have "queue_ok (dispatch s')" "workers_ok (dispatch s')"
    using dispatch_ok by blast+
  ultimately show ?case using completion_arm.prems by (auto simp: sched_inv_def)
qed

lemma work_conserving_loop_step: "loop_step s t \<Longrightarrow> work_conserving s \<Longrightarrow> work_conserving t"
  by (induction rule: loop_step.induct)
    (auto simp: dispatch_work_conserving,
     auto simp: work_conserving_def Notify_inbox_def Notify_wake_def split: if_splits)

subsection \<open>Runs\<close>

text \<open>Runners as the code builds them, before the loop starts.\<close>

inductive built :: "('rec, 'lst) Runner \<Rightarrow> bool" where
  built_new: "built (NewRunner opts)"
| built_register: "built r \<Longrightarrow> RegisterWithResync r kind rec lst rs = Inr r' \<Longrightarrow> built r'"
| built_notify: "built r \<Longrightarrow> Notify_inbox r kind key = Some r' \<Longrightarrow> built (Notify_wake r')"

definition sched_init :: "('rec, 'lst) sched \<Rightarrow> bool" where
  "sched_init s \<longleftrightarrow>
     (\<exists>r now kinds. built r \<and> distinct kinds \<and> set kinds = dom (regs r) \<and>
        Start r now kinds = Inr s)"

lemma foldl_apply_option:
  "backoff r \<noteq> [] \<and> 0 < workers r \<Longrightarrow>
   backoff (foldl apply_option r opts) \<noteq> [] \<and> 0 < workers (foldl apply_option r opts) \<and>
   started (foldl apply_option r opts) = started r \<and> inbox (foldl apply_option r opts) = inbox r"
proof (induction opts arbitrary: r)
  case (Cons opt opts)
  have "backoff (apply_option r opt) \<noteq> [] \<and> 0 < workers (apply_option r opt) \<and>
      started (apply_option r opt) = started r \<and> inbox (apply_option r opt) = inbox r"
    using Cons.prems by (cases opt) auto
  with Cons.IH [of "apply_option r opt"] show ?case by simp
qed simp

lemma default_runner_ok:
  "backoff default_runner \<noteq> [] \<and> 0 < workers default_runner"
  "started default_runner = False" "inbox default_runner = {}"
  by (simp_all add: default_runner_def defaultWorkers_def)

lemma built_ok:
  "built r \<Longrightarrow> backoff r \<noteq> [] \<and> 0 < workers r \<and> \<not> started r \<and> (inbox r \<noteq> {} \<longrightarrow> wake r)"
proof (induction rule: built.induct)
  case (built_new opts)
  then show ?case
    by (simp add: NewRunner_def foldl_apply_option [OF default_runner_ok(1)] default_runner_ok(2,3))
next
  case (built_register r kind rec lst rs r')
  then show ?case by (auto simp: RegisterWithResync_def split: if_splits option.splits)
next
  case (built_notify r kind key r')
  then show ?case by (auto simp: Notify_inbox_def Notify_wake_def split: if_splits)
qed

lemma heap_ok_push_initial: "heap_ok at q \<Longrightarrow> heap_ok at (foldl (push_initial now rs) q kinds)"
  by (induction kinds arbitrary: q) (simp_all add: push_initial_def split: option.splits)

lemma sched_init_inv: "sched_init s \<Longrightarrow> sched_inv s \<and> work_conserving s"
  using built_ok heap_ok_push_initial [of "[]"]
  by (fastforce simp: sched_init_def Start_def loop_start_def sched_inv_def work_conserving_def
      queue_ok_def workers_ok_def)

interpretation runner_loop: inductive_invariant sched_init loop_step
  "\<lambda>s. sched_inv s \<and> work_conserving s"
  by unfold_locales
    (auto dest: sched_init_inv intro: sched_inv_loop_step work_conserving_loop_step)

subsection \<open>Properties\<close>

text \<open>
  A concrete run for the witnesses: one registered kind, a notification, the wake-up and the
  arm of the loop that hands the key to a worker.
\<close>

definition ex_req :: Request where
  "ex_req = \<lparr>Kind = ''p'', Key = ''a''\<rparr>"

definition ex_runner :: "(unit, Request list) Runner" where
  "ex_runner = default_runner\<lparr>regs := [''p'' \<mapsto>
     \<lparr>reg_kind = ''p'', reconciler = (), lister = Some [ex_req], resync = Second\<rparr>]\<rparr>"

definition ex_start :: "(unit, Request list) sched" where
  "ex_start = loop_start (ex_runner\<lparr>started := True\<rparr>) 5 [''p'']"

lemma built_ex_runner: "built ex_runner"
proof -
  have "built (default_runner :: (unit, Request list) Runner)"
    using built_new [of "[]"] by (simp add: NewRunner_def)
  then show ?thesis
    by (rule built_register [where kind = "''p''" and rec = "Some ()" and lst = "Some [ex_req]" and rs = Second])
      (simp add: RegisterWithResync_def ex_runner_def default_runner_def)
qed

lemma sched_init_ex_start: "sched_init ex_start"
  unfolding sched_init_def
proof (intro exI conjI)
  show "built ex_runner" by (rule built_ex_runner)
  show "distinct [''p'']" by simp
  show "set [''p''] = dom (regs ex_runner)" by (simp add: ex_runner_def)
  show "Start ex_runner 5 [''p''] = Inr ex_start"
    by (simp add: Start_def ex_start_def ex_runner_def default_runner_def)
qed

definition ex_notified :: "(unit, Request list) sched" where
  "ex_notified = ex_start\<lparr>runner := (runner ex_start)\<lparr>inbox := {ex_req}\<rparr>, notifiers := 1\<rparr>"

definition ex_woken :: "(unit, Request list) sched" where
  "ex_woken = ex_start\<lparr>runner := (runner ex_start)\<lparr>inbox := {ex_req}, wake := True\<rparr>\<rparr>"

definition ex_running :: "(unit, Request list) sched" where
  "ex_running = ex_start\<lparr>inFlight := {ex_req}, busy := 1, running := [ex_req]\<rparr>"

definition ex_finished :: "(unit, Request list) sched" where
  "ex_finished = ex_running\<lparr>running := [],
     finished := [\<lparr>c_req = ex_req, c_res = \<lparr>RequeueAfter = 0\<rparr>, c_err = True\<rparr>]\<rparr>"

lemmas ex_defs = ex_req_def ex_runner_def ex_start_def ex_notified_def ex_woken_def ex_running_def
  ex_finished_def loop_start_def default_runner_def defaultWorkers_def

lemma ex_steps:
  "loop_step\<^sup>*\<^sup>* ex_start ex_notified" "loop_step\<^sup>*\<^sup>* ex_start ex_woken"
  "loop_step\<^sup>*\<^sup>* ex_start ex_running" "loop_step\<^sup>*\<^sup>* ex_start ex_finished"
proof -
  have "Notify_inbox (runner ex_start) ''p'' ''a'' = Some ((runner ex_start)\<lparr>inbox := {ex_req}\<rparr>)"
    by (simp add: Notify_inbox_def ex_defs)
  from notify_inbox [OF this] have "loop_step ex_start ex_notified"
    by (simp add: ex_defs)
  then show 1: "loop_step\<^sup>*\<^sup>* ex_start ex_notified" by simp
  have "0 < notifiers ex_notified" by (simp add: ex_notified_def)
  from notify_wake [OF this] have "loop_step ex_notified ex_woken"
    by (simp add: ex_defs Notify_wake_def)
  with 1 show 2: "loop_step\<^sup>*\<^sup>* ex_start ex_woken" by simp
  have "wake (runner ex_woken)" "set [ex_req] = inbox (runner ex_woken)" "distinct [ex_req]"
    by (simp_all add: ex_woken_def)
  from wake_arm [OF this]
  have "loop_step ex_woken (dispatch (drainInbox (ex_woken\<lparr>runner := (runner ex_woken)\<lparr>wake := False\<rparr>\<rparr>) [ex_req]))" .
  moreover have "dispatch (drainInbox (ex_woken\<lparr>runner := (runner ex_woken)\<lparr>wake := False\<rparr>\<rparr>) [ex_req]) = ex_running"
    by (simp add: drainInbox_def enqueue_def dispatch_go dispatch_halt can_dispatch_def dispatch1_def
        Let_def ex_defs)
  ultimately have "loop_step ex_woken ex_running" by simp
  with 2 show 3: "loop_step\<^sup>*\<^sup>* ex_start ex_running" by simp
  have "ex_req \<in> set (running ex_running)" by (simp add: ex_running_def)
  from work [OF this, of "\<lparr>RequeueAfter = 0\<rparr>" True] have "loop_step ex_running ex_finished"
    by (simp add: ex_finished_def ex_running_def ex_start_def loop_start_def)
  with 3 show "loop_step\<^sup>*\<^sup>* ex_start ex_finished" by simp
qed

text \<open>
  C2. In every state the runner reaches, no key is held by two workers, no queued key is in
  flight, and at most \<open>workers\<close> tasks are out.
\<close>

theorem runner_exclusive:
  assumes "sched_init s0" and "loop_step\<^sup>*\<^sup>* s0 s"
  shows "distinct (running s @ map c_req (finished s)) \<and>
    set (pendingQueue s) \<inter> set (running s @ map c_req (finished s)) = {} \<and>
    length (running s) + length (finished s) \<le> workers (runner s)"
  using runner_loop.reachable_inv [OF assms]
  by (auto simp: sched_inv_def queue_ok_def workers_ok_def)

theorem runner_exclusive_witness:
  "sched_init ex_start \<and> loop_step\<^sup>*\<^sup>* ex_start ex_running \<and> running ex_running = [ex_req] \<and>
   distinct (running ex_running @ map c_req (finished ex_running)) \<and>
   set (pendingQueue ex_running) \<inter> set (running ex_running @ map c_req (finished ex_running)) = {} \<and>
   length (running ex_running) + length (finished ex_running) \<le> workers (runner ex_running)"
  using runner_exclusive [OF sched_init_ex_start ex_steps(3)] sched_init_ex_start ex_steps(3)
  by (simp add: ex_running_def)

text \<open>
  Between iterations a key waits in the queue only while every worker is busy, and a task
  is sent only when a worker is idle, so the send on the unbuffered channel cannot deadlock
  against workers waiting to deliver completions.
\<close>

lemma runner_work_conserving:
  assumes "sched_init s0" and "loop_step\<^sup>*\<^sup>* s0 s"
  shows "(pendingQueue s \<noteq> [] \<longrightarrow> length (running s) + length (finished s) = workers (runner s)) \<and>
    busy s = length (running s) + length (finished s)"
  using runner_loop.reachable_inv [OF assms]
  by (auto simp: sched_inv_def workers_ok_def work_conserving_def)

text \<open>
  C23. A notification is never lost: while a key is in the inbox a wake-up is pending, and the
  wake-up arm leaves the key queued, running, or marked to run again after the round in flight.
\<close>

theorem runner_notification_kept:
  assumes "sched_init s0" and "loop_step\<^sup>*\<^sup>* s0 s" and "req \<in> inbox (runner s)"
    and "set batch = inbox (runner s)"
  shows "(wake (runner s) \<or> 0 < notifiers s) \<and>
    req \<in> pending (dispatch (drainInbox s batch)) \<union> set (running (dispatch (drainInbox s batch))) \<union>
      pendingAfter (dispatch (drainInbox s batch))"
proof -
  have "req \<in> scheduled (drainInbox s batch)"
    using assms(3,4) by (simp add: drainInbox_def scheduled_foldl_enqueue)
  then show ?thesis
    using runner_loop.reachable_inv [OF assms(1,2)] assms(3) dispatch_keeps [of "drainInbox s batch"]
    by (auto simp: sched_inv_def scheduled_def)
qed

theorem runner_notification_kept_witness:
  "ex_req \<in> inbox (runner ex_woken) \<and> (wake (runner ex_woken) \<or> 0 < notifiers ex_woken) \<and>
   ex_req \<in> pending (dispatch (drainInbox ex_woken [ex_req])) \<union>
     set (running (dispatch (drainInbox ex_woken [ex_req]))) \<union>
     pendingAfter (dispatch (drainInbox ex_woken [ex_req]))"
  using runner_notification_kept [OF sched_init_ex_start ex_steps(2), of ex_req "[ex_req]"]
  by (simp add: ex_woken_def)

text \<open>
  The timer arm serves every due event and leaves none due: a due key is scheduled, and a
  due resync schedules every listed key and its own next round at \<open>firedAt + resync\<close>.
\<close>

lemma runner_fireDue_serves:
  assumes "sched_init s0" and "loop_step\<^sup>*\<^sup>* s0 s" and "e \<in> set (eq s)" and "at e \<le> t"
  shows "served lk t e (fireDue lk s t) \<and> (\<forall>e' \<in> set (eq (fireDue lk s t)). t < at e')"
proof -
  have inv: "heap_ok at (eq s)" "queue_ok s" "workers_ok s"
    using runner_loop.reachable_inv [OF assms(1,2)] by (auto simp: sched_inv_def)
  then have "heap_ok at (eq (fireDue lk s t))" using fireDue_ok by blast
  then have "\<forall>e' \<in> set (eq (fireDue lk s t)). t < at e'"
    using fireDue_none_due [of t lk s] heap_top_least [of at "eq (fireDue lk s t)"]
    by (fastforce simp: due_def)
  then show ?thesis using fireDue_serves [OF inv(1) assms(3,4)] by blast
qed

text \<open>
  A completion never panics. A failure counts up and retries after the backoff step for
  that count, the last step capping the sequence; a success resets the count; and a key
  notified while in flight is queued again.
\<close>

lemma runner_completion:
  assumes "sched_init s0" and "loop_step\<^sup>*\<^sup>* s0 s" and "c \<in> set (finished s)"
  shows "\<exists>s'. complete s now c = Some s' \<and>
    (c_err c \<longrightarrow> fails s' (c_req c) = fails s (c_req c) + 1 \<and>
       key_event (now + backoff (runner s) ! (min (fails s (c_req c) + 1) (length (backoff (runner s))) - 1))
         (c_req c) \<in> set (eq s')) \<and>
    (\<not> c_err c \<longrightarrow> fails s' (c_req c) = 0 \<and>
       (RequeueAfter (c_res c) > 0 \<longrightarrow> key_event (now + RequeueAfter (c_res c)) (c_req c) \<in> set (eq s'))) \<and>
    (c_req c \<in> pendingAfter s \<longrightarrow> c_req c \<in> pending s') \<and> c_req c \<notin> inFlight s'"
proof -
  have "backoff (runner s) \<noteq> []"
    using runner_loop.reachable_inv [OF assms(1,2)] by (simp add: sched_inv_def)
  then show ?thesis
    by (auto simp: complete_def settle_def release_def Let_def backoff_step_Some rerun_def enqueue_def)
qed

end
