(* ===== verification/RelayProtocol.thy ===== *)
theory RelayProtocol
  imports Prelude "HOL-Library.AList"
begin

text \<open>
  The relay's wire protocol: the 12-byte frame header of
  \<^verbatim>\<open>internal/relay/relay_protocol.go\<close>, the X25519 challenge-response of
  \<^verbatim>\<open>auth_x25519.go\<close>, the frame writer of \<^verbatim>\<open>relay_server.go\<close> and the log limiter of
  \<^verbatim>\<open>relay_fail_limiter.go\<close>. Scalar multiplication (\<^verbatim>\<open>curve25519.X25519\<close>) belongs to
  another module and is the parameter \<open>X25519\<close>, its base point the parameter \<open>base\<close>;
  \<open>None\<close> is the error it returns.
\<close>

subsection \<open>Frame header\<close>

definition HeaderSize :: nat where
  "HeaderSize = 12"

definition MaxRegisterPayload :: nat where
  "MaxRegisterPayload = 512"

definition MaxForwardPayload :: nat where
  "MaxForwardPayload = 64 * 1024"

definition Register_cmd :: byte where
  "Register_cmd = 1"

definition Forward_cmd :: byte where
  "Forward_cmd = 2"

definition KeepAlive_cmd :: byte where
  "KeepAlive_cmd = 3"

definition Probe_cmd :: byte where
  "Probe_cmd = 4"

definition AuthChallenge :: byte where
  "AuthChallenge = 5"

definition AuthResponse :: byte where
  "AuthResponse = 6"

lemmas cmd_defs = Register_cmd_def Forward_cmd_def KeepAlive_cmd_def Probe_cmd_def
  AuthChallenge_def AuthResponse_def

definition KeySize :: nat where
  "KeySize = 32"

definition AuthResponsePayload :: nat where
  "AuthResponsePayload = 2 * KeySize"

lemmas size_defs = HeaderSize_def MaxRegisterPayload_def MaxForwardPayload_def KeySize_def
  AuthResponsePayload_def

record Header =
  Seq :: "16 word"
  PayloadLen :: "32 word"
  Cmd :: byte
  ToID :: "32 word"
  Reserved :: byte

datatype relay_error =
    HeaderTooShort
  | AuthScalar | AuthPublicKey | EcdhFailed
  | BadLength | KeyMismatch | LowOrderPoint | DhMismatch

definition Marshal :: "Header \<Rightarrow> bytes" where
  "Marshal h = put_le16 (Seq h) @ put_le32 (PayloadLen h) @ [Cmd h] @ put_le32 (ToID h) @ [Reserved h]"

text \<open>Writing \<open>bs\<close> over a slice that starts at \<open>i\<close>; the callers keep it within the buffer.\<close>

definition write_at :: "nat \<Rightarrow> bytes \<Rightarrow> bytes \<Rightarrow> bytes" where
  "write_at i bs buf = take i buf @ bs @ drop (i + length bs) buf"

definition slice :: "nat \<Rightarrow> nat \<Rightarrow> bytes \<Rightarrow> bytes" where
  "slice i j buf = take (j - i) (drop i buf)"

text \<open>\<^term>\<open>None\<close> is the run-time panic of a slice expression beyond the buffer.\<close>

definition MarshalInto :: "Header \<Rightarrow> bytes \<Rightarrow> bytes option" where
  "MarshalInto h buf =
     (if length buf < HeaderSize then None
      else Some (write_at 11 [Reserved h] (write_at 7 (put_le32 (ToID h)) (write_at 6 [Cmd h]
        (write_at 2 (put_le32 (PayloadLen h)) (write_at 0 (put_le16 (Seq h)) buf))))))"

definition Unmarshal :: "bytes \<Rightarrow> relay_error + Header" where
  "Unmarshal data =
     (if length data < HeaderSize then Inl HeaderTooShort
      else Inr \<lparr>Seq = le16 (slice 0 2 data), PayloadLen = le32 (slice 2 6 data), Cmd = data ! 6,
        ToID = le32 (slice 7 11 data), Reserved = data ! 11\<rparr>)"

definition stampSender :: "bytes \<Rightarrow> 64 word \<Rightarrow> bytes option" where
  "stampSender frame fromID =
     (if length frame < 11 then None else Some (write_at 7 (put_le32 (ucast fromID)) frame))"

definition sendFrame :: "byte \<Rightarrow> bytes \<Rightarrow> bytes" where
  "sendFrame cmd payload =
     Marshal \<lparr>Seq = 0, PayloadLen = of_nat (length payload), Cmd = cmd, ToID = 0, Reserved = 0\<rparr> @ payload"

subsection \<open>Codec lemmas\<close>

lemma length_Marshal [simp]: "length (Marshal h) = 12"
  by (simp add: Marshal_def)

lemma twelve_bytes:
  assumes "12 \<le> length data"
  obtains b0 b1 b2 b3 b4 b5 b6 b7 b8 b9 b10 b11 rest
  where "data = [b0, b1, b2, b3, b4, b5, b6, b7, b8, b9, b10, b11] @ rest"
proof -
  have "length (take 12 data) = Suc (Suc (Suc (Suc (Suc (Suc (Suc (Suc (Suc (Suc (Suc (Suc 0)))))))))))"
    using assms by simp
  then obtain b0 b1 b2 b3 b4 b5 b6 b7 b8 b9 b10 b11
    where "take 12 data = [b0, b1, b2, b3, b4, b5, b6, b7, b8, b9, b10, b11]"
    unfolding length_Suc_conv by auto
  then show thesis
    using that [of b0 b1 b2 b3 b4 b5 b6 b7 b8 b9 b10 b11 "drop 12 data"]
    by (metis append_take_drop_id)
qed

lemma Unmarshal_bytes [codec_simps]:
  "Unmarshal ([b0, b1, b2, b3, b4, b5, b6, b7, b8, b9, b10, b11] @ rest) =
     Inr \<lparr>Seq = le16 [b0, b1], PayloadLen = le32 [b2, b3, b4, b5], Cmd = b6,
       ToID = le32 [b7, b8, b9, b10], Reserved = b11\<rparr>"
  by (simp add: Unmarshal_def HeaderSize_def slice_def numeral_eq_Suc)

lemma Unmarshal_Marshal: "Unmarshal (Marshal h @ rest) = Inr h"
proof -
  have le: "le16 [ucast (Seq h), ucast (drop_bit 8 (Seq h))] = Seq h"
    "\<And>w. le32 [ucast w, ucast (drop_bit 8 w), ucast (drop_bit 16 w), ucast (drop_bit 24 w)] = w"
    using le16_put [of "Seq h"] le32_put by (simp_all add: put_le16_def put_le32_def)
  show ?thesis
    using Unmarshal_bytes [of "ucast (Seq h)" "ucast (drop_bit 8 (Seq h))"] le
    by (simp add: Marshal_def put_le16_def put_le32_def)
qed

lemma Marshal_Unmarshal:
  assumes "Unmarshal data = Inr h"
  shows "Marshal h = take 12 data"
proof -
  have "12 \<le> length data"
    using assms by (simp add: Unmarshal_def HeaderSize_def split: if_splits)
  then show ?thesis
    using assms
    by (elim twelve_bytes)
      (auto simp: Unmarshal_bytes simp del: append.simps, simp add: Marshal_def put_le16_le16 put_le32_le32)
qed

lemma Unmarshal_Inr_length: "Unmarshal data = Inr h \<Longrightarrow> 12 \<le> length data"
  by (simp add: Unmarshal_def HeaderSize_def split: if_splits)

lemma Unmarshal_total: "12 \<le> length data \<Longrightarrow> \<exists>h. Unmarshal data = Inr h"
  by (simp add: Unmarshal_def HeaderSize_def)

lemma MarshalInto_Marshal:
  "12 \<le> length buf \<Longrightarrow> MarshalInto h buf = Some (Marshal h @ drop 12 buf)"
  by (elim twelve_bytes)
    (simp add: MarshalInto_def HeaderSize_def write_at_def Marshal_def put_le16_def put_le32_def
      numeral_eq_Suc)

lemma stampSender_frame:
  "stampSender (Marshal h @ payload) fromID = Some (Marshal (h\<lparr>ToID := ucast fromID\<rparr>) @ payload)"
  by (simp add: stampSender_def write_at_def Marshal_def put_le16_def put_le32_def numeral_eq_Suc)

subsection \<open>Per-peer authentication\<close>

definition peerIDFromPublicKey :: "bytes \<Rightarrow> 32 word" where
  "peerIDFromPublicKey pub = be32 (slice 4 8 pub)"

text \<open>
  \<open>rnd\<close> is what \<^verbatim>\<open>rand.Read\<close> delivers, \<^term>\<open>None\<close> its failure. The challenge is its
  secret scalar.
\<close>

definition newChallenge ::
  "(bytes \<Rightarrow> bytes \<Rightarrow> bytes option) \<Rightarrow> bytes \<Rightarrow> bytes option \<Rightarrow> relay_error + (bytes \<times> bytes)" where
  "newChallenge X25519 base rnd =
     (case rnd of None \<Rightarrow> Inl AuthScalar
      | Some secret \<Rightarrow>
          (case X25519 secret base of None \<Rightarrow> Inl AuthPublicKey | Some pub \<Rightarrow> Inr (pub, secret)))"

definition verifyResponse ::
  "(bytes \<Rightarrow> bytes \<Rightarrow> bytes option) \<Rightarrow> bytes \<Rightarrow> 32 word \<Rightarrow> bytes \<Rightarrow> relay_error + unit" where
  "verifyResponse X25519 ch claimedID payload =
     (if length payload \<noteq> AuthResponsePayload then Inl BadLength
      else
        (let clientPub = take KeySize payload; clientDH = drop KeySize payload in
         if peerIDFromPublicKey clientPub \<noteq> claimedID then Inl KeyMismatch
         else
           (case X25519 ch clientPub of None \<Rightarrow> Inl EcdhFailed
            | Some shared \<Rightarrow>
                if shared = replicate KeySize 0 then Inl LowOrderPoint
                else if shared \<noteq> clientDH then Inl DhMismatch
                else Inr ())))"

definition answerChallenge ::
  "(bytes \<Rightarrow> bytes \<Rightarrow> bytes option) \<Rightarrow> bytes \<Rightarrow> bytes \<Rightarrow> bytes \<Rightarrow> relay_error + bytes" where
  "answerChallenge X25519 base challengePub clientPrivate =
     (case X25519 clientPrivate base of None \<Rightarrow> Inl AuthPublicKey
      | Some clientPub \<Rightarrow>
          (case X25519 clientPrivate challengePub of None \<Rightarrow> Inl EcdhFailed
           | Some shared \<Rightarrow> Inr (clientPub @ shared)))"

text \<open>
  What the handshake relies on of X25519: results have the length of a key, both ends of a
  Diffie-Hellman exchange compute the same secret, and the all-zero result is an error
  (documented behaviour of \<^verbatim>\<open>curve25519.X25519\<close> for low-order points).
\<close>

definition x25519_laws :: "(bytes \<Rightarrow> bytes \<Rightarrow> bytes option) \<Rightarrow> bytes \<Rightarrow> bool" where
  "x25519_laws X25519 base \<longleftrightarrow>
     (\<forall>k p r. X25519 k p = Some r \<longrightarrow> length r = KeySize \<and> r \<noteq> replicate KeySize 0) \<and>
     (\<forall>a b pa pb. X25519 a base = Some pa \<longrightarrow> X25519 b base = Some pb \<longrightarrow> X25519 a pb = X25519 b pa)"

lemma verifyResponse_Inr:
  "verifyResponse X25519 ch claimedID payload = Inr () \<longleftrightarrow>
     length payload = 64 \<and> be32 (slice 4 8 payload) = claimedID \<and>
     X25519 ch (take 32 payload) = Some (drop 32 payload) \<and> drop 32 payload \<noteq> replicate 32 0"
  by (auto simp: verifyResponse_def size_defs peerIDFromPublicKey_def slice_def Let_def take_drop min_def
      split: option.splits)

subsection \<open>Log limiter\<close>

definition relayFailLogEvery :: duration where
  "relayFailLogEvery = 30 * Second"

definition relayFailLogMax :: nat where
  "relayFailLogMax = 1024"

record relayFailLimiter =
  last_at :: "(32 word \<times> time) list"

definition allow :: "relayFailLimiter \<Rightarrow> 32 word \<Rightarrow> time \<Rightarrow> bool \<times> relayFailLimiter" where
  "allow l to now =
     (if (case map_of (last_at l) to of Some t \<Rightarrow> now - t < relayFailLogEvery | None \<Rightarrow> False)
      then (False, l)
      else
        (let kept = (if length (last_at l) \<ge> relayFailLogMax
                     then filter (\<lambda>e. \<not> now - snd e \<ge> relayFailLogEvery) (last_at l)
                     else last_at l)
         in (True, l\<lparr>last_at := AList.update to now kept\<rparr>)))"

text \<open>The failures that are logged of a sequence of failures, each a destination and a time.\<close>

fun logged :: "relayFailLimiter \<Rightarrow> (32 word \<times> time) list \<Rightarrow> (32 word \<times> time) list" where
  "logged l [] = []"
| "logged l ((to, now) # calls) =
     (case allow l to now of (ok, l') \<Rightarrow> (if ok then [(to, now)] else []) @ logged l' calls)"

definition limiter_ok :: "relayFailLimiter \<Rightarrow> bool" where
  "limiter_ok l \<longleftrightarrow> distinct (map fst (last_at l))"

lemma limiter_ok_allow: "limiter_ok l \<Longrightarrow> limiter_ok (snd (allow l to now))"
  by (auto simp: limiter_ok_def allow_def Let_def intro!: distinct_update distinct_map_filter)

lemma map_of_filter_kept:
  "distinct (map fst es) \<Longrightarrow> map_of es k = Some t \<Longrightarrow> P (k, t) \<Longrightarrow> map_of (filter P es) k = Some t"
  by (induction es) (auto split: if_splits dest: map_of_SomeD)

lemma logged_subset: "p \<in> set (logged l calls) \<Longrightarrow> p \<in> set calls"
  by (induction l calls rule: logged.induct) (auto split: prod.splits if_splits)

lemma logged_gap:
  assumes "limiter_ok l" "map_of (last_at l) to = Some t"
    and "sorted (map snd calls)" "\<forall>c \<in> set calls. t \<le> snd c" "(to, now) \<in> set (logged l calls)"
  shows "t + relayFailLogEvery \<le> now"
  using assms
proof (induction l calls arbitrary: t rule: logged.induct)
  case (2 l to' now' calls)
  obtain ok l' where al: "allow l to' now' = (ok, l')" by force
  have ok': "limiter_ok l'" using limiter_ok_allow [OF 2(2), of to' now'] al by simp
  note IH = 2(1) [OF al [symmetric] ok']
  show ?case
  proof (cases "ok \<and> to' = to")
    case True
    then have "t + relayFailLogEvery \<le> now'"
      using al 2(3) by (auto simp: allow_def split: if_splits)
    moreover have "now' \<le> now"
      using 2(4,6) al logged_subset [of "(to, now)" l' calls] by (fastforce split: if_splits)
    ultimately show ?thesis by simp
  next
    case False
    then have "(to, now) \<in> set (logged l' calls)" using 2(6) al by auto
    consider "map_of (last_at l') to = Some t" | "t + relayFailLogEvery \<le> now'"
      using False al 2(2,3) by (cases "\<not> now' - t \<ge> relayFailLogEvery")
        (auto simp: allow_def Let_def update_conv' limiter_ok_def map_of_filter_kept split: if_splits)
    then show ?thesis
    proof cases
      case 1
      then show ?thesis using IH [of t] 2 al \<open>(to, now) \<in> set (logged l' calls)\<close> by auto
    next
      case 2
      then show ?thesis
        using "2.prems" \<open>(to, now) \<in> set (logged l' calls)\<close> logged_subset [of "(to, now)" l' calls]
        by fastforce
    qed
  qed
qed simp

lemma logged_spaced:
  assumes "limiter_ok l" "sorted (map snd calls)"
  shows "sorted_wrt (\<lambda>a b. fst a = fst b \<longrightarrow> snd a + relayFailLogEvery \<le> snd b) (logged l calls)"
  using assms
proof (induction l calls rule: logged.induct)
  case (2 l to now calls)
  obtain ok l' where al: "allow l to now = (ok, l')" by force
  have ok': "limiter_ok l'" using limiter_ok_allow [OF 2(2), of to now] al by simp
  have IH: "sorted_wrt (\<lambda>a b. fst a = fst b \<longrightarrow> snd a + relayFailLogEvery \<le> snd b) (logged l' calls)"
    using 2(1) [OF al [symmetric] ok'] 2(3) by simp
  have "now + relayFailLogEvery \<le> t" if "ok" "(to, t) \<in> set (logged l' calls)" for t
    by (rule logged_gap [OF ok' _ _ _ that(2)])
      (use al that(1) 2(3) in \<open>auto simp: allow_def Let_def update_conv' split: if_splits\<close>)
  then show ?case using al IH by auto
qed simp

subsection \<open>Properties\<close>

text \<open>
  A header survives the wire whatever payload follows, the decoder reads nothing but the
  twelve bytes the encoder wrote, and the in-place encoder writes the same bytes.
\<close>

lemma header_roundtrip:
  "Unmarshal (Marshal h @ payload) = Inr h \<and>
   (Unmarshal data = Inr h \<longrightarrow> Marshal h = take HeaderSize data) \<and>
   (HeaderSize \<le> length buf \<longrightarrow> MarshalInto h buf = Some (Marshal h @ drop HeaderSize buf)) \<and>
   (Unmarshal data = Inl e \<longleftrightarrow> length data < HeaderSize \<and> e = HeaderTooShort)"
  by (auto simp: Unmarshal_Marshal HeaderSize_def MarshalInto_Marshal dest: Marshal_Unmarshal)
    (auto simp: Unmarshal_def HeaderSize_def split: if_splits)

text \<open>
  Stamping a frame replaces its destination by the low 32 bits of the sender's ID and
  leaves the other fields and the payload alone.
\<close>

lemma stampSender_sender:
  assumes "Unmarshal frame = Inr h"
  shows "\<exists>frame'. stampSender frame fromID = Some frame' \<and>
    Unmarshal frame' = Inr (h\<lparr>ToID := ucast fromID\<rparr>) \<and> drop HeaderSize frame' = drop HeaderSize frame"
proof -
  have "frame = Marshal h @ drop 12 frame"
    using Marshal_Unmarshal [OF assms] by simp
  then show ?thesis
    using stampSender_frame [of h "drop 12 frame" fromID]
    by (auto simp: HeaderSize_def Unmarshal_Marshal)
qed

text \<open>
  C21. The handshake is complete and binding: the answer an honest client computes for a fresh
  challenge is accepted under the ID of its own key, and under no other ID; and every accepted
  answer carries a key with the claimed ID and the secret the relay shares with that key.
\<close>

theorem auth_handshake:
  assumes "x25519_laws X25519 base"
    and "newChallenge X25519 base (Some secret) = Inr (challengePub, ch)"
    and "answerChallenge X25519 base challengePub clientPrivate = Inr resp"
  shows "verifyResponse X25519 ch (peerIDFromPublicKey (take KeySize resp)) resp = Inr () \<and>
    (verifyResponse X25519 ch claimedID resp = Inr () \<longrightarrow>
       claimedID = peerIDFromPublicKey (take KeySize resp)) \<and>
    (verifyResponse X25519 ch claimedID payload = Inr () \<longrightarrow>
       claimedID = peerIDFromPublicKey (take KeySize payload) \<and>
       X25519 secret (take KeySize payload) = Some (drop KeySize payload))"
proof -
  obtain pub shared where resp: "resp = pub @ shared" "X25519 clientPrivate base = Some pub"
    "X25519 clientPrivate challengePub = Some shared"
    using assms(3) by (auto simp: answerChallenge_def split: option.splits)
  have ch: "ch = secret" "X25519 secret base = Some challengePub"
    using assms(2) by (auto simp: newChallenge_def split: option.splits)
  have laws: "length pub = 32" "length shared = 32" "shared \<noteq> replicate 32 0"
    "X25519 secret pub = X25519 clientPrivate challengePub"
    using assms(1) resp(2,3) ch(2) unfolding x25519_laws_def KeySize_def by blast+
  have id: "be32 (slice 4 8 p) = peerIDFromPublicKey (take 32 p)" for p
    by (simp add: peerIDFromPublicKey_def slice_def drop_take min_def)
  show ?thesis
    using resp ch laws by (auto simp: verifyResponse_Inr id KeySize_def)
qed

definition xor_curve :: "bytes \<Rightarrow> bytes \<Rightarrow> bytes option" where
  "xor_curve k p =
     (if length k = 32 \<and> length p = 32 \<and> map2 (XOR) k p \<noteq> replicate 32 0
      then Some (map2 (XOR) k p) else None)"

lemma map2_replicate: "map2 f (replicate n a) (replicate n b) = replicate n (f a b)"
  by (induction n) simp_all

lemma xor_curve_laws: "x25519_laws xor_curve (replicate 32 1)"
proof -
  have swap: "map2 (XOR) a (map2 (XOR) b c) = map2 (XOR) b (map2 (XOR) a c)"
    if "length a = length b" "length b = length c" for a b c :: bytes
    using that by (auto intro!: nth_equalityI simp: xor.left_commute)
  show ?thesis
    by (auto simp: x25519_laws_def xor_curve_def KeySize_def swap split: if_splits)
qed

theorem auth_handshake_witness:
  "x25519_laws xor_curve (replicate 32 1) \<and>
   verifyResponse xor_curve (replicate 32 2) 0x05050505 (replicate 32 5 @ replicate 32 7) = Inr ()"
proof -
  have "newChallenge xor_curve (replicate 32 1) (Some (replicate 32 2)) = Inr (replicate 32 3, replicate 32 2)"
    "answerChallenge xor_curve (replicate 32 1) (replicate 32 3) (replicate 32 4) =
       Inr (replicate 32 5 @ replicate 32 7)"
    by (simp_all add: newChallenge_def answerChallenge_def xor_curve_def map2_replicate replicate_eq_replicate)
  from auth_handshake [OF xor_curve_laws this]
  show ?thesis
    by (simp add: xor_curve_laws KeySize_def peerIDFromPublicKey_def slice_def be32_def le32_def)
qed

definition spaced30 :: "32 word \<times> time \<Rightarrow> 32 word \<times> time \<Rightarrow> bool" where
  "spaced30 a b \<longleftrightarrow> (fst a = fst b \<longrightarrow> snd a + 30 * Second \<le> snd b)"

text \<open>
  Whatever failures occur in time order, two logged failures of one destination are at
  least thirty seconds apart.
\<close>

lemma relay_fail_log_spaced:
  assumes "sorted (map snd calls)"
  shows "sorted_wrt spaced30 (logged \<lparr>last_at = []\<rparr> calls)"
  using logged_spaced [OF _ assms, of "\<lparr>last_at = []\<rparr>"]
  by (simp add: limiter_ok_def relayFailLogEvery_def spaced30_def [abs_def])

end
