(* ===== verification/RelaySession.thy ===== *)
theory RelaySession
  imports RelayProtocol "HOL-Library.Sublist"
begin

text \<open>
  The relay's session table: \<^verbatim>\<open>internal/relay/stream.go\<close> (the session),
  \<^verbatim>\<open>session_writer.go\<close> (its bounded forward queue and sole writer) and
  \<^verbatim>\<open>session_manager.go\<close> (which connection owns a peer ID). Sessions are shared by reference
  between the table and the connection handlers, so they live in a store and a reference is
  an index of it. A nil channel is \<^term>\<open>None\<close>; the \<^verbatim>\<open>done\<close> channel, which is only ever closed, is a
  truth value. \<open>sent\<close> is what reached the stream. Log lines and metrics are left out.
\<close>

subsection \<open>Session and writer\<close>

datatype session_error = SessionClosed | QueueFull | TargetNotFound | DatagramError

datatype io_error = DeadlineExceeded | OtherIO

record Session =
  ID :: "64 word"
  Type :: string
  verified :: bool
  sendCh :: "bytes list option"
  done_ch :: "bool option"
  closeOnce :: bool
  workOnce :: bool
  dropped :: "64 word"
  stream_closed :: bool
  writer :: bool
  sent :: "bytes list"

definition forwardQueueDepth :: nat where
  "forwardQueueDepth = 256"

definition new_session :: "64 word \<Rightarrow> string \<Rightarrow> Session" where
  "new_session i ty = \<lparr>ID = i, Type = ty, verified = False, sendCh = None, done_ch = None,
     closeOnce = False, workOnce = False, dropped = 0, stream_closed = False, writer = False, sent = []\<rparr>"

definition newTCPSession :: "64 word \<Rightarrow> Session" where
  "newTCPSession i = new_session i ''TCP''"

definition startWriter :: "Session \<Rightarrow> Session" where
  "startWriter s = s\<lparr>sendCh := Some [], done_ch := Some False, writer := True\<rparr>"

definition work_once :: "Session \<Rightarrow> Session" where
  "work_once s = (if workOnce s then s else startWriter (s\<lparr>workOnce := True\<rparr>))"

text \<open>
  When both the send and the \<^verbatim>\<open>done\<close> case of the select are ready Go picks either: \<open>pick\<close> is
  its choice (true for the send).
\<close>

definition enqueue :: "bool \<Rightarrow> Session \<Rightarrow> bytes \<Rightarrow> session_error option \<times> Session" where
  "enqueue pick s0 frame =
     (let s = work_once s0;
          q = (case sendCh s of None \<Rightarrow> [] | Some q \<Rightarrow> q);
          can_send = (sendCh s \<noteq> None \<and> length q < forwardQueueDepth);
          is_done = (done_ch s = Some True)
      in if can_send \<and> (pick \<or> \<not> is_done) then (None, s\<lparr>sendCh := Some (q @ [frame])\<rparr>)
         else if is_done then (Some SessionClosed, s\<lparr>dropped := dropped s + 1\<rparr>)
         else (Some QueueFull, s\<lparr>dropped := dropped s + 1\<rparr>))"

definition shutdown :: "Session \<Rightarrow> Session" where
  "shutdown s =
     (if closeOnce s then s
      else s\<lparr>closeOnce := True, done_ch := map_option (\<lambda>_. True) (done_ch s), stream_closed := True\<rparr>)"

text \<open>
  \<open>deadline_err\<close> and \<open>write_err\<close> are what the stream's \<^verbatim>\<open>SetWriteDeadline\<close> and \<^verbatim>\<open>Write\<close> return;
  a closed stream fails.
\<close>

definition writeFrame :: "Session \<Rightarrow> io_error option \<Rightarrow> io_error option \<Rightarrow> bytes \<Rightarrow> io_error option \<times> Session" where
  "writeFrame s deadline_err write_err frame =
     (case deadline_err of Some e \<Rightarrow> (Some e, s)
      | None \<Rightarrow>
          if stream_closed s then (Some OtherIO, s)
          else (case write_err of Some e \<Rightarrow> (Some e, s) | None \<Rightarrow> (None, s\<lparr>sent := sent s @ [frame]\<rparr>)))"

text \<open>One iteration of \<^verbatim>\<open>writeLoop\<close> on either ready case; \<^term>\<open>None\<close> when the case is not ready.\<close>

definition writeLoop_frame :: "Session \<Rightarrow> io_error option \<Rightarrow> io_error option \<Rightarrow> Session option" where
  "writeLoop_frame s deadline_err write_err =
     (case (writer s, sendCh s) of
        (True, Some (frame # q)) \<Rightarrow>
          (case writeFrame (s\<lparr>sendCh := Some q\<rparr>) deadline_err write_err frame of
             (None, s') \<Rightarrow> Some s'
           | (Some e, s') \<Rightarrow> Some ((shutdown s')\<lparr>writer := False\<rparr>))
      | _ \<Rightarrow> None)"

definition writeLoop_done :: "Session \<Rightarrow> Session option" where
  "writeLoop_done s = (if writer s \<and> done_ch s = Some True then Some (s\<lparr>writer := False\<rparr>) else None)"

subsection \<open>Runs of one session\<close>

text \<open>
  The state carries, beside the session, the frames \<open>enqueue\<close> accepted so far, in order.
\<close>

inductive session_step :: "Session \<times> bytes list \<Rightarrow> Session \<times> bytes list \<Rightarrow> bool" where
  accept: "enqueue pick s frame = (None, s') \<Longrightarrow> session_step (s, acc) (s', acc @ [frame])"
| refuse: "enqueue pick s frame = (Some e, s') \<Longrightarrow> session_step (s, acc) (s', acc)"
| written: "writeLoop_frame s deadline_err write_err = Some s' \<Longrightarrow> session_step (s, acc) (s', acc)"
| stop: "writeLoop_done s = Some s' \<Longrightarrow> session_step (s, acc) (s', acc)"
| shut: "session_step (s, acc) (shutdown s, acc)"
| verify: "session_step (s, acc) (s\<lparr>verified := True\<rparr>, acc)"

inductive_cases session_stepE: "session_step x y"

definition session_init :: "Session \<times> bytes list \<Rightarrow> bool" where
  "session_init x \<longleftrightarrow> (\<exists>i ty. x = (new_session i ty, []))"

definition session_inv :: "Session \<times> bytes list \<Rightarrow> bool" where
  "session_inv x \<longleftrightarrow> (case x of (s, acc) \<Rightarrow>
     (workOnce s \<longleftrightarrow> sendCh s \<noteq> None) \<and> (workOnce s \<longleftrightarrow> done_ch s \<noteq> None) \<and>
     (\<forall>q. sendCh s = Some q \<longrightarrow> length q \<le> forwardQueueDepth) \<and>
     (closeOnce s \<longleftrightarrow> stream_closed s) \<and> (done_ch s = Some True \<longrightarrow> closeOnce s) \<and>
     (workOnce s \<and> \<not> writer s \<longrightarrow> closeOnce s) \<and>
     (writer s \<longrightarrow> workOnce s \<and> acc = sent s @ the (sendCh s)) \<and>
     (\<not> workOnce s \<longrightarrow> acc = []) \<and> prefix (sent s) acc)"

lemma session_inv_enqueue:
  "session_inv (s, acc) \<Longrightarrow> enqueue pick s frame = (r, s') \<Longrightarrow>
   session_inv (s', if r = None then acc @ [frame] else acc)"
  by (cases "workOnce s"; cases "writer s")
    (auto simp: session_inv_def enqueue_def work_once_def startWriter_def Let_def split: if_splits)

lemma session_inv_shutdown: "session_inv (s, acc) \<Longrightarrow> session_inv (shutdown s, acc)"
  by (auto simp: session_inv_def shutdown_def)

lemma session_inv_write:
  "session_inv (s, acc) \<Longrightarrow> writeLoop_frame s de we = Some s' \<Longrightarrow> session_inv (s', acc)"
  by (auto simp: session_inv_def writeLoop_frame_def writeFrame_def shutdown_def prefix_def
      split: option.splits if_splits bool.splits list.splits)

lemma session_inv_step:
  assumes "session_inv x" "session_step x y"
  shows "session_inv y"
  using assms(2)
proof cases
  case (accept pick s frame s' acc)
  then show ?thesis using session_inv_enqueue [of s acc pick frame None s'] assms(1) by simp
next
  case (refuse pick s frame e s' acc)
  then show ?thesis using session_inv_enqueue [of s acc pick frame "Some e" s'] assms(1) by simp
next
  case (written s de we s' acc)
  then show ?thesis using session_inv_write assms(1) by blast
next
  case (stop s s' acc)
  then show ?thesis using assms(1) by (auto simp: writeLoop_done_def session_inv_def split: if_splits)
next
  case (shut s acc)
  then show ?thesis using session_inv_shutdown assms(1) by blast
next
  case (verify s acc)
  then show ?thesis using assms(1) by (auto simp: session_inv_def)
qed

lemma session_inv_init: "session_init x \<Longrightarrow> session_inv x"
  by (auto simp: session_init_def session_inv_def new_session_def)

interpretation session_run: inductive_invariant session_init session_step session_inv
  by unfold_locales (erule session_inv_init, erule (1) session_inv_step)

subsection \<open>Session table\<close>

record 'c SessionManager =
  store :: "Session list"
  sessions :: "64 word \<rightharpoonup> nat"
  quicConns :: "64 word \<rightharpoonup> 'c"
  requirePeerAuth :: bool
  datagrams :: "('c \<times> bytes) list"

definition NewSessionManager :: "'c SessionManager" where
  "NewSessionManager = \<lparr>store = [], sessions = Map.empty, quicConns = Map.empty,
     requirePeerAuth = False, datagrams = []\<rparr>"

definition SetRequirePeerAuth :: "'c SessionManager \<Rightarrow> bool \<Rightarrow> 'c SessionManager" where
  "SetRequirePeerAuth m v = m\<lparr>requirePeerAuth := v\<rparr>"

text \<open>Allocation of a session object and an update through a reference.\<close>

definition alloc :: "'c SessionManager \<Rightarrow> Session \<Rightarrow> nat \<times> 'c SessionManager" where
  "alloc m s = (length (store m), m\<lparr>store := store m @ [s]\<rparr>)"

definition at_ref :: "(Session \<Rightarrow> Session) \<Rightarrow> nat \<Rightarrow> 'c SessionManager \<Rightarrow> 'c SessionManager" where
  "at_ref f r m = m\<lparr>store := (store m)[r := f (store m ! r)]\<rparr>"

definition shutdown_replaced :: "nat option \<Rightarrow> nat \<Rightarrow> 'c SessionManager \<Rightarrow> 'c SessionManager" where
  "shutdown_replaced old r m =
     (case old of Some o' \<Rightarrow> if o' \<noteq> r then at_ref shutdown o' m else m | None \<Rightarrow> m)"

definition Register :: "'c SessionManager \<Rightarrow> 64 word \<Rightarrow> nat \<Rightarrow> 'c SessionManager" where
  "Register m i r = shutdown_replaced (sessions m i) r (m\<lparr>sessions := (sessions m)(i \<mapsto> r)\<rparr>)"

definition Unregister :: "'c SessionManager \<Rightarrow> 64 word \<Rightarrow> nat option \<Rightarrow> 'c SessionManager" where
  "Unregister m i s =
     (case s of None \<Rightarrow> m
      | Some r \<Rightarrow>
          if sessions m i \<noteq> Some r then m
          else at_ref shutdown r
            (m\<lparr>sessions := map_del (sessions m) i, quicConns := map_del (quicConns m) i\<rparr>))"

definition RegisterQUIC :: "'c SessionManager \<Rightarrow> 64 word \<Rightarrow> 'c \<Rightarrow> nat \<times> 'c SessionManager" where
  "RegisterQUIC m i conn =
     (let (r, m1) = alloc m (new_session i ''QUIC'');
          m2 = m1\<lparr>sessions := (sessions m1)(i \<mapsto> r), quicConns := (quicConns m1)(i \<mapsto> conn)\<rparr>
      in (r, shutdown_replaced (sessions m1 i) r m2))"

definition MarkVerified :: "'c SessionManager \<Rightarrow> 64 word \<Rightarrow> nat option \<Rightarrow> 'c SessionManager" where
  "MarkVerified m i s =
     (case s of None \<Rightarrow> m
      | Some r \<Rightarrow> if sessions m i = Some r then at_ref (\<lambda>x. x\<lparr>verified := True\<rparr>) r m else m)"

definition RegisterQUICVerified :: "'c SessionManager \<Rightarrow> 64 word \<Rightarrow> 'c \<Rightarrow> nat \<times> 'c SessionManager" where
  "RegisterQUICVerified m i conn =
     (let (r, m1) = RegisterQUIC m i conn in (r, MarkVerified m1 i (Some r)))"

definition IsVerified :: "'c SessionManager \<Rightarrow> 64 word \<Rightarrow> bool" where
  "IsVerified m i = (case sessions m i of None \<Rightarrow> False | Some r \<Rightarrow> verified (store m ! r))"

definition Get :: "'c SessionManager \<Rightarrow> 64 word \<Rightarrow> nat option" where
  "Get m i =
     (case sessions m i of None \<Rightarrow> None
      | Some r \<Rightarrow> if \<not> requirePeerAuth m \<or> verified (store m ! r) then Some r else None)"

text \<open>
  \<open>sendDatagram\<close> is quic-go's \<^verbatim>\<open>SendDatagram\<close> (true when it reports an error); a datagram it
  accepts is recorded in \<open>datagrams\<close>.
\<close>

definition Relay ::
  "('c \<Rightarrow> bytes \<Rightarrow> bool) \<Rightarrow> bool \<Rightarrow> 'c SessionManager \<Rightarrow> 64 word \<Rightarrow> bytes \<Rightarrow>
   session_error option \<times> 'c SessionManager" where
  "Relay sendDatagram pick m toID frame =
     (case quicConns m toID of
        Some conn \<Rightarrow>
          if sendDatagram conn frame then (Some DatagramError, m)
          else (None, m\<lparr>datagrams := datagrams m @ [(conn, frame)]\<rparr>)
      | None \<Rightarrow>
          (case sessions m toID of
             Some r \<Rightarrow>
               if \<not> requirePeerAuth m \<or> verified (store m ! r) then
                 (case enqueue pick (store m ! r) frame of
                    (e, s) \<Rightarrow> (e, m\<lparr>store := (store m)[r := s]\<rparr>))
               else (Some TargetNotFound, m)
           | None \<Rightarrow> (Some TargetNotFound, m)))"

definition ConnectedPeers :: "'c SessionManager \<Rightarrow> nat" where
  "ConnectedPeers m = card (dom (sessions m))"

subsection \<open>Lemmas on the table\<close>

lemma at_ref_frame [frame_simps, simp]:
  "sessions (at_ref f r m) = sessions m" "quicConns (at_ref f r m) = quicConns m"
  "requirePeerAuth (at_ref f r m) = requirePeerAuth m" "datagrams (at_ref f r m) = datagrams m"
  "length (store (at_ref f r m)) = length (store m)"
  by (simp_all add: at_ref_def)

lemma shutdown_replaced_frame [frame_simps, simp]:
  "sessions (shutdown_replaced old r m) = sessions m" "quicConns (shutdown_replaced old r m) = quicConns m"
  "requirePeerAuth (shutdown_replaced old r m) = requirePeerAuth m"
  "datagrams (shutdown_replaced old r m) = datagrams m"
  "length (store (shutdown_replaced old r m)) = length (store m)"
  by (simp_all add: shutdown_replaced_def split: option.split)

lemma store_at_ref:
  "x < length (store m) \<Longrightarrow> store (at_ref f r m) ! x = (if x = r then f (store m ! r) else store m ! x)"
  by (simp add: at_ref_def)

lemma shutdown_frame [simp]:
  "verified (shutdown s) = verified s" "sendCh (shutdown s) = sendCh s" "sent (shutdown s) = sent s"
  by (simp_all add: shutdown_def)

lemma shutdown_idem: "shutdown (shutdown s) = shutdown s"
  by (simp add: shutdown_def)

lemma verified_store_shutdown:
  "x < length (store m) \<Longrightarrow>
   verified (store (shutdown_replaced old r m) ! x) = verified (store m ! x)"
  by (auto simp: shutdown_replaced_def store_at_ref split: option.split)

lemma sendCh_store_shutdown:
  "x < length (store m) \<Longrightarrow>
   sendCh (store (shutdown_replaced old r m) ! x) = sendCh (store m ! x)"
  by (auto simp: shutdown_replaced_def store_at_ref split: option.split)

lemma verified_enqueue: "enqueue pick s f = (e, s') \<Longrightarrow> verified s' = verified s"
  by (auto simp: enqueue_def work_once_def startWriter_def Let_def split: if_splits)

lemma sessions_Unregister:
  "sessions (Unregister m i (Some r)) j = (if j = i \<and> sessions m i = Some r then None else sessions m j)"
  by (simp add: Unregister_def)

interpretation session_slots: slot_table sessions Register "\<lambda>m i r. Unregister m i (Some r)"
  by unfold_locales (simp_all add: Register_def sessions_Unregister)

subsection \<open>Properties\<close>

text \<open>
  C22. Each destination's queue is bounded and FIFO: in every run of a session at most 256
  frames wait, what reached the stream is a prefix of what was accepted, in order, and until
  the session is shut down nothing accepted is missing from stream and queue together.
\<close>

theorem session_fifo:
  assumes "session_init x" and "session_step\<^sup>*\<^sup>* x (s, acc)"
  shows "length (case sendCh s of None \<Rightarrow> [] | Some q \<Rightarrow> q) \<le> 256 \<and> prefix (sent s) acc \<and>
    (\<not> closeOnce s \<longrightarrow> acc = sent s @ (case sendCh s of None \<Rightarrow> [] | Some q \<Rightarrow> q))"
  using session_run.reachable_inv [OF assms]
  by (auto simp: session_inv_def forwardQueueDepth_def split: option.split)

theorem session_fifo_witness:
  "\<exists>s. session_step\<^sup>*\<^sup>* (newTCPSession 7, []) (s, [[1], [2]]) \<and> sent s = [[1]] \<and> sendCh s = Some [[2]] \<and>
     prefix (sent s) [[1], [2]] \<and> [[1], [2]] = sent s @ the (sendCh s)"
proof -
  define s0 where "s0 = newTCPSession 7"
  define s1 where "s1 = snd (enqueue True s0 [1])"
  define s2 where "s2 = snd (enqueue True s1 [2])"
  define s3 where "s3 = the (writeLoop_frame s2 None None)"
  note defs = s0_def s1_def s2_def s3_def newTCPSession_def new_session_def enqueue_def work_once_def
    startWriter_def forwardQueueDepth_def writeLoop_frame_def writeFrame_def Let_def
  have "session_step (s0, []) (s1, [] @ [[1]])" by (rule accept [of True]) (simp add: defs)
  moreover have "session_step (s1, [[1]]) (s2, [[1]] @ [[2]])" by (rule accept [of True]) (simp add: defs)
  moreover have "session_step (s2, [[1], [2]]) (s3, [[1], [2]])"
    by (rule written [of _ None None]) (simp add: defs)
  ultimately have run: "session_step\<^sup>*\<^sup>* (s0, []) (s3, [[1], [2]])" by simp
  have "session_init (s0, [])" by (auto simp: session_init_def s0_def newTCPSession_def)
  from session_fifo [OF this run] run show ?thesis
    by (intro exI [of _ s3]) (simp add: s0_def, simp add: defs)
qed

text \<open>
  C24. The last registration of a peer ID keeps the slot whatever cleanups of replaced
  connections follow, in any number and order; it loses it only through its own cleanup.
\<close>

theorem stale_cleanup_harmless:
  assumes "r \<notin> set stale"
  shows "sessions (foldl (\<lambda>m r'. Unregister m i (Some r')) (Register m i r) stale) i = Some r \<and>
    sessions (Unregister (foldl (\<lambda>m r'. Unregister m i (Some r')) (Register m i r) stale) i (Some r)) i = None"
  using session_slots.last_taker_owns [OF assms, of i m]
    session_slots.owner_releases [of "foldl (\<lambda>m r'. Unregister m i (Some r')) (Register m i r) stale" i r]
  by blast

theorem stale_cleanup_harmless_witness:
  "sessions (foldl (\<lambda>m r'. Unregister m 9 (Some r')) (Register (Register (NewSessionManager :: nat SessionManager) 9 0) 9 1) [0]) 9 = Some 1"
  using stale_cleanup_harmless [of 1 "[0]" 9 "Register (NewSessionManager :: nat SessionManager) 9 0"] by simp

text \<open>
  A TCP registration over a QUIC session leaves the old QUIC connection in the table: after
  the replaced handler's cleanup the slot belongs to the new session, yet frames for the peer
  still go to the replaced connection.
\<close>

lemma tcp_takeover_keeps_quic_route:
  assumes "RegisterQUIC m i conn = (q, m1)" and "r \<noteq> q" and "\<not> sendDatagram conn frame"
  shows "sessions (Unregister (Register m1 i r) i (Some q)) i = Some r \<and>
    Relay sendDatagram pick (Unregister (Register m1 i r) i (Some q)) i frame =
      (None, (Unregister (Register m1 i r) i (Some q))\<lparr>datagrams := datagrams m @ [(conn, frame)]\<rparr>)"
  using assms
  by (auto simp: RegisterQUIC_def Register_def Unregister_def Relay_def alloc_def Let_def)

end
