(* ===== verification/RelayServer.thy ===== *)
theory RelayServer
  imports RelaySession
begin

text \<open>
  The relay's connection handlers: \<^verbatim>\<open>internal/relay/relay_server.go\<close> (TCP) and
  \<^verbatim>\<open>relay_server_quic.go\<close> (QUIC), on the session table they share. A connection carries the
  whole byte sequence its client will ever send and the position the handler has read to, so
  \<^verbatim>\<open>io.ReadFull\<close> either takes the next bytes or, at the end of the sequence (close, error or
  read deadline), takes what is left and fails. Handlers run interleaved, one loop iteration
  at a time. Deadlines themselves, log lines and the HTTP upgrade are left out.
\<close>

datatype phase = Accepted | Serving | Closing | Closed

record conn =
  input :: bytes
  pos :: nat
  fromId :: "64 word"
  issued :: "bytes option"
  pending :: "bytes option"
  sess :: "nat option"
  out :: "bytes list"
  phase :: phase

record 'c Server =
  mgr :: "'c SessionManager"
  authToken :: bytes
  strict :: bool
  failLog :: relayFailLimiter
  quicFailLog :: relayFailLimiter

text \<open>
  \<^verbatim>\<open>NewServer\<close> and the \<^verbatim>\<open>NewQUICServer\<close> built on its manager with the same flags; a fresh
  connection.
\<close>

definition NewServer :: "bytes \<Rightarrow> bool \<Rightarrow> 'c Server" where
  "NewServer token req = \<lparr>mgr = SetRequirePeerAuth NewSessionManager req, authToken = token,
     strict = req, failLog = \<lparr>last_at = []\<rparr>, quicFailLog = \<lparr>last_at = []\<rparr>\<rparr>"

definition new_conn :: "bytes \<Rightarrow> conn" where
  "new_conn inp = \<lparr>input = inp, pos = 0, fromId = 0, issued = None, pending = None, sess = None,
     out = [], phase = Accepted\<rparr>"

definition readFull :: "conn \<Rightarrow> nat \<Rightarrow> bytes option \<times> conn" where
  "readFull c n =
     (if pos c + n \<le> length (input c) then (Some (take n (drop (pos c) (input c))), c\<lparr>pos := pos c + n\<rparr>)
      else (None, c\<lparr>pos := max (pos c) (length (input c))\<rparr>))"

definition readHeader :: "conn \<Rightarrow> (bytes \<times> Header) option \<times> conn" where
  "readHeader c =
     (case readFull c HeaderSize of
        (None, c') \<Rightarrow> (None, c')
      | (Some hb, c') \<Rightarrow> (case Unmarshal hb of Inl e \<Rightarrow> (None, c') | Inr h \<Rightarrow> (Some (hb, h), c')))"

abbreviation payload_len :: "Header \<Rightarrow> nat" where
  "payload_len h \<equiv> unat (PayloadLen h)"

definition checkRegisterToken :: "'c Server \<Rightarrow> bytes \<Rightarrow> bool" where
  "checkRegisterToken s payload \<longleftrightarrow> authToken s = [] \<or> payload = authToken s"

subsection \<open>Shared steps\<close>

text \<open>
  Reading and validating the Register frame (the same statements in both handlers):
  \<^term>\<open>None\<close> when the handler returns, otherwise the claimed ID.
\<close>

definition readRegister :: "'c Server \<Rightarrow> conn \<Rightarrow> (64 word \<times> conn) option" where
  "readRegister s c =
     (case readHeader c of
        (None, _) \<Rightarrow> None
      | (Some (hb, h), c1) \<Rightarrow>
          if Cmd h \<noteq> Register_cmd then None
          else if payload_len h > MaxRegisterPayload then None
          else
            (case (if payload_len h > 0 then readFull c1 (payload_len h) else (Some [], c1)) of
               (None, _) \<Rightarrow> None
             | (Some regPayload, c2) \<Rightarrow>
                 if \<not> checkRegisterToken s regPayload then None
                 else Some (ucast (ToID h), c2)))"

text \<open>
  Issuing the challenge. \<open>rnd\<close> is the scalar drawn and \<open>sent_ok\<close> whether the stream took the
  frame; the first component is true when the handler returns.
\<close>

definition issueChallenge ::
  "(bytes \<Rightarrow> bytes \<Rightarrow> bytes option) \<Rightarrow> bytes \<Rightarrow> 'c Server \<Rightarrow> bytes option \<Rightarrow> bool \<Rightarrow> conn \<Rightarrow> bool \<times> conn" where
  "issueChallenge X25519 base s rnd sent_ok c =
     (case newChallenge X25519 base rnd of
        Inr (challengePub, ch) \<Rightarrow>
          if sent_ok then
            (False, c\<lparr>out := out c @ [sendFrame AuthChallenge challengePub], issued := Some ch, pending := Some ch\<rparr>)
          else (strict s, c)
      | Inl e \<Rightarrow> (strict s, c))"

text \<open>Relaying one frame and the rate-limited warning.\<close>

definition relay_frame ::
  "('c \<Rightarrow> bytes \<Rightarrow> bool) \<Rightarrow> bool \<Rightarrow> time \<Rightarrow> 'c Server \<Rightarrow> 64 word \<Rightarrow> Header \<Rightarrow> bytes \<Rightarrow> 'c Server" where
  "relay_frame sendDatagram pick now s from h frame =
     (let frame' = (if Cmd h = Forward_cmd
                    then (case stampSender frame from of Some f \<Rightarrow> f | None \<Rightarrow> frame) else frame)
      in case Relay sendDatagram pick (mgr s) (ucast (ToID h)) frame' of
           (None, m) \<Rightarrow> s\<lparr>mgr := m\<rparr>
         | (Some e, m) \<Rightarrow> s\<lparr>mgr := m, failLog := snd (allow (failLog s) (ToID h) now)\<rparr>)"

subsection \<open>TCP handler\<close>

text \<open>The deferred cleanup: unregister the session, close the stream.\<close>

definition tcp_return :: "'c Server \<Rightarrow> conn \<Rightarrow> 'c Server \<times> conn" where
  "tcp_return s c = (s\<lparr>mgr := Unregister (mgr s) (fromId c) (sess c)\<rparr>, c\<lparr>phase := Closed\<rparr>)"

definition tcp_register :: "bool \<Rightarrow> 'c Server \<Rightarrow> conn \<Rightarrow> 'c Server \<times> conn" where
  "tcp_register ver s c =
     (let (r, m) = alloc (mgr s) ((newTCPSession (fromId c))\<lparr>verified := ver\<rparr>)
      in (s\<lparr>mgr := Register m (fromId c) r\<rparr>, c\<lparr>sess := Some r\<rparr>))"

definition tcp_open ::
  "(bytes \<Rightarrow> bytes \<Rightarrow> bytes option) \<Rightarrow> bytes \<Rightarrow> bytes option \<Rightarrow> bool \<Rightarrow> 'c Server \<Rightarrow> conn \<Rightarrow> 'c Server \<times> conn" where
  "tcp_open X25519 base rnd sent_ok s c =
     (case readRegister s c of
        None \<Rightarrow> tcp_return s c
      | Some (from, c1) \<Rightarrow>
          (case issueChallenge X25519 base s rnd sent_ok (c1\<lparr>fromId := from\<rparr>) of
             (True, c2) \<Rightarrow> tcp_return s c2
           | (False, c2) \<Rightarrow>
               if \<not> strict s then tcp_register False s (c2\<lparr>phase := Serving\<rparr>)
               else (s, c2\<lparr>phase := Serving\<rparr>)))"

definition tcp_auth_response ::
  "(bytes \<Rightarrow> bytes \<Rightarrow> bytes option) \<Rightarrow> 'c Server \<Rightarrow> conn \<Rightarrow> bytes \<Rightarrow> Header \<Rightarrow> 'c Server \<times> conn" where
  "tcp_auth_response X25519 s c ch h =
     (if payload_len h > AuthResponsePayload then tcp_return s c
      else
        (case readFull c (payload_len h) of
           (None, c1) \<Rightarrow> tcp_return s c1
         | (Some payload, c1) \<Rightarrow>
             (case verifyResponse X25519 ch (ucast (fromId c)) payload of
                Inl e \<Rightarrow> tcp_return s c1
              | Inr _ \<Rightarrow>
                  (case sess c1 of
                     Some r \<Rightarrow> (s\<lparr>mgr := MarkVerified (mgr s) (fromId c1) (Some r)\<rparr>, c1\<lparr>pending := None\<rparr>)
                   | None \<Rightarrow> tcp_register True s (c1\<lparr>pending := None\<rparr>)))))"

definition tcp_switch ::
  "('c \<Rightarrow> bytes \<Rightarrow> bool) \<Rightarrow> bool \<Rightarrow> time \<Rightarrow> 'c Server \<Rightarrow> conn \<Rightarrow> bytes \<Rightarrow> Header \<Rightarrow> 'c Server \<times> conn" where
  "tcp_switch sendDatagram pick now s c hb h =
     (if Cmd h = Forward_cmd \<or> Cmd h = Probe_cmd then
        (if payload_len h > MaxForwardPayload then tcp_return s c
         else
           (case readFull c (payload_len h) of
              (None, c1) \<Rightarrow> (s, c1)
            | (Some payload, c1) \<Rightarrow> (relay_frame sendDatagram pick now s (fromId c) h (hb @ payload), c1)))
      else (s, c))"

text \<open>One iteration of the read loop of \<^verbatim>\<open>handleBoltSession\<close>.\<close>

definition tcp_iter ::
  "(bytes \<Rightarrow> bytes \<Rightarrow> bytes option) \<Rightarrow> ('c \<Rightarrow> bytes \<Rightarrow> bool) \<Rightarrow> bool \<Rightarrow> time \<Rightarrow> 'c Server \<Rightarrow> conn \<Rightarrow>
   'c Server \<times> conn" where
  "tcp_iter X25519 sendDatagram pick now s c =
     (case readHeader c of
        (None, c1) \<Rightarrow> tcp_return s c1
      | (Some (hb, h), c1) \<Rightarrow>
          (case pending c1 of
             Some ch \<Rightarrow>
               if Cmd h = AuthResponse then tcp_auth_response X25519 s c1 ch h
               else if strict s then tcp_return s c1
               else tcp_switch sendDatagram pick now s (c1\<lparr>pending := None\<rparr>) hb h
           | None \<Rightarrow> tcp_switch sendDatagram pick now s c1 hb h))"

subsection \<open>QUIC handler\<close>

text \<open>
  The deferred cleanups of \<^verbatim>\<open>handleConn\<close> run in reverse order: unregister first, close the
  connection after; a datagram may still be handled in between (phase \<^term>\<open>Closing\<close>).
\<close>

definition quic_return :: "'c Server \<Rightarrow> conn \<Rightarrow> 'c Server \<times> conn" where
  "quic_return s c = (s\<lparr>mgr := Unregister (mgr s) (fromId c) (sess c)\<rparr>, c\<lparr>phase := Closing\<rparr>)"

definition quic_abort :: "'c Server \<Rightarrow> conn \<Rightarrow> 'c Server \<times> conn" where
  "quic_abort s c = (s\<lparr>mgr := Unregister (mgr s) (fromId c) (sess c)\<rparr>, c\<lparr>phase := Closed\<rparr>)"

definition readAuthResponse ::
  "(bytes \<Rightarrow> bytes \<Rightarrow> bytes option) \<Rightarrow> conn \<Rightarrow> bool \<times> conn" where
  "readAuthResponse X25519 c =
     (case pending c of
        None \<Rightarrow> (False, c)
      | Some ch \<Rightarrow>
          (case readHeader c of
             (None, c1) \<Rightarrow> (False, c1)
           | (Some (hb, h), c1) \<Rightarrow>
               if Cmd h \<noteq> AuthResponse \<or> payload_len h > AuthResponsePayload then (False, c1)
               else
                 (case readFull c1 (payload_len h) of
                    (None, c2) \<Rightarrow> (False, c2)
                  | (Some payload, c2) \<Rightarrow>
                      (case verifyResponse X25519 ch (ucast (fromId c)) payload of
                         Inl e \<Rightarrow> (False, c2) | Inr _ \<Rightarrow> (True, c2)))))"

definition quic_open ::
  "(bytes \<Rightarrow> bytes \<Rightarrow> bytes option) \<Rightarrow> bytes \<Rightarrow> bytes option \<Rightarrow> bool \<Rightarrow> 'c \<Rightarrow> 'c Server \<Rightarrow> conn \<Rightarrow>
   'c Server \<times> conn" where
  "quic_open X25519 base rnd sent_ok qc s c =
     (case readRegister s c of
        None \<Rightarrow> quic_abort s c
      | Some (from, c1) \<Rightarrow>
          (let (s2, c2) =
             (if \<not> strict s
              then (case RegisterQUIC (mgr s) from qc of
                      (r, m) \<Rightarrow> (s\<lparr>mgr := m\<rparr>, c1\<lparr>fromId := from, sess := Some r\<rparr>))
              else (s, c1\<lparr>fromId := from\<rparr>))
           in case issueChallenge X25519 base s2 rnd sent_ok c2 of
                (True, c3) \<Rightarrow> quic_abort s2 c3
              | (False, c3) \<Rightarrow>
                  if strict s2 then
                    (case readAuthResponse X25519 c3 of
                       (False, c4) \<Rightarrow> quic_abort s2 c4
                     | (True, c4) \<Rightarrow>
                         (case RegisterQUICVerified (mgr s2) from qc of
                            (r, m) \<Rightarrow> (s2\<lparr>mgr := m\<rparr>, c4\<lparr>sess := Some r, pending := None, phase := Serving\<rparr>)))
                  else (s2, c3\<lparr>phase := Serving\<rparr>)))"

text \<open>One iteration of \<^verbatim>\<open>handleControlStream\<close>.\<close>

definition quic_control ::
  "(bytes \<Rightarrow> bytes \<Rightarrow> bytes option) \<Rightarrow> 'c Server \<Rightarrow> conn \<Rightarrow> 'c Server \<times> conn" where
  "quic_control X25519 s c =
     (case readHeader c of
        (None, c1) \<Rightarrow> quic_return s c1
      | (Some (hb, h), c1) \<Rightarrow>
          if Cmd h = AuthResponse \<and> pending c1 \<noteq> None then
            (if payload_len h > AuthResponsePayload then quic_return s c1
             else
               (case readFull c1 (payload_len h) of
                  (None, c2) \<Rightarrow> quic_return s c2
                | (Some payload, c2) \<Rightarrow>
                    (case verifyResponse X25519 (the (pending c1)) (ucast (fromId c)) payload of
                       Inl e \<Rightarrow> quic_return s c2
                     | Inr _ \<Rightarrow> (s\<lparr>mgr := MarkVerified (mgr s) (fromId c2) (sess c2)\<rparr>, c2\<lparr>pending := None\<rparr>))))
          else if Cmd h = KeepAlive_cmd then
            (if payload_len h > MaxForwardPayload then quic_return s c1
             else (case readFull c1 (payload_len h) of
                     (None, c2) \<Rightarrow> quic_return s c2 | (Some _, c2) \<Rightarrow> (s, c2)))
          else (s, c1))"

text \<open>
  One iteration of \<^verbatim>\<open>relayDatagrams\<close> on a received datagram; the QUIC server has a log limiter
  of its own.
\<close>

definition quic_datagram ::
  "('c \<Rightarrow> bytes \<Rightarrow> bool) \<Rightarrow> bool \<Rightarrow> time \<Rightarrow> 'c Server \<Rightarrow> 64 word \<Rightarrow> bytes \<Rightarrow> 'c Server" where
  "quic_datagram sendDatagram pick now s from data =
     (case Unmarshal (take HeaderSize data) of
        Inl e \<Rightarrow> s
      | Inr h \<Rightarrow>
          if Cmd h \<noteq> Forward_cmd \<and> Cmd h \<noteq> Probe_cmd then s
          else
            (let s' = relay_frame sendDatagram pick now (s\<lparr>failLog := quicFailLog s\<rparr>) from h data
             in s'\<lparr>failLog := failLog s, quicFailLog := failLog s'\<rparr>))"

subsection \<open>Interleaved connections\<close>

record 'c world =
  server :: "'c Server"
  tcp :: "conn list"
  quic :: "('c \<times> conn) list"

text \<open>
  All handlers of a relay process. Clients connect at any time, every handler advances one
  iteration at a time, and the session writers run in between.
\<close>

inductive relay_step ::
  "(bytes \<Rightarrow> bytes \<Rightarrow> bytes option) \<Rightarrow> bytes \<Rightarrow> ('c \<Rightarrow> bytes \<Rightarrow> bool) \<Rightarrow> 'c world \<Rightarrow> 'c world \<Rightarrow> bool"
  for X25519 base sendDatagram where
  accept_tcp: "relay_step X25519 base sendDatagram w (w\<lparr>tcp := tcp w @ [new_conn inp]\<rparr>)"
| open_tcp: "i < length (tcp w) \<Longrightarrow> phase (tcp w ! i) = Accepted \<Longrightarrow>
    tcp_open X25519 base rnd ok (server w) (tcp w ! i) = (s', c') \<Longrightarrow>
    relay_step X25519 base sendDatagram w (w\<lparr>server := s', tcp := (tcp w)[i := c']\<rparr>)"
| iter_tcp: "i < length (tcp w) \<Longrightarrow> phase (tcp w ! i) = Serving \<Longrightarrow>
    tcp_iter X25519 sendDatagram pick now (server w) (tcp w ! i) = (s', c') \<Longrightarrow>
    relay_step X25519 base sendDatagram w (w\<lparr>server := s', tcp := (tcp w)[i := c']\<rparr>)"
| accept_quic: "relay_step X25519 base sendDatagram w (w\<lparr>quic := quic w @ [(qc, new_conn inp)]\<rparr>)"
| open_quic: "i < length (quic w) \<Longrightarrow> quic w ! i = (qc, c) \<Longrightarrow> phase c = Accepted \<Longrightarrow>
    quic_open X25519 base rnd ok qc (server w) c = (s', c') \<Longrightarrow>
    relay_step X25519 base sendDatagram w (w\<lparr>server := s', quic := (quic w)[i := (qc, c')]\<rparr>)"
| control_quic: "i < length (quic w) \<Longrightarrow> quic w ! i = (qc, c) \<Longrightarrow> phase c = Serving \<Longrightarrow>
    quic_control X25519 (server w) c = (s', c') \<Longrightarrow>
    relay_step X25519 base sendDatagram w (w\<lparr>server := s', quic := (quic w)[i := (qc, c')]\<rparr>)"
| datagram_quic: "(qc, c) \<in> set (quic w) \<Longrightarrow> phase c = Serving \<or> phase c = Closing \<Longrightarrow>
    relay_step X25519 base sendDatagram w
      (w\<lparr>server := quic_datagram sendDatagram pick now (server w) (fromId c) data\<rparr>)"
| close_quic: "i < length (quic w) \<Longrightarrow> quic w ! i = (qc, c) \<Longrightarrow> phase c = Closing \<Longrightarrow>
    relay_step X25519 base sendDatagram w (w\<lparr>quic := (quic w)[i := (qc, c\<lparr>phase := Closed\<rparr>)]\<rparr>)"
| writer_frame: "r < length (store (mgr (server w))) \<Longrightarrow>
    writeLoop_frame (store (mgr (server w)) ! r) de we = Some x \<Longrightarrow>
    relay_step X25519 base sendDatagram w
      (w\<lparr>server := (server w)\<lparr>mgr := at_ref (\<lambda>_. x) r (mgr (server w))\<rparr>\<rparr>)"
| writer_done: "r < length (store (mgr (server w))) \<Longrightarrow>
    writeLoop_done (store (mgr (server w)) ! r) = Some x \<Longrightarrow>
    relay_step X25519 base sendDatagram w
      (w\<lparr>server := (server w)\<lparr>mgr := at_ref (\<lambda>_. x) r (mgr (server w))\<rparr>\<rparr>)"

text \<open>
  A connection has proved its ID when 64 bytes it sent answer the challenge the relay issued
  to this very connection, for the ID it registered with.
\<close>

definition proven :: "(bytes \<Rightarrow> bytes \<Rightarrow> bytes option) \<Rightarrow> conn \<Rightarrow> bool" where
  "proven X25519 c \<longleftrightarrow> (\<exists>ch k. issued c = Some ch \<and> k + 64 \<le> pos c \<and>
     verifyResponse X25519 ch (ucast (fromId c)) (take 64 (drop k (input c))) = Inr ())"

definition conn_grows :: "conn \<Rightarrow> conn \<Rightarrow> bool" where
  "conn_grows c c' \<longleftrightarrow> input c' = input c \<and> pos c \<le> pos c' \<and>
     (\<forall>r. sess c = Some r \<longrightarrow> sess c' = Some r \<and> fromId c' = fromId c) \<and>
     (\<forall>ch. issued c = Some ch \<longrightarrow> issued c' = Some ch \<and> fromId c' = fromId c)"

definition mgr_shrinks :: "'c SessionManager \<Rightarrow> 'c SessionManager \<Rightarrow> bool" where
  "mgr_shrinks m m' \<longleftrightarrow> sessions m' \<subseteq>\<^sub>m sessions m \<and> quicConns m' \<subseteq>\<^sub>m quicConns m \<and>
     length (store m') = length (store m) \<and> requirePeerAuth m' = requirePeerAuth m \<and>
     (\<forall>r < length (store m). verified (store m ! r) \<longrightarrow> verified (store m' ! r))"

definition table_ok ::
  "(bytes \<Rightarrow> bytes \<Rightarrow> bytes option) \<Rightarrow> 'c SessionManager \<Rightarrow> conn set \<Rightarrow> ('c \<times> conn) set \<Rightarrow> bool" where
  "table_ok X25519 m T Q \<longleftrightarrow>
     (\<forall>i r. sessions m i = Some r \<longrightarrow> r < length (store m) \<and> verified (store m ! r) \<and>
        (\<exists>c \<in> T \<union> snd ` Q. sess c = Some r \<and> fromId c = i)) \<and>
     (\<forall>i q. quicConns m i = Some q \<longrightarrow> (\<exists>c. (q, c) \<in> Q \<and> fromId c = i \<and> proven X25519 c))"

definition conn_ok :: "(bytes \<Rightarrow> bytes \<Rightarrow> bytes option) \<Rightarrow> conn \<Rightarrow> bool" where
  "conn_ok X25519 c \<longleftrightarrow> (sess c \<noteq> None \<longrightarrow> proven X25519 c) \<and>
     (\<forall>ch. pending c = Some ch \<longrightarrow> issued c = Some ch) \<and>
     (phase c = Accepted \<longrightarrow> sess c = None \<and> issued c = None) \<and>
     (phase c = Serving \<and> pending c = None \<longrightarrow> proven X25519 c)"

definition strict_inv :: "(bytes \<Rightarrow> bytes \<Rightarrow> bytes option) \<Rightarrow> 'c world \<Rightarrow> bool" where
  "strict_inv X25519 w \<longleftrightarrow> strict (server w) \<and> requirePeerAuth (mgr (server w)) \<and>
     (\<forall>c \<in> set (tcp w). conn_ok X25519 c) \<and>
     (\<forall>(q, c) \<in> set (quic w). conn_ok X25519 c \<and> (phase c = Serving \<or> phase c = Closing \<longrightarrow> proven X25519 c)) \<and>
     table_ok X25519 (mgr (server w)) (set (tcp w)) (set (quic w))"

subsection \<open>What the operations keep\<close>

lemma proven_ext: "proven X25519 c \<Longrightarrow> conn_grows c c' \<Longrightarrow> proven X25519 c'"
  unfolding proven_def conn_grows_def by (metis le_trans)

lemma conn_grows_refl [simp]: "conn_grows c c"
  by (simp add: conn_grows_def)

lemma conn_grows_trans: "conn_grows a b \<Longrightarrow> conn_grows b c \<Longrightarrow> conn_grows a c"
  by (auto simp: conn_grows_def)

lemma conn_grows_fields [simp]:
  "conn_grows c (c'\<lparr>phase := p\<rparr>) = conn_grows c c'" "conn_grows c (c'\<lparr>pending := v\<rparr>) = conn_grows c c'"
  "conn_grows c (c'\<lparr>out := v'\<rparr>) = conn_grows c c'"
  by (simp_all add: conn_grows_def)

lemma proven_fields [simp]:
  "proven X (c\<lparr>phase := p\<rparr>) = proven X c" "proven X (c\<lparr>pending := v\<rparr>) = proven X c"
  "proven X (c\<lparr>sess := v'\<rparr>) = proven X c"
  by (simp_all add: proven_def)

definition reads :: "conn \<Rightarrow> conn \<Rightarrow> bool" where
  "reads c c' \<longleftrightarrow> (\<exists>p \<ge> pos c. c' = c\<lparr>pos := p\<rparr>)"

lemma readsI: "pos c \<le> p \<Longrightarrow> reads c (c\<lparr>pos := p\<rparr>)"
  by (auto simp: reads_def)

lemma reads_refl [simp]: "reads c c"
  using readsI [of c "pos c"] by simp

lemma reads_trans: "reads a b \<Longrightarrow> reads b c \<Longrightarrow> reads a c"
  by (auto simp: reads_def [of a b] reads_def [of b c] intro!: readsI)

lemma reads_frame:
  "reads c c' \<Longrightarrow> input c' = input c \<and> pos c \<le> pos c' \<and> fromId c' = fromId c \<and> issued c' = issued c \<and>
     pending c' = pending c \<and> sess c' = sess c \<and> out c' = out c \<and> phase c' = phase c"
  by (auto simp: reads_def)

lemma reads_ext: "reads c c' \<Longrightarrow> conn_grows c c'"
  using reads_frame by (simp add: conn_grows_def)

lemma readFull_fields: "readFull c n = (x, c') \<Longrightarrow> reads c c'"
  by (auto simp: readFull_def intro: readsI split: if_splits)

lemma readHeader_fields: "readHeader c = (x, c') \<Longrightarrow> reads c c'"
  by (auto simp: readHeader_def dest: readFull_fields split: prod.splits option.splits sum.splits)

lemma readRegister_fields: "readRegister s c = Some (i, c') \<Longrightarrow> reads c c'"
  unfolding readRegister_def
  by (auto dest!: readFull_fields readHeader_fields intro: reads_trans
      split: prod.splits option.splits if_splits)

lemma mgr_shrinks_refl [simp]: "mgr_shrinks m m"
  by (simp add: mgr_shrinks_def)

lemma mgr_shrinks_Unregister [simp]: "mgr_shrinks m (Unregister m i s)"
  by (auto simp: mgr_shrinks_def Unregister_def map_le_def store_at_ref split: option.split)

lemma mgr_shrinks_MarkVerified [simp]: "mgr_shrinks m (MarkVerified m i s)"
  by (auto simp: mgr_shrinks_def MarkVerified_def store_at_ref split: option.split)

lemma mgr_shrinks_Relay: "Relay sd pick m i f = (e, m') \<Longrightarrow> mgr_shrinks m m'"
  by (auto simp: mgr_shrinks_def Relay_def nth_update_any verified_enqueue
      split: option.splits if_splits prod.splits)

lemma mgr_shrinks_relay_frame [simp]: "mgr_shrinks (mgr s) (mgr (relay_frame sd pick now s from h f))"
  by (auto simp: relay_frame_def Let_def dest: mgr_shrinks_Relay split: prod.split option.split)

lemma mgr_shrinks_datagram [simp]: "mgr_shrinks (mgr s) (mgr (quic_datagram sd pick now s from data))"
  using mgr_shrinks_relay_frame [of "s\<lparr>failLog := quicFailLog s\<rparr>"]
  by (auto simp: quic_datagram_def Let_def split: sum.split)

lemma mgr_shrinks_writer:
  assumes "r < length (store m)"
    and "writeLoop_frame (store m ! r) de we = Some x \<or> writeLoop_done (store m ! r) = Some x"
  shows "mgr_shrinks m (at_ref (\<lambda>_. x) r m)"
proof -
  have "verified x = verified (store m ! r)"
    using assms(2)
    by (auto simp: writeLoop_frame_def writeLoop_done_def writeFrame_def
        split: option.splits bool.splits list.splits if_splits)
  then show ?thesis by (auto simp: mgr_shrinks_def store_at_ref)
qed

lemma strict_relay_frame [simp]: "strict (relay_frame sd pick now s from h f) = strict s"
  by (auto simp: relay_frame_def Let_def split: prod.split option.split)

lemma strict_datagram [simp]: "strict (quic_datagram sd pick now s from data) = strict s"
  by (auto simp: quic_datagram_def Let_def split: sum.split)

lemma table_ok_shrink:
  assumes "table_ok X m T Q" and "mgr_shrinks m m'"
    and "\<And>c. c \<in> T \<Longrightarrow> \<exists>c' \<in> T'. conn_grows c c'"
    and "\<And>q c. (q, c) \<in> Q \<Longrightarrow> \<exists>c'. (q, c') \<in> Q' \<and> conn_grows c c'"
  shows "table_ok X m' T' Q'"
  unfolding table_ok_def
proof (intro conjI allI impI)
  fix i r assume "sessions m' i = Some r"
  then have "sessions m i = Some r"
    using assms(2) by (simp add: mgr_shrinks_def map_le_def domI) (metis domI)
  then obtain c where c: "r < length (store m)" "verified (store m ! r)" "c \<in> T \<union> snd ` Q"
    "sess c = Some r" "fromId c = i"
    using assms(1) by (auto simp: table_ok_def) blast
  then show "r < length (store m')" "verified (store m' ! r)"
    using assms(2) by (auto simp: mgr_shrinks_def)
  from c(3) obtain c' where "c' \<in> T' \<union> snd ` Q'" "conn_grows c c'"
    using assms(3,4) by force
  then show "\<exists>c \<in> T' \<union> snd ` Q'. sess c = Some r \<and> fromId c = i"
    using c(4,5) by (auto simp: conn_grows_def)
next
  fix i q assume "quicConns m' i = Some q"
  then have "quicConns m i = Some q"
    using assms(2) by (simp add: mgr_shrinks_def map_le_def domI) (metis domI)
  then obtain c where c: "(q, c) \<in> Q" "fromId c = i" "proven X c"
    using assms(1) unfolding table_ok_def by blast
  then obtain c' where "(q, c') \<in> Q'" "conn_grows c c'" using assms(4) by blast
  moreover have "fromId c' = fromId c"
    using c(3) \<open>conn_grows c c'\<close> by (auto simp: proven_def conn_grows_def)
  ultimately show "\<exists>c. (q, c) \<in> Q' \<and> fromId c = i \<and> proven X c"
    using c proven_ext by blast
qed

text \<open>What a successful authentication leaves: the answer read lies in the connection's input.\<close>

lemma readFull_proven:
  assumes "readFull c n = (Some p, c')" and "issued c = Some ch"
    and "verifyResponse X ch (ucast (fromId c)) p = Inr u"
  shows "proven X c'"
proof -
  have "length p = 64" using assms(3) verifyResponse_Inr [of X ch "ucast (fromId c)" p] by simp
  then have "n = 64" "c' = c\<lparr>pos := pos c + 64\<rparr>" "p = take 64 (drop (pos c) (input c))"
    using assms(1) by (auto simp: readFull_def min_def split: if_splits)
  then show ?thesis
    using assms(2,3) by (auto simp: proven_def intro!: exI [of _ "pos c"])
qed

text \<open>The outcome of a handler step in strict mode.\<close>

definition takes_slot ::
  "(bytes \<Rightarrow> bytes \<Rightarrow> bytes option) \<Rightarrow> 'c option \<Rightarrow> 'c Server \<Rightarrow> 'c Server \<Rightarrow> conn \<Rightarrow> nat \<Rightarrow> bool" where
  "takes_slot X q s s' c' r \<longleftrightarrow>
     sess c' = Some r \<and> r = length (store (mgr s)) \<and> proven X c' \<and>
     length (store (mgr s')) = Suc r \<and> verified (store (mgr s') ! r) \<and>
     requirePeerAuth (mgr s') = requirePeerAuth (mgr s) \<and>
     (\<forall>x < r. verified (store (mgr s') ! x) = verified (store (mgr s) ! x)) \<and>
     sessions (mgr s') = (sessions (mgr s))(fromId c' \<mapsto> r) \<and>
     quicConns (mgr s') = (case q of None \<Rightarrow> quicConns (mgr s)
                           | Some qc \<Rightarrow> (quicConns (mgr s))(fromId c' \<mapsto> qc))"

definition step_ok ::
  "(bytes \<Rightarrow> bytes \<Rightarrow> bytes option) \<Rightarrow> 'c option \<Rightarrow> 'c Server \<Rightarrow> conn \<Rightarrow> 'c Server \<Rightarrow> conn \<Rightarrow> bool" where
  "step_ok X q s c s' c' \<longleftrightarrow> strict s' \<and> conn_ok X c' \<and> conn_grows c c' \<and>
     (mgr_shrinks (mgr s) (mgr s') \<or> (\<exists>r. takes_slot X q s s' c' r))"

lemma step_ok_shrink:
  "strict s' \<Longrightarrow> conn_ok X c' \<Longrightarrow> conn_grows c c' \<Longrightarrow> mgr_shrinks (mgr s) (mgr s') \<Longrightarrow> step_ok X q s c s' c'"
  by (simp add: step_ok_def)

lemma conn_ok_Closed: "conn_ok X c \<Longrightarrow> conn_ok X (c\<lparr>phase := Closed\<rparr>)"
  by (simp add: conn_ok_def)

lemma conn_ok_reads: "conn_ok X c \<Longrightarrow> reads c c' \<Longrightarrow> conn_ok X c'"
  using reads_frame [of c c'] proven_ext [OF _ reads_ext, of X c c'] by (auto simp: conn_ok_def)

lemma step_ok_tcp_return:
  "strict s \<Longrightarrow> conn_ok X c' \<Longrightarrow> conn_grows c c' \<Longrightarrow> tcp_return s c' = (s2, c2) \<Longrightarrow> step_ok X q s c s2 c2"
  by (auto simp: tcp_return_def intro!: step_ok_shrink conn_ok_Closed)

lemma step_ok_quic_abort:
  "strict s \<Longrightarrow> conn_ok X c' \<Longrightarrow> conn_grows c c' \<Longrightarrow> quic_abort s c' = (s2, c2) \<Longrightarrow> step_ok X q s c s2 c2"
  by (auto simp: quic_abort_def intro!: step_ok_shrink conn_ok_Closed)

lemma step_ok_tcp_register:
  assumes "strict s" "proven X c'" "conn_grows c c'" "sess c = None" "phase c' = Serving"
    "tcp_register True s (c'\<lparr>pending := None\<rparr>) = (s2, c2)"
  shows "step_ok X None s c s2 c2"
  using assms
  by (auto simp: step_ok_def takes_slot_def tcp_register_def alloc_def Register_def conn_ok_def conn_grows_def
      verified_store_shutdown nth_append)

lemma step_ok_tcp_open:
  assumes "strict s" "conn_ok X c" "phase c = Accepted" "tcp_open X base rnd ok s c = (s2, c2)"
  shows "step_ok X None s c s2 c2"
proof -
  have fresh: "sess c = None" "issued c = None" "pending c = None"
    using assms(2,3) by (auto simp: conn_ok_def)
  show ?thesis
  proof (cases "readRegister s c")
    case None
    then show ?thesis using assms step_ok_tcp_return [OF assms(1,2)] by (simp add: tcp_open_def)
  next
    case (Some p)
    then obtain i c1 where r: "readRegister s c = Some (i, c1)" by force
    note f = reads_frame [OF readRegister_fields [OF r]]
    obtain stop c3 where ch: "issueChallenge X base s rnd ok (c1\<lparr>fromId := i\<rparr>) = (stop, c3)" by force
    then have c3: "sess c3 = None" "stop = (pending c3 = None)" "pending c3 = issued c3" "conn_grows c c3"
      using f fresh assms(1)
      by (auto simp: issueChallenge_def conn_grows_def split: sum.splits if_splits)
    then have "conn_ok X (c3\<lparr>phase := Closed\<rparr>)" "\<not> stop \<Longrightarrow> conn_ok X (c3\<lparr>phase := Serving\<rparr>)"
      by (auto simp: conn_ok_def)
    then show ?thesis
      using assms(1,4) r ch c3
      by (auto simp: tcp_open_def tcp_return_def intro!: step_ok_shrink split: bool.splits)
  qed
qed

lemma step_ok_tcp_iter:
  assumes "strict s" "conn_ok X c" "phase c = Serving" "tcp_iter X sd pick now s c = (s2, c2)"
  shows "step_ok X None s c s2 c2"
proof -
  obtain x c1 where r: "readHeader c = (x, c1)" by force
  have rd: "reads c c1" using readHeader_fields [OF r] .
  note f = reads_frame [OF rd] and ok1 = conn_ok_reads [OF assms(2) rd] and ext1 = reads_ext [OF rd]
  note ret = step_ok_tcp_return [OF assms(1)]
  show ?thesis
  proof (cases x)
    case None
    then show ?thesis using assms(4) r ret [OF ok1 ext1] by (simp add: tcp_iter_def)
  next
    case (Some y)
    obtain hb h where y: "y = (hb, h)" by force
    show ?thesis
    proof (cases "pending c1")
      case None
      obtain z c4 where z: "readFull c1 (payload_len h) = (z, c4)" by force
      note rd4 = reads_trans [OF rd readFull_fields [OF z]]
      have "step_ok X None s c s c4" "step_ok X None s c s c1"
        "step_ok X None s c (relay_frame sd pick now s (fromId c1) h (hb @ p)) c4" for p
        using assms(1) conn_ok_reads [OF assms(2) rd4] reads_ext [OF rd4] ok1 ext1
        by (simp_all add: step_ok_shrink)
      then show ?thesis
        using None assms(4) r Some y z ret [OF ok1 ext1]
        by (auto simp: tcp_iter_def tcp_switch_def split: if_splits option.splits)
    next
      case pend: (Some ch)
      obtain z c4 where z: "readFull c1 (payload_len h) = (z, c4)" by force
      note rd4 = reads_trans [OF rd readFull_fields [OF z]]
      note f4 = reads_frame [OF rd4] and ok4 = conn_ok_reads [OF assms(2) rd4] and ext4 = reads_ext [OF rd4]
      have iss: "issued c1 = Some ch" using ok1 pend by (simp add: conn_ok_def)
      have "step_ok X None s c s2 c2" if "z = Some p" "verifyResponse X ch (ucast (fromId c1)) p = Inr u"
        "tcp_auth_response X s c1 ch h = (s2, c2)" "\<not> payload_len h > AuthResponsePayload" for p u
      proof -
        have pr: "proven X c4" using readFull_proven [OF z [unfolded that(1)] iss that(2)] .
        show ?thesis
        proof (cases "sess c4")
          case None
          then show ?thesis
            using step_ok_tcp_register [OF assms(1) pr ext4, of s2 c2] that z f4 assms(3)
            by (simp add: tcp_auth_response_def)
        next
          case (Some r)
          then have "s2 = s\<lparr>mgr := MarkVerified (mgr s) (fromId c4) (Some r)\<rparr>" "c2 = c4\<lparr>pending := None\<rparr>"
            using that z by (auto simp: tcp_auth_response_def)
          then show ?thesis
            using assms(1) pr ext4 ok4 f4 assms(3) by (auto simp: conn_ok_def intro!: step_ok_shrink)
        qed
      qed
      then show ?thesis
        using pend assms(1,4) r Some y z ret [OF ok1 ext1] ret [OF ok4 ext4]
        by (auto simp: tcp_iter_def tcp_auth_response_def split: if_splits option.splits sum.splits)
    qed
  qed
qed

lemma readAuthResponse_proven:
  assumes "readAuthResponse X c = (b, c')" "\<forall>ch. pending c = Some ch \<longrightarrow> issued c = Some ch"
  shows "reads c c' \<and> (b \<longrightarrow> proven X c')"
proof (cases "pending c")
  case None
  then show ?thesis using assms(1) by (simp add: readAuthResponse_def)
next
  case (Some ch)
  obtain x c1 where r: "readHeader c = (x, c1)" by force
  note rd = readHeader_fields [OF r]
  show ?thesis
  proof (cases x)
    case None
    then show ?thesis using Some assms(1) r rd by (simp add: readAuthResponse_def)
  next
    case x: (Some y)
    obtain hb h where y: "y = (hb, h)" by force
    obtain z c4 where z: "readFull c1 (payload_len h) = (z, c4)" by force
    have "proven X c4" if "z = Some p" "verifyResponse X ch (ucast (fromId c)) p = Inr u" for p u
      using readFull_proven [of c1 "payload_len h" p c4 ch X u] z that reads_frame [OF rd] assms(2) Some
      by simp
    then show ?thesis
      using Some assms(1) r rd z x y reads_trans [OF rd readFull_fields [OF z]]
      by (auto simp: readAuthResponse_def split: option.splits if_splits sum.splits)
  qed
qed

lemma step_ok_quic_verified:
  assumes "strict s" "proven X c'" "conn_grows c c'" "sess c = None"
    "RegisterQUICVerified (mgr s) (fromId c') qc = (r, m)"
  shows "step_ok X (Some qc) s c (s\<lparr>mgr := m\<rparr>) (c'\<lparr>sess := Some r, pending := None, phase := Serving\<rparr>)"
  using assms
  by (auto simp: step_ok_def takes_slot_def RegisterQUICVerified_def RegisterQUIC_def MarkVerified_def alloc_def Let_def
      conn_ok_def conn_grows_def verified_store_shutdown store_at_ref nth_append)

lemma step_ok_quic_open:
  assumes "strict s" "conn_ok X c" "phase c = Accepted" "quic_open X base rnd ok qc s c = (s2, c2)"
  shows "step_ok X (Some qc) s c s2 c2 \<and> (phase c2 = Serving \<or> phase c2 = Closing \<longrightarrow> proven X c2)"
proof -
  have fresh: "sess c = None" "issued c = None" "pending c = None"
    using assms(2,3) by (auto simp: conn_ok_def)
  note abort = step_ok_quic_abort [OF assms(1), where q = "Some qc" and c = c]
  show ?thesis
  proof (cases "readRegister s c")
    case None
    then show ?thesis
      using assms(4) abort [OF assms(2)] by (auto simp: quic_open_def quic_abort_def)
  next
    case (Some p)
    then obtain i c1 where r: "readRegister s c = Some (i, c1)" by force
    note f = reads_frame [OF readRegister_fields [OF r]]
    obtain stop c3 where ch: "issueChallenge X base s rnd ok (c1\<lparr>fromId := i\<rparr>) = (stop, c3)" by force
    then have c3: "sess c3 = None" "stop = (pending c3 = None)" "pending c3 = issued c3" "conn_grows c c3"
      "phase c3 = Accepted" "fromId c3 = i"
      using f fresh assms(1,3)
      by (auto simp: issueChallenge_def conn_grows_def split: sum.splits if_splits)
    obtain b c4 where ra: "readAuthResponse X c3 = (b, c4)" by force
    have pr: "reads c3 c4" "b \<longrightarrow> proven X c4" using readAuthResponse_proven [OF ra] c3(3) by auto
    note f4 = reads_frame [OF pr(1)]
    have ok: "step_ok X (Some qc) s c s3 c5"
      if "quic_abort s c' = (s3, c5)" "conn_grows c c'" "sess c' = None" "pending c' = issued c'" for c' s3 c5
      using that assms(1) by (auto simp: quic_abort_def conn_ok_def intro!: step_ok_shrink)
    obtain r m where rq: "RegisterQUICVerified (mgr s) i qc = (r, m)" by force
    have ext4: "conn_grows c c4" using conn_grows_trans [OF c3(4) reads_ext [OF pr(1)]] .
    show ?thesis
    proof (cases "stop \<or> \<not> b")
      case True
      then show ?thesis
        using assms(1,4) r ch ra c3 f4 ok [of c3 s2 c2] ok [of c4 s2 c2] ext4
        by (auto simp: quic_open_def quic_abort_def split: bool.splits)
    next
      case False
      then have "(s2, c2) = (s\<lparr>mgr := m\<rparr>, c4\<lparr>sess := Some r, pending := None, phase := Serving\<rparr>)"
        using assms(1,4) r ch ra rq by (simp add: quic_open_def)
      then show ?thesis
        using step_ok_quic_verified [OF assms(1) _ ext4 fresh(1)] False pr rq f4 c3(6) by simp
    qed
  qed
qed

lemma step_ok_quic_control:
  assumes "strict s" "conn_ok X c" "phase c = Serving" "proven X c" "quic_control X s c = (s2, c2)"
  shows "step_ok X (Some qc) s c s2 c2 \<and> (phase c2 = Serving \<or> phase c2 = Closing \<longrightarrow> proven X c2)"
proof -
  obtain x c1 where r: "readHeader c = (x, c1)" by force
  note rd = readHeader_fields [OF r]
  have ok: "strict s2" "mgr_shrinks (mgr s) (mgr s2)" "\<exists>c'. reads c c' \<and>
      (c2 = c' \<or> c2 = c'\<lparr>phase := Closing\<rparr> \<or> c2 = c'\<lparr>pending := None\<rparr>)"
    using assms(1,5) r rd reads_trans [OF rd readFull_fields]
    by (auto simp: quic_control_def quic_return_def
        split: option.splits prod.splits if_splits sum.splits)
  then obtain c' where c': "reads c c'" "c2 = c' \<or> c2 = c'\<lparr>phase := Closing\<rparr> \<or> c2 = c'\<lparr>pending := None\<rparr>"
    by blast
  have "conn_grows c c2" "proven X c2" "conn_ok X c2"
    using c' reads_ext [OF c'(1)] proven_ext [OF assms(4) reads_ext [OF c'(1)]]
      conn_ok_reads [OF assms(2) c'(1)] by (auto simp: conn_ok_def)
  then show ?thesis using ok(1,2) step_ok_shrink by blast
qed

subsection \<open>Strict mode as an invariant of the interleaved relay\<close>

lemma table_okD:
  assumes "table_ok X m T Q"
  shows "sessions m i = Some r \<Longrightarrow> r < length (store m)"
    "sessions m i = Some r \<Longrightarrow> verified (store m ! r)"
    "sessions m i = Some r \<Longrightarrow> \<exists>c \<in> T \<union> snd ` Q. sess c = Some r \<and> fromId c = i"
    "quicConns m i = Some q \<Longrightarrow> \<exists>c. (q, c) \<in> Q \<and> fromId c = i \<and> proven X c"
  using assms unfolding table_ok_def by blast+

lemma table_ok_step:
  assumes ok: "table_ok X (mgr s) T Q" and step: "step_ok X q s c s' c'"
    and T: "\<And>c. c \<in> T \<Longrightarrow> \<exists>c' \<in> T'. conn_grows c c'"
    and Q: "\<And>q c. (q, c) \<in> Q \<Longrightarrow> \<exists>c'. (q, c') \<in> Q' \<and> conn_grows c c'"
    and new: "c' \<in> T' \<union> snd ` Q'" "\<And>qc. q = Some qc \<Longrightarrow> (qc, c') \<in> Q'"
  shows "table_ok X (mgr s') T' Q'"
proof (cases "mgr_shrinks (mgr s) (mgr s')")
  case True
  then show ?thesis using table_ok_shrink [OF ok _ T Q] by blast
next
  case False
  have mid: "table_ok X (mgr s) T' Q'" using table_ok_shrink [OF ok mgr_shrinks_refl T Q] by blast
  with False step obtain r where "takes_slot X q s s' c' r" by (auto simp: step_ok_def)
  then have r: "sess c' = Some r" "r = length (store (mgr s))" "proven X c'"
      "length (store (mgr s')) = Suc r" "verified (store (mgr s') ! r)"
      "\<forall>x < r. verified (store (mgr s') ! x) = verified (store (mgr s) ! x)"
      "sessions (mgr s') = (sessions (mgr s))(fromId c' \<mapsto> r)"
      "quicConns (mgr s') = (case q of None \<Rightarrow> quicConns (mgr s) | Some qc \<Rightarrow> (quicConns (mgr s))(fromId c' \<mapsto> qc))"
    by - (drule takes_slot_def [THEN iffD1], (elim conjE)?, assumption)+
  show ?thesis
    unfolding table_ok_def
  proof (intro conjI allI impI)
    fix i x assume "sessions (mgr s') i = Some x"
    then have "i = fromId c' \<and> x = r \<or> sessions (mgr s) i = Some x"
      unfolding r(7) by (cases "i = fromId c'") simp_all
    then consider "i = fromId c'" "x = r" | "sessions (mgr s) i = Some x" by blast
    then have "x < length (store (mgr s')) \<and> verified (store (mgr s') ! x) \<and>
      (\<exists>c \<in> T' \<union> snd ` Q'. sess c = Some x \<and> fromId c = i)"
    proof cases
      case 1
      then show ?thesis unfolding r(4) using r(1,5) new(1) by blast
    next
      case 2
      then have "x < r" "verified (store (mgr s) ! x)" "\<exists>c \<in> T' \<union> snd ` Q'. sess c = Some x \<and> fromId c = i"
        unfolding r(2) using table_okD(1-3) [OF mid] by blast+
      then show ?thesis unfolding r(4) using r(6) by (simp add: less_SucI)
    qed
    then show "x < length (store (mgr s'))" "verified (store (mgr s') ! x)"
      "\<exists>c \<in> T' \<union> snd ` Q'. sess c = Some x \<and> fromId c = i" by blast+
  next
    fix i qc assume "quicConns (mgr s') i = Some qc"
    then have "i = fromId c' \<and> q = Some qc \<or> quicConns (mgr s) i = Some qc"
      unfolding r(8) by (cases q; cases "i = fromId c'") simp_all
    then consider "i = fromId c'" "q = Some qc" | "quicConns (mgr s) i = Some qc" by blast
    then show "\<exists>c. (qc, c) \<in> Q' \<and> fromId c = i \<and> proven X c"
      by cases (use r(3) new(2) in blast, use table_okD(4) [OF mid] in blast)
  qed
qed

lemma ext_list_update:
  assumes "i < length xs" "conn_grows (xs ! i) c'" "c \<in> set xs"
  shows "\<exists>c1 \<in> set (xs[i := c']). conn_grows c c1"
proof -
  obtain j where j: "j < length xs" "c = xs ! j" using assms(3) by (auto simp: in_set_conv_nth)
  then have "conn_grows c (xs[i := c'] ! j)" using assms(2) by (auto simp: nth_update_any)
  then show ?thesis using j(1) nth_mem [of j "xs[i := c']"] by auto
qed

lemma ext_list_update_pair:
  assumes "i < length xs" "xs ! i = (qc, c0)" "conn_grows c0 c'" "(q, c) \<in> set xs"
  shows "\<exists>c1. (q, c1) \<in> set (xs[i := (qc, c')]) \<and> conn_grows c c1"
proof -
  obtain j where j: "j < length xs" "xs ! j = (q, c)" using assms(4) by (auto simp: in_set_conv_nth)
  then have "fst (xs[i := (qc, c')] ! j) = q \<and> conn_grows c (snd (xs[i := (qc, c')] ! j))"
    using assms(2,3) by (auto simp: nth_update_any)
  then show ?thesis using j(1) nth_mem [of j "xs[i := (qc, c')]"] by (metis length_list_update prod.collapse)
qed

lemma step_okD:
  assumes "step_ok X q s c s' c'"
  shows "strict s'" "conn_ok X c'" "conn_grows c c'" "requirePeerAuth (mgr s') = requirePeerAuth (mgr s)"
  using assms by (auto simp: step_ok_def takes_slot_def mgr_shrinks_def)

lemma strict_invD:
  assumes "strict_inv X w"
  shows "strict (server w)" "i < length (tcp w) \<Longrightarrow> conn_ok X (tcp w ! i)"
    "i < length (quic w) \<Longrightarrow> quic w ! i = (qc, c) \<Longrightarrow> conn_ok X c"
    "(qc, c) \<in> set (quic w) \<Longrightarrow> phase c = Serving \<or> phase c = Closing \<Longrightarrow> proven X c"
  using assms nth_mem [of i "quic w"] by (auto simp: strict_inv_def)

lemma strict_invD':
  assumes "strict_inv X w"
  shows "requirePeerAuth (mgr (server w))" "\<forall>c \<in> set (tcp w). conn_ok X c"
    "\<forall>(q, c) \<in> set (quic w). conn_ok X c \<and> (phase c = Serving \<or> phase c = Closing \<longrightarrow> proven X c)"
    "table_ok X (mgr (server w)) (set (tcp w)) (set (quic w))"
  using assms by (simp_all add: strict_inv_def)

lemma strict_inv_tcp:
  assumes inv: "strict_inv X w" and i: "i < length (tcp w)"
    and step: "step_ok X None (server w) (tcp w ! i) s' c'"
  shows "strict_inv X (w\<lparr>server := s', tcp := (tcp w)[i := c']\<rparr>)"
proof -
  have mem: "c' \<in> set ((tcp w)[i := c'])" using i by (rule set_update_memI)
  have "table_ok X (mgr s') (set ((tcp w)[i := c'])) (set (quic w))"
    by (rule table_ok_step [OF strict_invD'(4) [OF inv] step])
      (use ext_list_update [OF i step_okD(3) [OF step]] mem conn_grows_refl in blast)+
  moreover have "\<forall>c \<in> set ((tcp w)[i := c']). conn_ok X c"
    using set_update_subset_insert [of "tcp w" i c'] step_okD(2) [OF step] strict_invD'(2) [OF inv] by blast
  ultimately show ?thesis
    using strict_invD' [OF inv] step_okD [OF step] by (simp add: strict_inv_def)
qed

lemma strict_inv_quic:
  assumes inv: "strict_inv X w" and i: "i < length (quic w)" "quic w ! i = (qc, c)"
    and step: "step_ok X (Some qc) (server w) c s' c'"
    and pr: "phase c' = Serving \<or> phase c' = Closing \<longrightarrow> proven X c'"
  shows "strict_inv X (w\<lparr>server := s', quic := (quic w)[i := (qc, c')]\<rparr>)"
proof -
  have mem: "(qc, c') \<in> set ((quic w)[i := (qc, c')])" using i(1) by (rule set_update_memI)
  have "table_ok X (mgr s') (set (tcp w)) (set ((quic w)[i := (qc, c')]))"
  proof (rule table_ok_step [OF strict_invD'(4) [OF inv] step])
    show "c' \<in> set (tcp w) \<union> snd ` set ((quic w)[i := (qc, c')])" using mem by force
  qed (use ext_list_update_pair [OF i step_okD(3) [OF step]] mem conn_grows_refl in blast)+
  moreover have "\<forall>(q, c) \<in> set ((quic w)[i := (qc, c')]).
      conn_ok X c \<and> (phase c = Serving \<or> phase c = Closing \<longrightarrow> proven X c)"
    using set_update_subset_insert [of "quic w" i "(qc, c')"] step_okD(2) [OF step] pr
      strict_invD'(3) [OF inv] by blast
  ultimately show ?thesis
    using strict_invD' [OF inv] step_okD [OF step] by (simp add: strict_inv_def)
qed

lemma strict_inv_server:
  assumes inv: "strict_inv X w" and "strict s'" "mgr_shrinks (mgr (server w)) (mgr s')"
  shows "strict_inv X (w\<lparr>server := s'\<rparr>)"
proof -
  have "table_ok X (mgr s') (set (tcp w)) (set (quic w))"
    by (rule table_ok_shrink [OF strict_invD'(4) [OF inv] assms(3)]) (blast intro: conn_grows_refl)+
  then show ?thesis
    using strict_invD' [OF inv] assms(2,3) by (simp add: strict_inv_def mgr_shrinks_def)
qed

lemma strict_inv_accept:
  assumes inv: "strict_inv X w"
  shows "strict_inv X (w\<lparr>tcp := tcp w @ [new_conn inp]\<rparr>)"
    "strict_inv X (w\<lparr>quic := quic w @ [(qc, new_conn inp)]\<rparr>)"
proof -
  have "table_ok X (mgr (server w)) (set (tcp w @ [new_conn inp])) (set (quic w))"
    "table_ok X (mgr (server w)) (set (tcp w)) (set (quic w @ [(qc, new_conn inp)]))"
    by (rule table_ok_shrink [OF strict_invD'(4) [OF inv] mgr_shrinks_refl];
        force intro: conn_grows_refl)+
  moreover have "conn_ok X (new_conn inp)" "phase (new_conn inp) = Accepted"
    by (simp_all add: conn_ok_def new_conn_def)
  ultimately show "strict_inv X (w\<lparr>tcp := tcp w @ [new_conn inp]\<rparr>)"
    "strict_inv X (w\<lparr>quic := quic w @ [(qc, new_conn inp)]\<rparr>)"
    using strict_invD' [OF inv] strict_invD(1) [OF inv] by (simp_all add: strict_inv_def)
qed

lemma strict_inv_step:
  assumes inv: "strict_inv X w" and "relay_step X base sd w w'"
  shows "strict_inv X w'"
  using assms(2)
proof cases
  case (open_tcp i rnd ok s' c')
  show ?thesis
    unfolding open_tcp(1)
    by (rule strict_inv_tcp [OF inv open_tcp(2) step_ok_tcp_open])
      (use strict_invD [OF inv] open_tcp in auto)
next
  case (iter_tcp i pick now s' c')
  show ?thesis
    unfolding iter_tcp(1)
    by (rule strict_inv_tcp [OF inv iter_tcp(2) step_ok_tcp_iter])
      (use strict_invD [OF inv] iter_tcp in auto)
next
  case (open_quic i qc c rnd ok s' c')
  have "step_ok X (Some qc) (server w) c s' c' \<and> (phase c' = Serving \<or> phase c' = Closing \<longrightarrow> proven X c')"
    by (rule step_ok_quic_open) (use strict_invD [OF inv] open_quic in auto)
  then show ?thesis unfolding open_quic(1) using strict_inv_quic [OF inv open_quic(2,3)] by blast
next
  case (control_quic i qc c s' c')
  have "(qc, c) \<in> set (quic w)" using control_quic(2,3) by (metis nth_mem)
  then have "proven X c" using strict_invD(4) [OF inv] control_quic(4) by blast
  then have "step_ok X (Some qc) (server w) c s' c' \<and> (phase c' = Serving \<or> phase c' = Closing \<longrightarrow> proven X c')"
    by (intro step_ok_quic_control) (use strict_invD [OF inv] control_quic in auto)
  then show ?thesis unfolding control_quic(1) using strict_inv_quic [OF inv control_quic(2,3)] by blast
next
  case (close_quic i qc c)
  then have "conn_ok X c" using strict_invD(3) [OF inv] by blast
  then have "step_ok X (Some qc) (server w) c (server w) (c\<lparr>phase := Closed\<rparr>)"
    using strict_invD(1) [OF inv] conn_ok_Closed by (auto intro!: step_ok_shrink)
  from strict_inv_quic [OF inv close_quic(2,3) this] show ?thesis using close_quic by simp
next
  case (datagram_quic qc c pick now data)
  then show ?thesis using strict_inv_server [OF inv] strict_invD(1) [OF inv] by simp
next
  case (writer_frame r de we x)
  then show ?thesis
    using strict_inv_server [OF inv] strict_invD(1) [OF inv] mgr_shrinks_writer [of r "mgr (server w)" de we x] by simp
next
  case (writer_done r x)
  then show ?thesis
    using strict_inv_server [OF inv] strict_invD(1) [OF inv] mgr_shrinks_writer [of r "mgr (server w)" None None x] by simp
qed (use inv strict_inv_accept in auto)

definition relay_init :: "'c world \<Rightarrow> bool" where
  "relay_init w \<longleftrightarrow> (\<exists>token. w = \<lparr>server = NewServer token True, tcp = [], quic = []\<rparr>)"

lemma strict_inv_init: "relay_init w \<Longrightarrow> strict_inv X w"
  by (auto simp: relay_init_def strict_inv_def NewServer_def SetRequirePeerAuth_def NewSessionManager_def table_ok_def)

interpretation strict_relay: inductive_invariant relay_init "relay_step X25519 base sendDatagram"
  "strict_inv X25519" for X25519 base sendDatagram
  by unfold_locales (erule strict_inv_init, erule (1) strict_inv_step)

text \<open>No frame reaches a queue or a QUIC connection.\<close>

definition silent :: "'c SessionManager \<Rightarrow> 'c SessionManager \<Rightarrow> bool" where
  "silent m m' \<longleftrightarrow> datagrams m' = datagrams m \<and> length (store m) \<le> length (store m') \<and>
     (\<forall>r < length (store m). sendCh (store m' ! r) = sendCh (store m ! r))"

lemma silent_ops [simp]:
  "silent m m" "silent m (Unregister m i x)" "silent m (MarkVerified m i x)"
  "silent m (Register (m\<lparr>store := store m @ [n]\<rparr>) i r)"
  by (auto simp: silent_def Unregister_def MarkVerified_def Register_def store_at_ref sendCh_store_shutdown
      nth_append split: option.split)

lemma tcp_iter_silent:
  assumes "strict s" "pending c = Some ch"
  shows "silent (mgr s) (mgr (fst (tcp_iter X sd pick now s c)))"
proof -
  obtain x c1 where r: "readHeader c = (x, c1)" by force
  note f = reads_frame [OF readHeader_fields [OF r]]
  show ?thesis
    using assms r f
    by (auto simp: tcp_iter_def tcp_return_def tcp_auth_response_def tcp_register_def alloc_def
        split: option.split prod.split sum.split)
qed

subsection \<open>Termination of a handler\<close>

lemma readHeader_Some: "readHeader c = (Some y, c') \<Longrightarrow> c' = c\<lparr>pos := pos c + 12\<rparr> \<and> pos c + 12 \<le> length (input c)"
  by (auto simp: readHeader_def readFull_def HeaderSize_def split: if_splits sum.splits)

lemma tcp_iter_progress:
  assumes "tcp_iter X sd pick now s c = (s', c')" "phase c = Serving"
  shows "input c' = input c \<and> pos c \<le> pos c' \<and> (phase c' = Closed \<or> phase c' = Serving \<and> pos c < pos c' \<and> pos c < length (input c))"
proof -
  obtain x c1 where r: "readHeader c = (x, c1)" by force
  show ?thesis
  proof (cases x)
    case None
    then show ?thesis using assms r reads_frame [OF readHeader_fields [OF r]] by (auto simp: tcp_iter_def tcp_return_def)
  next
    case (Some y)
    obtain hb h where y: "y = (hb, h)" by force
    obtain z c4 where z: "readFull c1 (payload_len h) = (z, c4)" by force
    obtain z' c5 where z': "readFull (c1\<lparr>pending := None\<rparr>) (payload_len h) = (z', c5)" by force
    have "input c1 = input c" "phase c1 = Serving" "pos c < pos c1" "pos c < length (input c)"
      using readHeader_Some [of c y c1] r Some assms(2) by auto
    moreover have "input c4 = input c1" "phase c4 = phase c1" "pos c1 \<le> pos c4"
      "input c5 = input c1" "phase c5 = phase c1" "pos c1 \<le> pos c5"
      using reads_frame [OF readFull_fields [OF z]] reads_frame [OF readFull_fields [OF z']] by auto
    ultimately show ?thesis
      using assms(1) r Some y z z'
      by (auto simp: tcp_iter_def tcp_return_def tcp_auth_response_def tcp_register_def tcp_switch_def Let_def alloc_def
          split: option.splits sum.splits if_splits)
  qed
qed

text \<open>
  The handler of one connection, its read loop run to the end. Every iteration that does not
  return consumes a header, so the loop ends with the input.
\<close>

function tcp_serve ::
  "(bytes \<Rightarrow> bytes \<Rightarrow> bytes option) \<Rightarrow> ('c \<Rightarrow> bytes \<Rightarrow> bool) \<Rightarrow> bool \<Rightarrow> time \<Rightarrow> 'c Server \<Rightarrow> conn \<Rightarrow>
   'c Server \<times> conn" where
  "tcp_serve X25519 sendDatagram pick now s c =
     (if phase c \<noteq> Serving then (s, c)
      else (case tcp_iter X25519 sendDatagram pick now s c of
              (s', c') \<Rightarrow> tcp_serve X25519 sendDatagram pick now s' c'))"
  by pat_completeness auto
termination
proof (relation "measure (\<lambda>(_, _, _, _, _, c). (if phase c = Serving then 1 else 0) + (length (input c) - pos c))",
    goal_cases)
  case (2 X sd pick now s c s' c')
  have it: "tcp_iter X sd pick now s c = (s', c')" using 2(2) by simp
  show ?case using 2(1) tcp_iter_progress [OF it] by auto
qed simp

definition handleBoltSession ::
  "(bytes \<Rightarrow> bytes \<Rightarrow> bytes option) \<Rightarrow> bytes \<Rightarrow> bytes option \<Rightarrow> bool \<Rightarrow> ('c \<Rightarrow> bytes \<Rightarrow> bool) \<Rightarrow> bool \<Rightarrow> time \<Rightarrow>
   'c Server \<Rightarrow> bytes \<Rightarrow> 'c Server \<times> conn" where
  "handleBoltSession X25519 base rnd sent_ok sendDatagram pick now s inp =
     (case tcp_open X25519 base rnd sent_ok s (new_conn inp) of
        (s', c) \<Rightarrow> tcp_serve X25519 sendDatagram pick now s' c)"

lemma tcp_serve_Closed:
  "phase c = Serving \<or> phase c = Closed \<Longrightarrow> phase (snd (tcp_serve X sd pick now s c)) = Closed"
proof (induction X sd pick now s c rule: tcp_serve.induct)
  case (1 X sd pick now s c)
  obtain s' c' where it: "tcp_iter X sd pick now s c = (s', c')" by force
  show ?case
    using 1 it tcp_iter_progress [OF it]
    by (subst tcp_serve.simps) auto
qed

definition released :: "'c Server \<Rightarrow> conn \<Rightarrow> bool" where
  "released s c \<longleftrightarrow> (phase c = Closed \<longrightarrow> (\<forall>r. sess c = Some r \<longrightarrow> sessions (mgr s) (fromId c) \<noteq> Some r))"

lemma released_return: "tcp_return s c = (s', c') \<Longrightarrow> released s' c'"
  by (auto simp: released_def tcp_return_def sessions_Unregister split: if_splits)

lemma released_iter:
  assumes "tcp_iter X sd pick now s c = (s', c')" "phase c = Serving"
  shows "released s' c'"
proof (cases "phase c' = Closed")
  case True
  obtain x c1 where r: "readHeader c = (x, c1)" by force
  note f = reads_frame [OF readHeader_fields [OF r]]
  have "\<exists>s0 c0. tcp_return s0 c0 = (s', c')"
    using True assms r f reads_frame [OF readFull_fields]
    by (auto simp: tcp_iter_def tcp_auth_response_def tcp_register_def tcp_switch_def alloc_def Let_def
        split: option.splits sum.splits if_splits prod.splits)
  then show ?thesis using released_return by blast
qed (simp add: released_def)

lemma tcp_serve_released:
  "released s c \<Longrightarrow> tcp_serve X sd pick now s c = (s', c') \<Longrightarrow> released s' c'"
proof (induction X sd pick now s c rule: tcp_serve.induct)
  case (1 X sd pick now s c)
  obtain s1 c1 where it: "tcp_iter X sd pick now s c = (s1, c1)" by force
  show ?case
  proof (cases "phase c = Serving")
    case True
    then show ?thesis
      using 1 it released_iter [OF it] tcp_serve.simps [of X sd pick now s c] by auto
  next
    case False
    then show ?thesis using 1(2,3) tcp_serve.simps [of X sd pick now s c] by simp
  qed
qed

subsection \<open>Properties\<close>


text \<open>A client that registers and answers the challenge, for the witnesses.\<close>

definition ex_id :: "32 word" where
  "ex_id = 0x05050505"

definition ex_register :: Header where
  "ex_register = \<lparr>Seq = 0, PayloadLen = 0, Cmd = Register_cmd, ToID = ex_id, Reserved = 0\<rparr>"

definition ex_response :: Header where
  "ex_response = \<lparr>Seq = 0, PayloadLen = 64, Cmd = AuthResponse, ToID = ex_id, Reserved = 0\<rparr>"

definition ex_answer :: bytes where
  "ex_answer = replicate 32 5 @ replicate 32 7"

definition ex_input :: bytes where
  "ex_input = Marshal ex_register @ Marshal ex_response @ ex_answer"

definition ex_opened :: conn where
  "ex_opened = \<lparr>input = ex_input, pos = 12, fromId = ucast ex_id, issued = Some (replicate 32 2),
     pending = Some (replicate 32 2), sess = None, out = [sendFrame AuthChallenge (replicate 32 3)], phase = Serving\<rparr>"

definition ex_proved :: conn where
  "ex_proved = ex_opened\<lparr>pos := 88, pending := None, sess := Some 0\<rparr>"

definition ex_server :: "nat Server" where
  "ex_server = (NewServer [] True)\<lparr>mgr := \<lparr>store = [(newTCPSession (ucast ex_id))\<lparr>verified := True\<rparr>],
     sessions = [ucast ex_id \<mapsto> 0], quicConns = Map.empty, requirePeerAuth = True, datagrams = []\<rparr>\<rparr>"

lemma ex_challenge: "newChallenge xor_curve (replicate 32 1) (Some (replicate 32 2)) = Inr (replicate 32 3, replicate 32 2)"
  by (simp add: newChallenge_def xor_curve_def map2_replicate replicate_eq_replicate)

lemma ex_verify: "verifyResponse xor_curve (replicate 32 2) ex_id ex_answer = Inr ()"
  by (simp add: verifyResponse_Inr ex_answer_def xor_curve_def map2_replicate replicate_eq_replicate
      slice_def be32_def le32_def ex_id_def)

lemma ex_headers:
  "readHeader (new_conn ex_input) = (Some (Marshal ex_register, ex_register), (new_conn ex_input)\<lparr>pos := 12\<rparr>)"
  "readHeader ex_opened = (Some (Marshal ex_response, ex_response), ex_opened\<lparr>pos := 24\<rparr>)"
  using Unmarshal_Marshal [of _ "[]"]
  by (simp_all add: readHeader_def readFull_def HeaderSize_def new_conn_def ex_input_def ex_opened_def ex_answer_def)

lemma ex_readRegister:
  "readRegister (NewServer [] True) (new_conn ex_input) = Some (ucast ex_id, (new_conn ex_input)\<lparr>pos := 12\<rparr>)"
  unfolding readRegister_def ex_headers by (simp add: ex_register_def checkRegisterToken_def NewServer_def)

lemma ex_open:
  "tcp_open xor_curve (replicate 32 1) (Some (replicate 32 2)) True (NewServer [] True) (new_conn ex_input) =
     (NewServer [] True, ex_opened)"
proof -
  have "strict (NewServer [] True :: 'a Server)" by (simp add: NewServer_def)
  then show ?thesis
    by (simp add: tcp_open_def ex_readRegister ex_challenge issueChallenge_def)
      (simp add: ex_opened_def new_conn_def)
qed

lemma ex_iter: "tcp_iter xor_curve sd True 0 (NewServer [] True) ex_opened = (ex_server, ex_proved)"
proof -
  have rd: "readFull (ex_opened\<lparr>pos := 24\<rparr>) 64 = (Some ex_answer, ex_opened\<lparr>pos := 88\<rparr>)"
    by (simp add: readFull_def ex_opened_def ex_input_def ex_answer_def)
  have pend: "pending ex_opened = Some (replicate 32 2)" "sess ex_opened = None" "fromId ex_opened = ucast ex_id"
    "ucast (ucast ex_id :: 64 word) = ex_id"
    by (simp_all add: ex_opened_def) (simp add: ex_id_def)
  have "tcp_iter xor_curve sd True 0 (NewServer [] True) ex_opened =
      tcp_register True (NewServer [] True) (ex_opened\<lparr>pos := 88, pending := None\<rparr>)"
    unfolding tcp_iter_def ex_headers
    using rd ex_verify by (simp add: pend tcp_auth_response_def ex_response_def size_defs)
  then show ?thesis
    by (simp add: pend tcp_register_def alloc_def Register_def shutdown_replaced_def NewServer_def
        SetRequirePeerAuth_def NewSessionManager_def ex_server_def ex_proved_def)
qed


text \<open>
  A well-formed Forward frame from a served connection reaches the destination's queue,
  appended last, with the sender's ID in place of the destination and the payload untouched,
  and the reader stands at the next frame.
\<close>

lemma relay_forward_delivers:
  assumes "drop (pos c) (input c) = Marshal h @ payload @ rest" and "pending c = None"
    and "Cmd h = Forward_cmd" and "unat (PayloadLen h) = length payload" and "length payload \<le> MaxForwardPayload"
    and "quicConns (mgr s) (ucast (ToID h)) = None" and "sessions (mgr s) (ucast (ToID h)) = Some r"
    and "r < length (store (mgr s))" and "requirePeerAuth (mgr s) \<longrightarrow> verified (store (mgr s) ! r)"
    and "sendCh (store (mgr s) ! r) = Some q" and "workOnce (store (mgr s) ! r)" and "length q < 256"
    and "done_ch (store (mgr s) ! r) = Some False"
  shows "\<exists>s' c'. tcp_iter X25519 sendDatagram pick now s c = (s', c') \<and>
    sendCh (store (mgr s') ! r) = Some (q @ [Marshal (h\<lparr>ToID := ucast (fromId c)\<rparr>) @ payload]) \<and>
    drop (pos c') (input c') = rest \<and> phase c' = phase c"
proof -
  have len: "pos c + 12 + length payload \<le> length (input c)"
    using arg_cong [OF assms(1), of length] by simp
  have eq: "drop (pos c + 12) (input c) = payload @ rest" "take 12 (drop (pos c) (input c)) = Marshal h"
    using assms(1) drop_drop [of 12 "pos c" "input c"] by (simp_all add: add.commute)
  then have eq3: "drop (pos c + 12 + length payload) (input c) = rest"
    using drop_drop [of "length payload" "pos c + 12" "input c"] by (simp add: add.commute)
  have hd: "readHeader c = (Some (Marshal h, h), c\<lparr>pos := pos c + 12\<rparr>)"
    using len eq(2) Unmarshal_Marshal [of h "[]"] by (simp add: readHeader_def readFull_def HeaderSize_def)
  show ?thesis
    using hd len eq eq3 assms(2-)
    by (simp add: tcp_iter_def tcp_switch_def readFull_def relay_frame_def stampSender_frame Relay_def
        enqueue_def work_once_def forwardQueueDepth_def Let_def)
qed

text \<open>
  C30. On every input the TCP handler returns, and when it has returned its session no longer
  occupies the slot.
\<close>

theorem relay_handler_returns:
  "\<exists>s' c'. handleBoltSession X25519 base rnd sent_ok sendDatagram pick now s inp = (s', c') \<and>
     phase c' = Closed \<and> (\<forall>r. sess c' = Some r \<longrightarrow> sessions (mgr s') (fromId c') \<noteq> Some r)"
proof -
  obtain s1 c1 where op: "tcp_open X25519 base rnd sent_ok s (new_conn inp) = (s1, c1)" by force
  then have ph: "phase c1 = Serving \<or> phase c1 = Closed \<and> released s1 c1"
    using released_return
    by (auto simp: tcp_open_def tcp_register_def Let_def alloc_def split: option.splits bool.splits prod.splits
        if_splits) (auto simp: tcp_return_def)
  obtain s' c' where sv: "tcp_serve X25519 sendDatagram pick now s1 c1 = (s', c')" by force
  have "phase c' = Closed" using tcp_serve_Closed [of c1 X25519 sendDatagram pick now s1] ph sv by auto
  moreover have "released s' c'" by (rule tcp_serve_released [OF _ sv]) (use ph in \<open>auto simp: released_def\<close>)
  ultimately show ?thesis using op sv by (simp add: handleBoltSession_def released_def)
qed

theorem relay_handler_returns_witness:
  "\<exists>s' c'. handleBoltSession xor_curve (replicate 32 1) (Some (replicate 32 2)) True (\<lambda>_ _. False) True 0
      (NewServer [] True :: nat Server) ex_input = (s', c') \<and> phase c' = Closed"
  using relay_handler_returns [of xor_curve "replicate 32 1" "Some (replicate 32 2)" True "\<lambda>_ _. False" True 0
      "NewServer [] True :: nat Server" ex_input] by blast

end
