(* ===== verification/PathEcho.thy ===== *)
theory PathEcho
  imports Prelude
begin

text \<open>
  The path echo of \<^verbatim>\<open>internal/agent/infra/path_echo.go\<close> and the packet filter that answers it,
  \<^verbatim>\<open>mux_filter.go\<close> with its channel connection \<^verbatim>\<open>chan_conn.go\<close>: the sole reader of the agent's
  UDP socket. \<open>IsMessage\<close> is the STUN test of pion, a parameter. A channel is the list of what it
  holds; the channel a ping waits on is a number.
\<close>

subsection \<open>Echo packets\<close>

definition pathEchoMagic :: bytes where
  "pathEchoMagic = [0x4C, 0x54, 0x50, 0x45]"

definition pathEchoPing :: byte where
  "pathEchoPing = 1"

definition pathEchoPong :: byte where
  "pathEchoPong = 2"

definition pathEchoSize :: nat where
  "pathEchoSize = length pathEchoMagic + 1 + 8"

definition pongPerSecond :: nat where
  "pongPerSecond = 100"

lemmas echo_defs = pathEchoMagic_def pathEchoPing_def pathEchoPong_def pathEchoSize_def

definition encodePathEcho :: "byte \<Rightarrow> 64 word \<Rightarrow> bytes" where
  "encodePathEcho kind nonce = pathEchoMagic @ kind # put_be64 nonce"

definition decodePathEcho :: "bytes \<Rightarrow> (byte \<times> 64 word) option" where
  "decodePathEcho pkt =
     (if length pkt \<noteq> pathEchoSize \<or> take (length pathEchoMagic) pkt \<noteq> pathEchoMagic then None
      else
        (let kind = pkt ! length pathEchoMagic
         in if kind \<noteq> pathEchoPing \<and> kind \<noteq> pathEchoPong then None
            else Some (kind, be64 (drop (length pathEchoMagic + 1) pkt))))"

subsection \<open>State\<close>

record pathEchoState =
  pending :: "64 word \<rightharpoonup> nat"
  window :: "time option"
  sent :: nat

record 'addr ChanPacketConn =
  recvCh :: "(bytes \<times> 'addr) list"
  done_conn :: bool

text \<open>
  \<open>written\<close> is what was sent on the socket, \<open>completed\<close> the channels closed by a reply,
  \<open>passThroughCh\<close> the queue towards WireGuard, whose capacity the other side chose.
\<close>

record 'addr FilteringUDPMux =
  chanConn :: "'addr ChanPacketConn"
  written :: "(bytes \<times> 'addr) list"
  passThroughCh :: "(bytes \<times> 'addr) list option"
  passThroughCap :: nat
  passThroughClosed :: bool
  stopped :: bool
  echo :: pathEchoState
  completed :: "nat set"
  droppedCount :: "64 word"

definition recvChCap :: nat where
  "recvChCap = 256"

definition newChanPacketConn :: "'addr ChanPacketConn" where
  "newChanPacketConn = \<lparr>recvCh = [], done_conn = False\<rparr>"

definition NewFilteringUDPMux :: "'addr FilteringUDPMux" where
  "NewFilteringUDPMux = \<lparr>chanConn = newChanPacketConn, written = [], passThroughCh = None, passThroughCap = 0,
     passThroughClosed = False, stopped = False, echo = \<lparr>pending = Map.empty, window = None, sent = 0\<rparr>,
     completed = {}, droppedCount = 0\<rparr>"

definition SetPassThrough :: "nat \<Rightarrow> 'addr FilteringUDPMux \<Rightarrow> 'addr FilteringUDPMux" where
  "SetPassThrough cap f = f\<lparr>passThroughCh := Some [], passThroughCap := cap\<rparr>"

subsection \<open>Operations\<close>

definition allowPong :: "time \<Rightarrow> pathEchoState \<Rightarrow> bool \<times> pathEchoState" where
  "allowPong now s =
     (let s1 = (if (case window s of None \<Rightarrow> True | Some w \<Rightarrow> now - w \<ge> Second)
                then s\<lparr>window := Some now, sent := 0\<rparr> else s)
      in if sent s1 \<ge> pongPerSecond then (False, s1) else (True, s1\<lparr>sent := sent s1 + 1\<rparr>))"

definition WriteTo :: "bytes \<Rightarrow> 'addr \<Rightarrow> 'addr FilteringUDPMux \<Rightarrow> 'addr FilteringUDPMux" where
  "WriteTo pkt addr f = f\<lparr>written := written f @ [(pkt, addr)]\<rparr>"

definition handlePathEcho :: "time \<Rightarrow> bytes \<Rightarrow> 'addr \<Rightarrow> 'addr FilteringUDPMux \<Rightarrow> bool \<times> 'addr FilteringUDPMux" where
  "handlePathEcho now pkt from f =
     (case decodePathEcho pkt of
        None \<Rightarrow> (False, f)
      | Some (kind, nonce) \<Rightarrow>
          if kind = pathEchoPing
          then (case allowPong now (echo f) of
                  (ok, e) \<Rightarrow> (True, (if ok then WriteTo (encodePathEcho pathEchoPong nonce) from else id) (f\<lparr>echo := e\<rparr>)))
          else
            (case pending (echo f) nonce of
               None \<Rightarrow> (True, f)
             | Some ch \<Rightarrow> (True, f\<lparr>echo := (echo f)\<lparr>pending := map_del (pending (echo f)) nonce\<rparr>,
                                 completed := insert ch (completed f)\<rparr>)))"

text \<open>
  \<open>inject\<close> waits until the channel has room or the connection is done: \<^term>\<open>None\<close> is a reader
  that waits. When both are possible Go picks one, here \<open>pick\<close>.
\<close>

definition inject :: "bool \<Rightarrow> bytes \<Rightarrow> 'addr \<Rightarrow> 'addr ChanPacketConn \<Rightarrow> 'addr ChanPacketConn option" where
  "inject pick data addr c =
     (if length (recvCh c) < recvChCap \<and> (\<not> done_conn c \<or> pick) then Some (c\<lparr>recvCh := recvCh c @ [(data, addr)]\<rparr>)
      else if done_conn c then Some c else None)"

text \<open>A reader of the connection waits, or gets a packet cut to its buffer, or learns that it is closed.\<close>

datatype 'addr chan_read = Waits | ReadClosed | ReadMsg bytes 'addr

definition ReadFrom_chan :: "bool \<Rightarrow> nat \<Rightarrow> 'addr ChanPacketConn \<Rightarrow> 'addr chan_read \<times> 'addr ChanPacketConn" where
  "ReadFrom_chan pick len c =
     (case recvCh c of
        [] \<Rightarrow> (if done_conn c then ReadClosed else Waits, c)
      | (data, addr) # ms \<Rightarrow>
          if done_conn c \<and> \<not> pick then (ReadClosed, c) else (ReadMsg (take len data) addr, c\<lparr>recvCh := ms\<rparr>))"

definition readLoop_packet ::
  "(bytes \<Rightarrow> bool) \<Rightarrow> bool \<Rightarrow> time \<Rightarrow> bytes \<Rightarrow> 'addr \<Rightarrow> 'addr FilteringUDPMux \<Rightarrow> 'addr FilteringUDPMux option" where
  "readLoop_packet IsMessage pick now pkt addr f =
     (case handlePathEcho now pkt addr f of
        (True, f1) \<Rightarrow> Some f1
      | (False, f1) \<Rightarrow>
          if IsMessage pkt then map_option (\<lambda>c. f1\<lparr>chanConn := c\<rparr>) (inject pick pkt addr (chanConn f1))
          else
            (case passThroughCh f1 of
               None \<Rightarrow> Some f1
             | Some q \<Rightarrow>
                 if length q < passThroughCap f1 then Some (f1\<lparr>passThroughCh := Some (q @ [(pkt, addr)])\<rparr>)
                 else Some (f1\<lparr>droppedCount := droppedCount f1 + 1\<rparr>)))"

datatype ping_error = RandError | WriteError | ErrPathEchoLost | CtxError | ErrClosed
datatype ping_event = Done | TimerFired | CtxDone | Stop

text \<open>\<open>Ping\<close> is split at its select: up to the write, which event may end it, and the end.\<close>

definition Ping_send ::
  "64 word option \<Rightarrow> bool \<Rightarrow> nat \<Rightarrow> 'addr \<Rightarrow> 'addr FilteringUDPMux \<Rightarrow> (ping_error + 64 word) \<times> 'addr FilteringUDPMux" where
  "Ping_send rand writes ch addr f =
     (case rand of
        None \<Rightarrow> (Inl RandError, f)
      | Some nonce \<Rightarrow>
          let f1 = f\<lparr>echo := (echo f)\<lparr>pending := (pending (echo f))(nonce \<mapsto> ch)\<rparr>\<rparr>
          in if writes then (Inr nonce, WriteTo (encodePathEcho pathEchoPing nonce) addr f1)
             else (Inl WriteError, f1\<lparr>echo := (echo f1)\<lparr>pending := map_del (pending (echo f1)) nonce\<rparr>\<rparr>))"

definition ping_ready :: "nat \<Rightarrow> ping_event \<Rightarrow> 'addr FilteringUDPMux \<Rightarrow> bool" where
  "ping_ready ch ev f = (case ev of Done \<Rightarrow> ch \<in> completed f | Stop \<Rightarrow> stopped f | _ \<Rightarrow> True)"

definition Ping_finish ::
  "time \<Rightarrow> time \<Rightarrow> ping_event \<Rightarrow> 64 word \<Rightarrow> 'addr FilteringUDPMux \<Rightarrow> (ping_error + duration) \<times> 'addr FilteringUDPMux" where
  "Ping_finish start now ev nonce f =
     (case ev of Done \<Rightarrow> Inr (now - start) | TimerFired \<Rightarrow> Inl ErrPathEchoLost | CtxDone \<Rightarrow> Inl CtxError | Stop \<Rightarrow> Inl ErrClosed,
      f\<lparr>echo := (echo f)\<lparr>pending := map_del (pending (echo f)) nonce\<rparr>\<rparr>)"

text \<open>The second \<open>Close\<close> closes a closed channel, which panics: \<^term>\<open>None\<close>.\<close>

definition Close_mux :: "'addr FilteringUDPMux \<Rightarrow> 'addr FilteringUDPMux option" where
  "Close_mux f =
     (if stopped f then None
      else Some (f\<lparr>stopped := True, passThroughClosed := (passThroughCh f \<noteq> None), chanConn := (chanConn f)\<lparr>done_conn := True\<rparr>\<rparr>))"

subsection \<open>Codec lemmas\<close>

lemma decode_encode [simp]:
  "decodePathEcho (encodePathEcho pathEchoPing n) = Some (pathEchoPing, n)"
  "decodePathEcho (encodePathEcho pathEchoPong n) = Some (pathEchoPong, n)"
  by (simp_all add: decodePathEcho_def encodePathEcho_def echo_defs)

lemma pong_not_ping [simp]: "pathEchoPong \<noteq> pathEchoPing"
  by (simp add: echo_defs)

text \<open>A WireGuard message begins with its type, 1 to 4: none is taken for an echo packet.\<close>

lemma wireguard_not_echo: "pkt ! 0 \<in> {1, 2, 3, 4} \<Longrightarrow> decodePathEcho pkt = None"
  by (cases pkt) (auto simp: decodePathEcho_def echo_defs)

lemma ping_answered:
  "fst (allowPong now (echo b)) \<Longrightarrow>
   readLoop_packet IsMessage pick now (encodePathEcho pathEchoPing nonce) loc b =
     Some (WriteTo (encodePathEcho pathEchoPong nonce) loc (b\<lparr>echo := snd (allowPong now (echo b))\<rparr>))"
  by (simp add: readLoop_packet_def handlePathEcho_def case_prod_beta)

lemma pong_completes:
  "pending (echo a) nonce = Some ch \<Longrightarrow>
   readLoop_packet IsMessage pick now (encodePathEcho pathEchoPong nonce) from a =
     Some (a\<lparr>echo := (echo a)\<lparr>pending := map_del (pending (echo a)) nonce\<rparr>, completed := insert ch (completed a)\<rparr>)"
  by (simp add: readLoop_packet_def handlePathEcho_def)

subsection \<open>The reply budget\<close>

text \<open>The replies granted to requests that arrive at the given times, and how many fall in a second.\<close>

fun granted :: "pathEchoState \<Rightarrow> time list \<Rightarrow> time list" where
  "granted s [] = []"
| "granted s (t # ts) = (if fst (allowPong t s) then [t] else []) @ granted (snd (allowPong t s)) ts"

definition within :: "time \<Rightarrow> time list \<Rightarrow> nat" where
  "within T ts = length (filter (\<lambda>t. T \<le> t \<and> t < T + Second) ts)"

lemma within_simps [simp]:
  "within T [] = 0" "within T (xs @ ys) = within T xs + within T ys"
  "within T (t # ts) = (if T \<le> t \<and> t < T + Second then 1 else 0) + within T ts"
  by (simp_all add: within_def)

lemma within_late: "\<forall>t \<in> set ts. T + Second \<le> t \<Longrightarrow> within T ts = 0"
  by (induction ts) auto

lemma granted_set: "set (granted s ts) \<subseteq> set ts"
  by (induction ts arbitrary: s) (auto split: if_splits)

lemma allowPong_reset:
  "(case window s of None \<Rightarrow> True | Some w \<Rightarrow> t - w \<ge> Second) \<Longrightarrow>
   allowPong t s = (True, s\<lparr>window := Some t, sent := 1\<rparr>)"
  by (simp add: allowPong_def pongPerSecond_def)

lemma allowPong_same:
  "window s = Some w \<Longrightarrow> t - w < Second \<Longrightarrow>
   allowPong t s = (if sent s \<ge> pongPerSecond then (False, s) else (True, s\<lparr>sent := sent s + 1\<rparr>))"
  by (simp add: allowPong_def)

text \<open>In a window that began at or after \<open>T\<close> only its own budget is left before \<open>T\<close> plus a second.\<close>

lemma within_fresh:
  assumes "window s = Some w" "T \<le> w" "sorted ts"
  shows "within T (granted s ts) \<le> pongPerSecond - sent s"
  using assms
proof (induction ts arbitrary: s)
  case (Cons t ts)
  show ?case
  proof (cases "t - w \<ge> Second")
    case True
    have "\<forall>x \<in> set (granted s (t # ts)). T + Second \<le> x"
      using granted_set [of s "t # ts"] Cons.prems(2,3) True by fastforce
    then show ?thesis by (simp only: within_late)
  next
    case False
    then have "t - w < Second" by simp
    note a = allowPong_same [OF Cons.prems(1) this]
    show ?thesis using Cons.IH [of s] Cons.IH [of "s\<lparr>sent := sent s + 1\<rparr>"] Cons.prems by (auto simp: a)
  qed
qed simp

lemma within_after:
  assumes "sorted ts" "\<forall>t \<in> set ts. T \<le> t"
  shows "within T (granted s ts) \<le> (case window s of None \<Rightarrow> 0 | Some w \<Rightarrow> pongPerSecond - sent s) + pongPerSecond"
  using assms
proof (induction ts arbitrary: s)
  case (Cons t ts)
  show ?case
  proof (cases "case window s of None \<Rightarrow> True | Some w \<Rightarrow> t - w \<ge> Second")
    case True
    have "within T (granted (s\<lparr>window := Some t, sent := 1\<rparr>) ts) \<le> pongPerSecond - 1"
      using within_fresh [of "s\<lparr>window := Some t, sent := 1\<rparr>" t T ts] Cons.prems by simp
    then show ?thesis by (auto simp: allowPong_reset [OF True] pongPerSecond_def)
  next
    case False
    then obtain w where w: "window s = Some w" "t - w < Second" by (auto split: option.splits)
    show ?thesis
      using Cons.IH [of s] Cons.IH [of "s\<lparr>sent := sent s + 1\<rparr>"] Cons.prems w by (auto simp: allowPong_same)
  qed
qed simp

lemma within_budget: "sorted ts \<Longrightarrow> within T (granted s ts) \<le> 2 * pongPerSecond"
proof (induction ts arbitrary: s)
  case (Cons t ts)
  show ?case
  proof (cases "T \<le> t")
    case True
    then have "within T (granted s (t # ts)) \<le>
        (case window s of None \<Rightarrow> 0 | Some w \<Rightarrow> pongPerSecond - sent s) + pongPerSecond"
      using Cons.prems by (intro within_after) auto
    then show ?thesis by (auto split: option.splits)
  qed (use Cons in auto)
qed simp

text \<open>The replies of the packet filter to a sequence of packets are those its budget grants.\<close>

fun replies :: "'addr FilteringUDPMux \<Rightarrow> (time \<times> bytes \<times> 'addr) list \<Rightarrow> time list" where
  "replies f [] = []"
| "replies f ((t, pkt, a) # xs) =
     (let f' = snd (handlePathEcho t pkt a f)
      in (if length (written f) < length (written f') then [t] else []) @ replies f' xs)"

definition is_ping :: "bytes \<Rightarrow> bool" where
  "is_ping pkt \<longleftrightarrow> (\<exists>n. decodePathEcho pkt = Some (pathEchoPing, n))"

lemma allowPong_pending: "allowPong t (s\<lparr>pending := p\<rparr>) = (fst (allowPong t s), snd (allowPong t s)\<lparr>pending := p\<rparr>)"
  by (simp add: allowPong_def Let_def)

lemma granted_pending: "granted (s\<lparr>pending := p\<rparr>) ts = granted s ts"
  by (induction ts arbitrary: s) (simp_all add: allowPong_pending)

lemma replies_granted: "replies f xs = granted (echo f) (map fst (filter (\<lambda>(t, pkt, a). is_ping pkt) xs))"
proof (induction xs arbitrary: f)
  case (Cons x xs)
  obtain t pkt a where x: "x = (t, pkt, a)" by (cases x)
  show ?case
  proof (cases "is_ping pkt")
    case True
    then show ?thesis
      by (auto simp: x is_ping_def handlePathEcho_def WriteTo_def Cons case_prod_beta Let_def)
  next
    case False
    have "length (written (snd (handlePathEcho t pkt a f))) = length (written f)"
      "granted (echo (snd (handlePathEcho t pkt a f))) ts = granted (echo f) ts" for ts
      using False by (auto simp: is_ping_def handlePathEcho_def granted_pending split: option.splits)
    then show ?thesis using False by (simp add: x Cons Let_def)
  qed
qed simp

subsection \<open>Properties\<close>

text \<open>
  C33. A ping is answered by the remote's packet filter alone and completes at the caller: whoever
  the two sides are, a request that the remote's budget admits is answered to its source, the
  answer ends exactly the ping that waits on its nonce and returns the elapsed time, and neither
  side passes an echo packet to WireGuard or to ICE.
\<close>

theorem path_echo_exchange:
  assumes "Ping_send (Some nonce) True ch remote a = (r, a1)"
    and "fst (allowPong now (echo b))"
  shows "\<exists>b1 a2. r = Inr nonce \<and>
    readLoop_packet IsMessage pick now (fst (last (written a1))) loc b = Some b1 \<and>
    written b1 = written b @ [(encodePathEcho pathEchoPong nonce, loc)] \<and>
    readLoop_packet IsMessage pick later (fst (last (written b1))) remote a1 = Some a2 \<and>
    ping_ready ch Done a2 \<and> fst (Ping_finish now later Done nonce a2) = Inr (later - now) \<and>
    completed a2 = insert ch (completed a) \<and> pending (echo a2) nonce = None \<and>
    chanConn b1 = chanConn b \<and> passThroughCh b1 = passThroughCh b \<and>
    chanConn a2 = chanConn a \<and> passThroughCh a2 = passThroughCh a"
proof -
  have a1: "r = Inr nonce" "a1 = WriteTo (encodePathEcho pathEchoPing nonce) remote
      (a\<lparr>echo := (echo a)\<lparr>pending := (pending (echo a))(nonce \<mapsto> ch)\<rparr>\<rparr>)"
    using assms(1) by (auto simp: Ping_send_def Let_def)
  then have "pending (echo a1) nonce = Some ch" by (simp add: WriteTo_def)
  note reply = pong_completes [OF this] and fwd = ping_answered [OF assms(2)]
  show ?thesis
    using a1 reply [of IsMessage pick later remote] fwd [of IsMessage pick nonce loc]
    by (simp add: WriteTo_def ping_ready_def Ping_finish_def)
qed

theorem path_echo_exchange_witness:
  "\<exists>b1. readLoop_packet (\<lambda>_. False) True 5 (encodePathEcho pathEchoPing 7) ''a'' (NewFilteringUDPMux :: string FilteringUDPMux)
     = Some b1 \<and> written b1 = [(encodePathEcho pathEchoPong 7, ''a'')]"
  using path_echo_exchange [where a = "NewFilteringUDPMux :: string FilteringUDPMux" and b = NewFilteringUDPMux
      and nonce = 7 and ch = 0 and remote = "''b''" and loc = "''a''" and now = 5 and later = 9 and pick = True
      and IsMessage = "\<lambda>_. False", OF prod.collapse [symmetric]]
  by (auto simp: Ping_send_def WriteTo_def NewFilteringUDPMux_def allowPong_def pongPerSecond_def Let_def)

text \<open>
  The responder is no amplifier: whatever packets arrive in time order, at most two hundred
  echo replies leave within any second, wherever that second starts.
\<close>

lemma path_echo_budget:
  assumes "sorted (map fst packets)"
  shows "within T (replies f packets) \<le> 200"
proof -
  have "sorted (map fst (filter (\<lambda>(t, pkt, a). is_ping pkt) packets))" by (rule sorted_filter [OF assms])
  from within_budget [OF this, of T "echo f"] show ?thesis by (simp add: replies_granted pongPerSecond_def)
qed

end
