(* ===== verification/PolicyEval.thy ===== *)
theory PolicyEval
  imports Message "HOL-Library.AList"
begin

text \<open>
  From stored policies to the firewall rules of one peer: the evaluator of
  \<^verbatim>\<open>internal/agent/controller/policy_evaluator.go\<close> with its identity resolver, and the translation
  of database rows in \<^verbatim>\<open>internal/server/reconcilers/policy_rules.go\<close>. A Go map that is iterated is
  an association list, and \<open>ord\<close> is the order in which its entries are visited, a parameter of which
  only \<open>map_order\<close> is known. The lists of pointers of the wire records hold no nil, so the
  evaluator's nil checks on their entries have no counterpart.
\<close>

subsection \<open>Evaluator\<close>

record ruleDecisionKey =
  peer :: string
  port :: int
  protocol :: string

type_synonym decisions = "(ruleDecisionKey \<times> string) list"

definition map_order :: "(decisions \<Rightarrow> decisions) \<Rightarrow> bool" where
  "map_order ord \<longleftrightarrow> (\<forall>d. mset (ord d) = mset d)"

definition cleanIP :: "string option \<Rightarrow> string" where
  "cleanIP ip =
     (case ip of None \<Rightarrow> '''' | Some a \<Rightarrow> if CHR ''/'' \<in> set a then hd (Split (CHR ''/'') a) else a)"

definition peerIPByName :: "Peer list \<Rightarrow> (string \<times> string) list" where
  "peerIPByName ps = foldl (\<lambda>m p. if Address p \<noteq> None then AList.update (Name p) (cleanIP (Address p)) m else m) [] ps"

text \<open>Reading a missing key of a Go map gives the zero value.\<close>

definition get_or_empty :: "('k \<times> string) list \<Rightarrow> 'k \<Rightarrow> string" where
  "get_or_empty m k = (case map_of m k of None \<Rightarrow> '''' | Some v \<Rightarrow> v)"

record IdentityStatus =
  i_Network :: string
  ResolvedPeerIP :: string
  PreviousPeerIP :: string
  GracePeriodExpiresAt :: "time option"

text \<open>The cluster resolver; its client's \<^verbatim>\<open>Get\<close> is a parameter, absent in a resolver without client.\<close>

definition ResolveIdentity :: "(string \<Rightarrow> IdentityStatus option) option \<Rightarrow> string \<Rightarrow> string \<Rightarrow> (string list) option" where
  "ResolveIdentity client network name =
     (case client of
        None \<Rightarrow> None
      | Some getter \<Rightarrow>
          if name = '''' then Some []
          else (case getter name of
                  None \<Rightarrow> Some []
                | Some pi \<Rightarrow>
                    if i_Network pi \<noteq> network then Some []
                    else Some ((if ResolvedPeerIP pi \<noteq> '''' then [ResolvedPeerIP pi] else []) @
                               (if PreviousPeerIP pi \<noteq> '''' \<and> GracePeriodExpiresAt pi \<noteq> None
                                then [PreviousPeerIP pi] else []))))"

definition ResolveIdentities :: "(string \<Rightarrow> IdentityStatus option) option \<Rightarrow> string \<Rightarrow> string list \<Rightarrow> string list" where
  "ResolveIdentities client network names =
     concat (map (\<lambda>n. case ResolveIdentity client network n of None \<Rightarrow> [] | Some ips \<Rightarrow> ips) names)"

type_synonym identity_resolver = "(string \<Rightarrow> IdentityStatus option) option option"

definition resolveRulePeers ::
  "identity_resolver \<Rightarrow> (string \<times> string) list \<Rightarrow> string \<Rightarrow> string \<Rightarrow> Rule \<Rightarrow> string list" where
  "resolveRulePeers idr ips cur network rule =
     concat (map (\<lambda>n. if n = cur then [] else let ip = get_or_empty ips n in if ip = '''' then [] else [ip])
       (PeerNames rule)) @
     filter (\<lambda>c. TrimSpace c \<noteq> '''') (CIDRs rule) @
     (case idr of None \<Rightarrow> []
      | Some client \<Rightarrow> if IdentityRefs rule = [] then [] else ResolveIdentities client network (IdentityRefs rule))"

definition decide :: "decisions \<Rightarrow> ruleDecisionKey \<Rightarrow> string \<Rightarrow> decisions" where
  "decide d k action = (if get_or_empty d k \<noteq> ''ALLOW'' then AList.update k action d else d)"

definition rule_key :: "Rule \<Rightarrow> string \<Rightarrow> ruleDecisionKey" where
  "rule_key rule p = \<lparr>peer = p, port = r_Port rule, protocol = Protocol rule\<rparr>"

definition applyDecision :: "(Rule \<Rightarrow> string list) \<Rightarrow> decisions \<Rightarrow> Rule \<Rightarrow> decisions" where
  "applyDecision resolve d rule = foldl (\<lambda>d p. decide d (rule_key rule p) (Action rule)) d (resolve rule)"

definition toIPTAction :: "string \<Rightarrow> string" where
  "toIPTAction action = (if EqualFold action ''ALLOW'' then ''ACCEPT'' else ''DROP'')"

definition emit :: "string \<Rightarrow> ruleDecisionKey \<times> string \<Rightarrow> TrafficRule" where
  "emit chain ka = \<lparr>ChainName = chain, t_Peers = [peer (fst ka)], t_Protocol = protocol (fst ka),
     t_Port = port (fst ka), t_Action = toIPTAction (snd ka)\<rparr>"

definition deny_tail :: "string \<Rightarrow> TrafficRule" where
  "deny_tail chain = \<lparr>ChainName = chain, t_Peers = [], t_Protocol = '''', t_Port = 0, t_Action = ''DROP''\<rparr>"

definition decisions_of :: "(Rule \<Rightarrow> string list) \<Rightarrow> Rule list \<Rightarrow> decisions" where
  "decisions_of resolve rules = foldl (applyDecision resolve) [] rules"

text \<open>\<^term>\<open>None\<close> is the error on a nil peer or network.\<close>

definition Evaluate ::
  "identity_resolver \<Rightarrow> (decisions \<Rightarrow> decisions) \<Rightarrow> Peer option \<Rightarrow> Network option \<Rightarrow> Policy list \<Rightarrow> FirewallRule option" where
  "Evaluate idr ord currentPeer network policies =
     (case (currentPeer, network) of
        (Some cur, Some net) \<Rightarrow>
          let resolve = resolveRulePeers idr (peerIPByName (Peers net)) (Name cur) (NetworkName net);
              ingress = decisions_of resolve (concat (map Ingress policies));
              egress = decisions_of resolve (concat (map Egress policies))
          in Some \<lparr>f_Platform = Platform cur, f_PolicyName = '''',
               f_Ingress = map (emit ''LATTICE-INGRESS'') (ord ingress) @ [deny_tail ''LATTICE-INGRESS''],
               f_Egress = map (emit ''LATTICE-EGRESS'') (ord egress) @ [deny_tail ''LATTICE-EGRESS'']\<rparr>
      | _ \<Rightarrow> None)"

subsection \<open>Database policies\<close>

record identity_row =
  id_Name :: string
  status :: IdentityStatus

record LabelSelectorRequirement =
  Key :: string
  Operator :: string
  Values :: "string list"

record LabelSelector =
  MatchLabels :: "string \<rightharpoonup> string"
  MatchExpressions :: "LabelSelectorRequirement list"

datatype IPBlock = IPBlock (CIDR: string)

record PeerSelection =
  s_PeerSelector :: "LabelSelector option"
  s_IPBlock :: "IPBlock option"
  IdentityRef :: string

record NetworkPolicyPort =
  np_Port :: int
  np_Protocol :: string

type_synonym direction_rule = "PeerSelection list \<times> NetworkPolicyPort list"

record PolicySpec =
  spec_Network :: string
  spec_PeerSelector :: LabelSelector
  spec_Ingress :: "direction_rule list"
  spec_Egress :: "direction_rule list"
  spec_Action :: string
  spec_ExpiresAt :: "time option"

record policy_row =
  row_Name :: string
  row_Action :: string
  row_Spec :: string

definition NewPolicyIdentityResolver :: "identity_row option list \<Rightarrow> string \<rightharpoonup> IdentityStatus" where
  "NewPolicyIdentityResolver ids =
     foldl (\<lambda>m i. case i of None \<Rightarrow> m | Some pi \<Rightarrow> m(id_Name pi \<mapsto> status pi)) Map.empty ids"

definition ResolveIPs :: "(string \<rightharpoonup> IdentityStatus) \<Rightarrow> string \<Rightarrow> time \<Rightarrow> string list" where
  "ResolveIPs byName name now =
     (case byName name of
        None \<Rightarrow> []
      | Some pi \<Rightarrow>
          (if ResolvedPeerIP pi \<noteq> '''' then [ResolvedPeerIP pi] else []) @
          (if PreviousPeerIP pi \<noteq> '''' \<and> (case GracePeriodExpiresAt pi of None \<Rightarrow> False | Some t \<Rightarrow> now < t)
           then [PreviousPeerIP pi] else []))"

definition selection_cidrs :: "(string \<rightharpoonup> IdentityStatus) \<Rightarrow> time \<Rightarrow> PeerSelection \<Rightarrow> string list" where
  "selection_cidrs byName now sel =
     (case s_IPBlock sel of None \<Rightarrow> [] | Some b \<Rightarrow> if CIDR b \<noteq> '''' then [CIDR b] else []) @
     (if IdentityRef sel \<noteq> '''' then ResolveIPs byName (IdentityRef sel) now else [])"

definition buildRule ::
  "(string \<rightharpoonup> IdentityStatus) \<Rightarrow> time \<Rightarrow> string \<Rightarrow> PeerSelection list \<Rightarrow> NetworkPolicyPort \<Rightarrow> Rule" where
  "buildRule byName now action sels np =
     \<lparr>PeerNames = [], CIDRs = concat (map (selection_cidrs byName now) sels), IdentityRefs = [],
      Protocol = ToUpper (np_Protocol np), r_Port = np_Port np, Action = action\<rparr>"

definition buildRules ::
  "(string \<rightharpoonup> IdentityStatus) \<Rightarrow> time \<Rightarrow> string \<Rightarrow> direction_rule \<Rightarrow> Rule list" where
  "buildRules byName now action r =
     (if snd r = [] then [buildRule byName now action (fst r) \<lparr>np_Port = 0, np_Protocol = ''''\<rparr>]
      else map (buildRule byName now action (fst r)) (snd r))"

definition buildPolicy :: "(string \<rightharpoonup> IdentityStatus) \<Rightarrow> time \<Rightarrow> string \<Rightarrow> string \<Rightarrow> PolicySpec \<Rightarrow> Policy" where
  "buildPolicy byName now name action spec =
     \<lparr>PolicyName = name, p_Action = ToUpper action,
      Ingress = concat (map (buildRules byName now (ToUpper action)) (spec_Ingress spec)),
      Egress = concat (map (buildRules byName now (ToUpper action)) (spec_Egress spec))\<rparr>"

text \<open>\<open>parse\<close> is the JSON decoding of the stored spec; \<^term>\<open>None\<close> is its error.\<close>

fun BuildWirePolicies ::
  "(string \<Rightarrow> PolicySpec option) \<Rightarrow> (string \<rightharpoonup> IdentityStatus) \<Rightarrow> time \<Rightarrow> policy_row list \<Rightarrow> Policy list option" where
  "BuildWirePolicies parse byName now [] = Some []"
| "BuildWirePolicies parse byName now (p # ps) =
     (case parse (row_Spec p) of
        None \<Rightarrow> None
      | Some spec \<Rightarrow>
          map_option ((#) (buildPolicy byName now (row_Name p) (row_Action p) spec))
            (BuildWirePolicies parse byName now ps))"

definition zero_Network :: Network where
  "zero_Network = \<lparr>n_Address = '''', n_AllowedIps = [], n_Port = 0, n_NetworkId = '''', NetworkName = '''', Peers = []\<rparr>"

definition ComputeForPeer ::
  "(string \<Rightarrow> PolicySpec option) \<Rightarrow> (string \<rightharpoonup> IdentityStatus) \<Rightarrow> time \<Rightarrow> (decisions \<Rightarrow> decisions) \<Rightarrow>
   policy_row list \<Rightarrow> Peer list \<Rightarrow> Peer \<Rightarrow> FirewallRule option" where
  "ComputeForPeer parse byName now ord policies ps target =
     (case BuildWirePolicies parse byName now policies of
        None \<Rightarrow> None
      | Some wire \<Rightarrow> Evaluate None ord (Some target) (Some (zero_Network\<lparr>Peers := ps\<rparr>)) wire)"

subsection \<open>Lemmas\<close>

text \<open>The pairs the rules put forward, in order; \<open>decide\<close> folds over them.\<close>

definition proposals :: "(Rule \<Rightarrow> string list) \<Rightarrow> Rule list \<Rightarrow> (ruleDecisionKey \<times> string) list" where
  "proposals resolve rules = concat (map (\<lambda>r. map (\<lambda>p. (rule_key r p, Action r)) (resolve r)) rules)"

definition decide_all :: "decisions \<Rightarrow> (ruleDecisionKey \<times> string) list \<Rightarrow> decisions" where
  "decide_all d kas = foldl (\<lambda>d ka. decide d (fst ka) (snd ka)) d kas"

lemma decide_all_simps [simp]:
  "decide_all d [] = d" "decide_all d (ka # kas) = decide_all (decide d (fst ka) (snd ka)) kas"
  "decide_all d (xs @ ys) = decide_all (decide_all d xs) ys"
  by (simp_all add: decide_all_def)

lemma applyDecision_all: "applyDecision resolve d r = decide_all d (map (\<lambda>p. (rule_key r p, Action r)) (resolve r))"
  by (simp add: applyDecision_def decide_all_def foldl_map)

lemma decisions_of_all: "decisions_of resolve rules = decide_all [] (proposals resolve rules)"
proof -
  have "foldl (applyDecision resolve) d rules = decide_all d (proposals resolve rules)" for d
    by (induction rules arbitrary: d) (simp_all add: proposals_def applyDecision_all)
  then show ?thesis by (simp add: decisions_of_def)
qed

lemma distinct_decide: "distinct (map fst d) \<Longrightarrow> distinct (map fst (decide d k a))"
  by (simp add: decide_def distinct_update)

lemma map_of_decide:
  "map_of (decide d k a) j =
     (if j = k then Some (if map_of d k = Some ''ALLOW'' then ''ALLOW'' else a) else map_of d j)"
  by (auto simp: decide_def get_or_empty_def update_conv' split: option.splits)

lemma distinct_decide_all: "distinct (map fst d) \<Longrightarrow> distinct (map fst (decide_all d kas))"
  by (induction kas arbitrary: d) (simp_all add: distinct_decide)

text \<open>A proposal of exactly \<open>ALLOW\<close> decides its key whatever else is proposed; otherwise the last does.\<close>

lemma map_of_decide_all:
  "map_of (decide_all d kas) k =
     (if map_of d k = Some ''ALLOW'' \<or> (k, ''ALLOW'') \<in> set kas then Some ''ALLOW''
      else (case filter (\<lambda>ka. fst ka = k) kas of [] \<Rightarrow> map_of d k | xs \<Rightarrow> Some (snd (last xs))))"
proof (induction kas arbitrary: d)
  case (Cons ka kas)
  show ?case
    by (cases ka) (auto simp: Cons map_of_decide split: list.splits)
qed (auto)

lemma map_of_decide_all_in:
  "map_of (decide_all [] kas) k = Some a \<Longrightarrow> (k, a) \<in> set kas"
proof -
  assume a: "map_of (decide_all [] kas) k = Some a"
  have "last xs \<in> set kas \<and> fst (last xs) = k" if "filter (\<lambda>ka. fst ka = k) kas = xs" "xs \<noteq> []" for xs
  proof -
    have "last xs \<in> set (filter (\<lambda>ka. fst ka = k) kas)" using last_in_set [OF that(2)] that(1) by simp
    then show ?thesis by simp
  qed
  with a show ?thesis by (auto simp: map_of_decide_all split: if_splits list.splits)
qed

lemma set_ord: "map_order ord \<Longrightarrow> set (ord d) = set d"
  by (metis map_order_def mset_eq_setD)

text \<open>Every decision is a proposal of some rule.\<close>

lemma decisions_proposed:
  assumes "(k, a) \<in> set (decisions_of resolve rules)"
  shows "(k, a) \<in> set (proposals resolve rules)"
proof -
  have "distinct (map fst (decisions_of resolve rules))" by (simp add: decisions_of_all distinct_decide_all)
  with assms have "map_of (decide_all [] (proposals resolve rules)) k = Some a"
    by (simp add: decisions_of_all)
  then show ?thesis by (rule map_of_decide_all_in)
qed

text \<open>ALLOW has priority: one exact ALLOW proposal for a key decides it, in whatever order rules come.\<close>

lemma allow_priority:
  assumes "(k, ''ALLOW'') \<in> set (proposals resolve rules)"
  shows "(k, ''ALLOW'') \<in> set (decisions_of resolve rules)"
  using assms by (auto simp: decisions_of_all map_of_decide_all intro!: map_of_SomeD)

text \<open>The selector of a stored policy plays no part: two specs that differ in it give the same rules.\<close>

lemma policy_selector_ignored:
  "buildPolicy byName now name action (spec\<lparr>spec_PeerSelector := sel\<rparr>) = buildPolicy byName now name action spec"
  by (simp add: buildPolicy_def)

end
