(* ===== verification/Firewall.thy ===== *)
theory Firewall
  imports PolicyEval
begin

text \<open>
  Enforcement of the evaluated rules: the provisioners of \<^verbatim>\<open>internal/agent/provision\<close> for Linux
  (iptables), macOS (pf) and Windows. A provisioner is the list of commands or lines it hands to the
  system; which commands fail is a parameter. What the system does with them is not code of the
  repository: \<open>ipt_verdict\<close> is the first match in a chain, as iptables(8) documents, and
  \<open>pf_passes\<close> the last match, as pf.conf(5) and the comment of the source say.
\<close>

subsection \<open>Linux\<close>

datatype direction = In | Out

definition chain_of :: "direction \<Rightarrow> string" where
  "chain_of d = (case d of In \<Rightarrow> ''LATTICE-INGRESS'' | Out \<Rightarrow> ''LATTICE-EGRESS'')"

definition rules_of :: "direction \<Rightarrow> FirewallRule \<Rightarrow> TrafficRule list" where
  "rules_of d fr = (case d of In \<Rightarrow> f_Ingress fr | Out \<Rightarrow> f_Egress fr)"

definition policy_rules :: "direction \<Rightarrow> Policy list \<Rightarrow> Rule list" where
  "policy_rules d ps = concat (map (case d of In \<Rightarrow> Ingress | Out \<Rightarrow> Egress) ps)"

datatype ipt_match = Established | Host string "(string \<times> int) option" | Any

datatype ipt_cmd =
    NewChain string
  | CheckJump string string
  | InsertJump string string
  | Flush string
  | Append string ipt_match string

definition addRule :: "string \<Rightarrow> string \<Rightarrow> TrafficRule \<Rightarrow> ipt_cmd" where
  "addRule chain ip tr =
     Append chain
       (Host ip (if t_Protocol tr \<noteq> '''' \<and> t_Port tr \<noteq> 0 then Some (ToLower (t_Protocol tr), t_Port tr) else None))
       (if t_Action tr = '''' then ''ACCEPT'' else t_Action tr)"

text \<open>
  \<open>initChain\<close> logs its failures and reports none; \<open>exists\<close> says that creating a chain failed because
  it is there. The commands that took effect are returned.
\<close>

definition initChain :: "(ipt_cmd \<Rightarrow> bool) \<Rightarrow> (string \<Rightarrow> bool) \<Rightarrow> string \<Rightarrow> string \<Rightarrow> ipt_cmd list" where
  "initChain fails exists chain parent =
     (if fails (NewChain chain) \<and> \<not> exists chain then []
      else (if fails (NewChain chain) then [] else [NewChain chain]) @
           (if \<not> fails (CheckJump parent chain) then [CheckJump parent chain]
            else if fails (InsertJump parent chain) then [] else [InsertJump parent chain]))"

definition host_cmds :: "direction \<Rightarrow> FirewallRule \<Rightarrow> ipt_cmd list" where
  "host_cmds d fr = concat (map (\<lambda>tr. map (\<lambda>ip. addRule (chain_of d) ip tr) (t_Peers tr)) (rules_of d fr))"

definition provision_cmds :: "FirewallRule \<Rightarrow> ipt_cmd list" where
  "provision_cmds fr =
     [Flush (chain_of In), Flush (chain_of Out),
      Append (chain_of In) Established ''ACCEPT'', Append (chain_of Out) Established ''ACCEPT''] @
     host_cmds In fr @ host_cmds Out fr @
     [Append (chain_of In) Any ''DROP'', Append (chain_of Out) Any ''DROP'']"

text \<open>The first failing command ends the run; the flag says whether every command succeeded.\<close>

fun run_cmds :: "(ipt_cmd \<Rightarrow> bool) \<Rightarrow> ipt_cmd list \<Rightarrow> bool \<times> ipt_cmd list" where
  "run_cmds fails [] = (True, [])"
| "run_cmds fails (c # cs) =
     (if fails c then (False, []) else (let (ok, ran) = run_cmds fails cs in (ok, c # ran)))"

definition Provision_linux :: "(ipt_cmd \<Rightarrow> bool) \<Rightarrow> (string \<Rightarrow> bool) \<Rightarrow> FirewallRule \<Rightarrow> bool \<times> ipt_cmd list" where
  "Provision_linux fails exists fr =
     (let init = initChain fails exists (chain_of In) ''INPUT'' @ initChain fails exists (chain_of Out) ''OUTPUT'';
          (ok, ran) = run_cmds fails (provision_cmds fr)
      in (ok, init @ ran))"

subsection \<open>macOS and Windows\<close>

datatype pf_line = Block direction | PassAll direction | Pass direction "(string \<times> int) option" "string list"

definition pf_rule :: "direction \<Rightarrow> TrafficRule \<Rightarrow> pf_line" where
  "pf_rule d tr =
     (if t_Peers tr = [] then PassAll d
      else Pass d (if t_Protocol tr \<noteq> '''' \<and> t_Port tr \<noteq> 0 then Some (ToLower (t_Protocol tr), t_Port tr) else None)
             (t_Peers tr))"

definition Provision_darwin :: "FirewallRule \<Rightarrow> pf_line list" where
  "Provision_darwin fr =
     [Block In, Block Out] @ map (pf_rule In) (f_Ingress fr) @ map (pf_rule Out) (f_Egress fr)"

datatype win_cmd = RemoveLattice | AllowRule direction nat string int string

definition win_rule :: "direction \<Rightarrow> nat \<times> TrafficRule \<Rightarrow> win_cmd" where
  "win_rule d itr = AllowRule d (fst itr) (ToUpper (t_Protocol (snd itr))) (t_Port (snd itr))
     (Join (CHR '','') (t_Peers (snd itr)))"

definition Provision_windows :: "FirewallRule \<Rightarrow> win_cmd list" where
  "Provision_windows fr =
     RemoveLattice # map (win_rule In) (enumerate 0 (f_Ingress fr)) @ map (win_rule Out) (enumerate 0 (f_Egress fr))"

subsection \<open>What the systems do\<close>

text \<open>A packet: which address texts cover its remote side, its protocol and port, and its connection.\<close>

record packet =
  covers :: "string \<Rightarrow> bool"
  pk_proto :: string
  pk_port :: int
  pk_established :: bool

definition service_matches :: "(string \<times> int) option \<Rightarrow> packet \<Rightarrow> bool" where
  "service_matches s pkt \<longleftrightarrow> (case s of None \<Rightarrow> True | Some (pr, n) \<Rightarrow> pk_proto pkt = pr \<and> pk_port pkt = n)"

definition ipt_matches :: "ipt_match \<Rightarrow> packet \<Rightarrow> bool" where
  "ipt_matches m pkt \<longleftrightarrow> (case m of Established \<Rightarrow> pk_established pkt
     | Host ip s \<Rightarrow> covers pkt ip \<and> service_matches s pkt | Any \<Rightarrow> True)"

definition chain_step :: "string \<Rightarrow> (ipt_match \<times> string) list \<Rightarrow> ipt_cmd \<Rightarrow> (ipt_match \<times> string) list" where
  "chain_step chain rs c = (case c of
       Flush ch \<Rightarrow> if ch = chain then [] else rs
     | Append ch m t \<Rightarrow> if ch = chain then rs @ [(m, t)] else rs
     | _ \<Rightarrow> rs)"

definition chain_after :: "string \<Rightarrow> (ipt_match \<times> string) list \<Rightarrow> ipt_cmd list \<Rightarrow> (ipt_match \<times> string) list" where
  "chain_after chain rs cs = foldl (chain_step chain) rs cs"

text \<open>\<^term>\<open>None\<close>: no rule of the chain matched, and the parent chain decides.\<close>

definition ipt_verdict :: "(ipt_match \<times> string) list \<Rightarrow> packet \<Rightarrow> string option" where
  "ipt_verdict rs pkt = map_option snd (find (\<lambda>r. ipt_matches (fst r) pkt) rs)"

definition pf_matches :: "direction \<Rightarrow> packet \<Rightarrow> pf_line \<Rightarrow> bool" where
  "pf_matches d pkt l = (case l of Block e \<Rightarrow> d = e | PassAll e \<Rightarrow> d = e
     | Pass e s ips \<Rightarrow> d = e \<and> list_ex (covers pkt) ips \<and> service_matches s pkt)"

definition pf_passes :: "pf_line list \<Rightarrow> direction \<Rightarrow> packet \<Rightarrow> bool" where
  "pf_passes ls d pkt = (case find (pf_matches d pkt) (rev ls) of None \<Rightarrow> True | Some (Block _) \<Rightarrow> False | Some _ \<Rightarrow> True)"

subsection \<open>Lemmas\<close>

lemma chain_neq [simp]: "chain_of In \<noteq> chain_of Out" "chain_of Out \<noteq> chain_of In"
  by (simp_all add: chain_of_def)

lemma chain_after_simps [simp]:
  "chain_after ch rs [] = rs" "chain_after ch rs (c # cs) = chain_after ch (chain_step ch rs c) cs"
  "chain_after ch rs (xs @ ys) = chain_after ch (chain_after ch rs xs) ys"
  by (simp_all add: chain_after_def)

lemma chain_step_simps [simp]:
  "chain_step ch rs (Flush c) = (if c = ch then [] else rs)"
  "chain_step ch rs (Append c m t) = (if c = ch then rs @ [(m, t)] else rs)"
  by (simp_all add: chain_step_def)

lemma chain_after_init [simp]: "chain_after ch rs (initChain fails exists c parent) = rs"
  by (simp add: initChain_def chain_step_def)

lemma run_cmds_ok: "fst (run_cmds fails cs) \<Longrightarrow> snd (run_cmds fails cs) = cs"
  by (induction cs) (auto simp: case_prod_beta split: if_splits)

lemma run_cmds_append:
  "run_cmds fails (xs @ ys) =
     (if fst (run_cmds fails xs) then (fst (run_cmds fails ys), xs @ snd (run_cmds fails ys)) else run_cmds fails xs)"
  by (induction xs) (auto simp: case_prod_beta)

lemma run_cmds_prefix: "set (snd (run_cmds fails cs)) \<subseteq> set cs"
  by (induction cs) (auto simp: case_prod_beta)

lemma run_cmds_fails: "c \<in> set cs \<Longrightarrow> fails c \<Longrightarrow> \<not> fst (run_cmds fails cs)"
  by (induction cs) (auto simp: case_prod_beta)

definition host_part :: "direction \<Rightarrow> FirewallRule \<Rightarrow> (ipt_match \<times> string) list" where
  "host_part d fr = concat (map (\<lambda>tr. map (\<lambda>ip. case addRule (chain_of d) ip tr of Append _ m t \<Rightarrow> (m, t)) (t_Peers tr))
     (rules_of d fr))"

lemma chain_after_hosts:
  "chain_after (chain_of d) rs (host_cmds e fr) = (if d = e then rs @ host_part d fr else rs)"
proof -
  have one: "chain_after (chain_of d) rs (map (\<lambda>ip. addRule (chain_of e) ip tr) ips) =
      (if d = e then rs @ map (\<lambda>ip. case addRule (chain_of d) ip tr of Append _ m t \<Rightarrow> (m, t)) ips else rs)" for rs ips tr
    by (induction ips arbitrary: rs; cases d; cases e) (simp_all add: addRule_def)
  have "chain_after (chain_of d) rs (concat (map (\<lambda>tr. map (\<lambda>ip. addRule (chain_of e) ip tr) (t_Peers tr)) trs)) =
      (if d = e then rs @ concat (map (\<lambda>tr. map (\<lambda>ip. case addRule (chain_of d) ip tr of Append _ m t \<Rightarrow> (m, t))
         (t_Peers tr)) trs) else rs)" for trs
    by (induction trs arbitrary: rs) (simp_all add: one)
  then show ?thesis by (cases "d = e") (simp_all add: host_cmds_def host_part_def)
qed

lemma provisioned_chain:
  assumes "Provision_linux fails exists fr = (True, cmds)"
  shows "chain_after (chain_of d) rs cmds = (Established, ''ACCEPT'') # host_part d fr @ [(Any, ''DROP'')]"
proof -
  have "fst (run_cmds fails (provision_cmds fr))" using assms by (simp add: Provision_linux_def case_prod_beta Let_def)
  from run_cmds_ok [OF this] have "cmds = initChain fails exists (chain_of In) ''INPUT'' @
      initChain fails exists (chain_of Out) ''OUTPUT'' @ provision_cmds fr"
    using assms by (simp add: Provision_linux_def case_prod_beta Let_def)
  then show ?thesis by (cases d) (simp_all add: provision_cmds_def chain_after_hosts)
qed

definition resolver :: "identity_resolver \<Rightarrow> Peer \<Rightarrow> Network \<Rightarrow> Rule \<Rightarrow> string list" where
  "resolver idr cur net = resolveRulePeers idr (peerIPByName (Peers net)) (Name cur) (NetworkName net)"

lemma Evaluate_rules:
  assumes "Evaluate idr ord (Some cur) (Some net) ps = Some fr"
  shows "rules_of d fr =
    map (emit (chain_of d)) (ord (decisions_of (resolver idr cur net) (policy_rules d ps))) @ [deny_tail (chain_of d)]"
  using assms by (cases d) (auto simp: Evaluate_def Let_def resolver_def rules_of_def chain_of_def policy_rules_def)

definition rule_service :: "Rule \<Rightarrow> (string \<times> int) option" where
  "rule_service r = (if Protocol r \<noteq> '''' \<and> r_Port r \<noteq> 0 then Some (ToLower (Protocol r), r_Port r) else None)"

definition decision_rule :: "ruleDecisionKey \<times> string \<Rightarrow> ipt_match \<times> string" where
  "decision_rule ka =
     (Host (peer (fst ka)) (if protocol (fst ka) \<noteq> '''' \<and> port (fst ka) \<noteq> 0
        then Some (ToLower (protocol (fst ka)), port (fst ka)) else None), toIPTAction (snd ka))"

lemma host_part_emit:
  "rules_of d fr = map (emit (chain_of d)) kas @ [deny_tail (chain_of d)] \<Longrightarrow> host_part d fr = map decision_rule kas"
proof -
  assume rules: "rules_of d fr = map (emit (chain_of d)) kas @ [deny_tail (chain_of d)]"
  show ?thesis
    unfolding host_part_def rules
    by (induction kas) (simp_all add: emit_def deny_tail_def addRule_def decision_rule_def toIPTAction_def)
qed

lemma verdict_Cons [simp]:
  "ipt_verdict (r # rs) pkt = (if ipt_matches (fst r) pkt then Some (snd r) else ipt_verdict rs pkt)"
  "ipt_verdict [] pkt = None"
  by (simp_all add: ipt_verdict_def)

lemma verdict_append:
  "ipt_verdict (xs @ ys) pkt = (case ipt_verdict xs pkt of None \<Rightarrow> ipt_verdict ys pkt | Some t \<Rightarrow> Some t)"
  by (induction xs) auto

lemma verdict_in: "ipt_verdict rs pkt = Some t \<Longrightarrow> \<exists>m. (m, t) \<in> set rs \<and> ipt_matches m pkt"
  by (induction rs) (auto split: if_splits)

lemma verdict_none: "ipt_verdict rs pkt = None \<longleftrightarrow> (\<forall>r \<in> set rs. \<not> ipt_matches (fst r) pkt)"
  by (induction rs) auto

lemma verdict_decision:
  assumes "ipt_verdict (map decision_rule kas) pkt = Some t"
  obtains r where "r \<in> set kas" and "t = toIPTAction (snd r)" and "ipt_matches (fst (decision_rule r)) pkt"
  using verdict_in [OF assms] by (auto simp: decision_rule_def)

text \<open>A decision that accepts a packet goes back to an ALLOW rule of a policy that covers it.\<close>

lemma accepted_proposed:
  assumes "map_order ord" and "ka \<in> set (ord (decisions_of resolve rules))"
    and "toIPTAction (snd ka) = ''ACCEPT''" and "ipt_matches (fst (decision_rule ka)) pkt"
  shows "\<exists>r \<in> set rules. \<exists>p \<in> set (resolve r).
    EqualFold (Action r) ''ALLOW'' \<and> covers pkt p \<and> service_matches (rule_service r) pkt"
proof -
  have "(fst ka, snd ka) \<in> set (proposals resolve rules)"
    by (rule decisions_proposed) (use assms(1,2) in \<open>simp add: set_ord\<close>)
  then obtain r p where "r \<in> set rules" "p \<in> set (resolve r)" "fst ka = rule_key r p" "snd ka = Action r"
    by (auto simp: proposals_def)
  then show ?thesis using assms(3,4)
    by (auto simp: toIPTAction_def rule_key_def rule_service_def decision_rule_def ipt_matches_def split: if_splits)
qed

subsection \<open>Properties\<close>


definition ex_rule :: "string \<Rightarrow> string \<Rightarrow> Rule" where
  "ex_rule a c = \<lparr>PeerNames = [], CIDRs = [c], IdentityRefs = [], Protocol = '''', r_Port = 0, Action = a\<rparr>"

definition ex_policies :: "Policy list" where
  "ex_policies = [\<lparr>PolicyName = ''p'', p_Action = ''ALLOW'',
     Ingress = [ex_rule ''ALLOW'' ''10.0.0.0/8'', ex_rule ''DENY'' ''10.0.0.5''], Egress = []\<rparr>]"

definition ex_cur :: Peer where
  "ex_cur = \<lparr>Name = ''me'', InterfaceName = '''', Platform = ''linux'', Description = '''', NetworkId = '''', CreatedBy = '''',
     UserId = 0, Hostname = '''', AppID = ''a'', Address = None, Endpoint = '''', Remove = False, PresharedKey = '''',
     PersistentKeepalive = 0, PrivateKey = '''', PublicKey = '''', PeerID = 0, AllowedIPs = '''', ReplacePeers = False,
     Port = 0, GroupName = '''', Version = 0, LastUpdatedAt = '''', Token = '''', RelayURL = '''', EnforcerMode = '''',
     Tier = '''', ApprovalStatus = '''', Labels = Map.empty, AdvertisedRoutes = []\<rparr>"

definition ex_pkt :: packet where
  "ex_pkt = \<lparr>covers = (\<lambda>c. c \<in> {''10.0.0.0/8'', ''10.0.0.5''}), pk_proto = ''tcp'', pk_port = 22, pk_established = False\<rparr>"

definition ex_net :: Network where
  "ex_net = zero_Network\<lparr>NetworkName := ''n''\<rparr>"

lemma ex_resolver [simp]: "resolver None ex_cur ex_net (ex_rule a ''10.0.0.0/8'') = [''10.0.0.0/8'']"
  "resolver None ex_cur ex_net (ex_rule a ''10.0.0.5'') = [''10.0.0.5'']"
  by (simp_all add: resolver_def resolveRulePeers_def ex_rule_def TrimSpace_def TrimLeft_def is_space_def)

lemma ex_decisions:
  "decisions_of (resolver None ex_cur ex_net) (policy_rules In ex_policies) =
     [(rule_key (ex_rule ''ALLOW'' ''10.0.0.0/8'') ''10.0.0.0/8'', ''ALLOW''),
      (rule_key (ex_rule ''DENY'' ''10.0.0.5'') ''10.0.0.5'', ''DENY'')]"
  by (simp add: policy_rules_def ex_policies_def decisions_of_def applyDecision_def decide_def get_or_empty_def)
    (simp add: rule_key_def ex_rule_def)

lemma map_order_ex [simp]: "map_order id" "map_order rev"
  by (simp_all add: map_order_def)

lemma run_none: "run_cmds (\<lambda>_. False) cs = (True, cs)"
  by (induction cs) simp_all

text \<open>The verdict of a freshly provisioned machine on which every command succeeds.\<close>

definition enforced :: "identity_resolver \<Rightarrow> (decisions \<Rightarrow> decisions) \<Rightarrow> Peer \<Rightarrow> Network \<Rightarrow> Policy list \<Rightarrow> direction \<Rightarrow> packet \<Rightarrow> string option" where
  "enforced idr ord cur net ps d pkt =
     (case Evaluate idr ord (Some cur) (Some net) ps of
        None \<Rightarrow> None
      | Some fr \<Rightarrow> ipt_verdict (chain_after (chain_of d) [] (snd (Provision_linux (\<lambda>_. False) (\<lambda>_. False) fr))) pkt)"

lemma enforced_eq:
  assumes "\<not> pk_established pkt"
  shows "enforced idr ord cur net ps d pkt =
    (case ipt_verdict (map decision_rule (ord (decisions_of (resolver idr cur net) (policy_rules d ps)))) pkt of
       None \<Rightarrow> Some ''DROP'' | Some t \<Rightarrow> Some t)"
proof -
  obtain fr where fr: "Evaluate idr ord (Some cur) (Some net) ps = Some fr" by (simp add: Evaluate_def Let_def)
  obtain cmds where cmds: "Provision_linux (\<lambda>_. False) (\<lambda>_. False) fr = (True, cmds)"
    by (simp add: Provision_linux_def run_none Let_def)
  show ?thesis
    using assms host_part_emit [OF Evaluate_rules [OF fr], of d]
    by (simp add: enforced_def fr cmds provisioned_chain [OF cmds] verdict_append ipt_matches_def split: option.split)
qed


lemma chain_after_set: "set (chain_after ch rs cs) \<subseteq> set rs \<union> {(m, t). Append ch m t \<in> set cs}"
proof (induction cs arbitrary: rs)
  case (Cons c cs)
  have "set (chain_step ch rs c) \<subseteq> set rs \<union> {(m, t). c = Append ch m t}"
    by (cases c) (auto simp: chain_step_def)
  then show ?case using Cons [of "chain_step ch rs c"] by fastforce
qed simp

text \<open>
  C35. A rule the system refuses opens the node: when one ingress rule cannot be installed, as with
  a malformed block of a policy, provisioning stops before the final DROP with the old rules already
  flushed, and every new connection that no rule mentions is left to the parent chain.
\<close>

theorem firewall_failure_opens:
  assumes "tr \<in> set (f_Ingress fr)" and "ip \<in> set (t_Peers tr)" and "fails (addRule (chain_of In) ip tr)"
    and "\<not> fails (Flush (chain_of In))" and "\<not> pk_established pkt"
    and "\<forall>t \<in> set (f_Ingress fr). \<forall>a \<in> set (t_Peers t). \<not> covers pkt a"
    and "Provision_linux fails exists fr = (ok, cmds)"
  shows "\<not> ok \<and> ipt_verdict (chain_after (chain_of In) old cmds) pkt = None"
proof -
  let ?rest = "[Flush (chain_of Out), Append (chain_of In) Established ''ACCEPT'', Append (chain_of Out) Established ''ACCEPT'']
    @ host_cmds In fr"
  let ?tail = "host_cmds Out fr @ [Append (chain_of In) Any ''DROP'', Append (chain_of Out) Any ''DROP'']"
  have "addRule (chain_of In) ip tr \<in> set ?rest" using assms(1,2) by (auto simp: host_cmds_def rules_of_def)
  then have "\<not> fst (run_cmds fails ?rest)" using assms(3) by (rule run_cmds_fails)
  then have run: "run_cmds fails (?rest @ ?tail) = run_cmds fails ?rest" by (simp only: run_cmds_append if_False)
  have cmds: "provision_cmds fr = Flush (chain_of In) # ?rest @ ?tail" by (simp add: provision_cmds_def)
  obtain ran where ran: "run_cmds fails ?rest = (False, ran)"
    using \<open>\<not> fst (run_cmds fails ?rest)\<close> by (cases "run_cmds fails ?rest") simp
  have "run_cmds fails (provision_cmds fr) = (False, Flush (chain_of In) # ran)"
    unfolding cmds run_cmds.simps run ran using assms(4) by simp
  then have ok: "\<not> ok" and chain: "chain_after (chain_of In) old cmds = chain_after (chain_of In) [] ran"
    using assms(7) by (auto simp: Provision_linux_def Let_def)
  have "set ran \<subseteq> set ?rest" using run_cmds_prefix [of fails ?rest] by (simp only: ran snd_conv)
  then have "set (chain_after (chain_of In) [] ran) \<subseteq> {(m, t). Append (chain_of In) m t \<in> set ?rest}"
    using chain_after_set [of "chain_of In" "[]" ran] by (auto simp del: set_append)
  moreover have "\<not> ipt_matches m pkt" if "Append (chain_of In) m t \<in> set ?rest" for m t
    using that assms(5,6) by (auto simp: host_cmds_def rules_of_def addRule_def ipt_matches_def)
  ultimately have "\<not> ipt_matches (fst r) pkt" if "r \<in> set (chain_after (chain_of In) [] ran)" for r
    by (metis (no_types, lifting) that case_prodD prod.collapse mem_Collect_eq subsetD)
  then show ?thesis using ok chain by (simp add: verdict_none)
qed

definition bad_rule :: FirewallRule where
  "bad_rule = \<lparr>f_Platform = ''linux'', f_PolicyName = '''',
     f_Ingress = [emit ''LATTICE-INGRESS'' (\<lparr>peer = ''10.0.0.0/99'', port = 0, protocol = ''''\<rparr>, ''ALLOW''),
                  deny_tail ''LATTICE-INGRESS''], f_Egress = [deny_tail ''LATTICE-EGRESS'']\<rparr>"

definition refuses :: "ipt_cmd \<Rightarrow> bool" where
  "refuses c \<longleftrightarrow> c = Append (chain_of In) (Host ''10.0.0.0/99'' None) ''ACCEPT''"

theorem firewall_failure_opens_witness:
  "\<not> fst (Provision_linux refuses (\<lambda>_. False) bad_rule) \<and>
   ipt_verdict (chain_after (chain_of In) [(Any, ''DROP'')] (snd (Provision_linux refuses (\<lambda>_. False) bad_rule))) ex_pkt = None"
proof (rule firewall_failure_opens)
  show "hd (f_Ingress bad_rule) \<in> set (f_Ingress bad_rule)" "''10.0.0.0/99'' \<in> set (t_Peers (hd (f_Ingress bad_rule)))"
    by (simp_all add: bad_rule_def emit_def)
  show "refuses (addRule (chain_of In) ''10.0.0.0/99'' (hd (f_Ingress bad_rule)))"
    by (simp add: refuses_def bad_rule_def emit_def addRule_def toIPTAction_def EqualFold_def)
  show "\<not> refuses (Flush (chain_of In))" "\<not> pk_established ex_pkt" by (simp_all add: refuses_def ex_pkt_def)
  show "\<forall>t\<in>set (f_Ingress bad_rule). \<forall>a\<in>set (t_Peers t). \<not> covers ex_pkt a"
    by (simp add: bad_rule_def emit_def deny_tail_def ex_pkt_def)
  show "Provision_linux refuses (\<lambda>_. False) bad_rule =
      (fst (Provision_linux refuses (\<lambda>_. False) bad_rule), snd (Provision_linux refuses (\<lambda>_. False) bad_rule))" by simp
qed

text \<open>
  The macOS firewall is open: the evaluator always closes a direction with a rule without peers,
  which the pf provisioner reads as permission for everything, after every other rule of that
  direction, so every packet passes whatever the policies say.
\<close>

lemma darwin_firewall_open:
  assumes "Evaluate idr ord (Some cur) (Some net) ps = Some fr"
  shows "pf_passes (Provision_darwin fr) d pkt"
proof -
  have out: "\<not> pf_matches In pkt (pf_rule Out tr)" for tr by (simp add: pf_rule_def pf_matches_def)
  then have skip: "find (pf_matches In pkt) (map (pf_rule Out) ts @ ls) = find (pf_matches In pkt) ls" for ts ls
    by (induction ts) simp_all
  have "\<exists>xs. f_Ingress fr = xs @ [deny_tail ''LATTICE-INGRESS'']" "\<exists>ys. f_Egress fr = ys @ [deny_tail ''LATTICE-EGRESS'']"
    using assms by (auto simp: Evaluate_def Let_def)
  then show ?thesis
    by (cases d) (auto simp: pf_passes_def Provision_darwin_def rev_map skip simp del: map_append,
      auto simp: pf_rule_def deny_tail_def pf_matches_def)
qed

text \<open>
  The order of the rules is left to the map iteration, and it decides: for an ALLOW rule and a
  DENY rule for different address texts that cover the same new connection, one visiting order
  accepts the connection and another drops it.
\<close>

lemma rule_order_decides:
  assumes "resolver idr cur net r = [p]" and "resolver idr cur net r' = [p']" and "p \<noteq> p'"
    and "Action r = ''ALLOW''" and "Action r' = ''DENY''" and "\<not> pk_established pkt"
    and "covers pkt p" and "covers pkt p'" and "service_matches (rule_service r) pkt"
    and "service_matches (rule_service r') pkt" and "policy_rules d ps = [r, r']"
  shows "\<exists>ord ord'. map_order ord \<and> map_order ord' \<and> enforced idr ord cur net ps d pkt = Some ''ACCEPT'' \<and>
    enforced idr ord' cur net ps d pkt = Some ''DROP''"
proof -
  have "decisions_of (resolver idr cur net) (policy_rules d ps) = [(rule_key r p, ''ALLOW''), (rule_key r' p', ''DENY'')]"
    using assms(1-5,11) by (simp add: decisions_of_def applyDecision_def decide_def get_or_empty_def rule_key_def)
  moreover have "ipt_matches (fst (decision_rule (rule_key r p, a))) pkt" "ipt_matches (fst (decision_rule (rule_key r' p', a))) pkt" for a
    using assms(7-10) by (auto simp: decision_rule_def ipt_matches_def rule_key_def rule_service_def split: if_splits)
  moreover have "snd (decision_rule (k, ''ALLOW'')) = ''ACCEPT''" "snd (decision_rule (k, ''DENY'')) = ''DROP''" for k
    by (simp_all add: decision_rule_def toIPTAction_def EqualFold_def ToUpper_def upper_char_def)
  ultimately show ?thesis
    using map_order_ex by (intro exI [of _ id] exI [of _ rev]) (simp add: enforced_eq [OF assms(6)])
qed

end
