(* ===== verification/IPAM.thy ===== *)
theory IPAM
  imports Addresses
begin

text \<open>
  Address management of the cluster, \<^verbatim>\<open>internal/agent/ipam/ipam.go\<close>: one subnet of the pool per
  network, one address of the subnet per peer, each claimed by creating an object whose name is the
  address. The Kubernetes client is a parameter: what a listing returned, which may be stale, and
  \<open>create\<close>, of which only \<open>api_create\<close> is known: the server refuses a name that exists. The address
  loops may run forever and are partial functions, \<^term>\<open>None\<close> standing for a loop that does not end.
\<close>

subsection \<open>Objects\<close>

record LatticeGlobalIPPool =
  pool_CIDR :: string
  SubnetMask :: int

record LatticeSubnetAllocation =
  a_Name :: string
  a_NetworkName :: string
  a_CIDR :: string

record LatticeEndpoint =
  e_Name :: string
  e_Namespace :: string
  e_Address :: string
  e_PeerRef :: string

datatype ipam_error = InvalidCIDR | ListFailed | RefFailed | CreateError | NoSubnet | NoAddress

datatype create_reply = Created | AlreadyExists | CreateFailed

text \<open>The server keeps objects by key; only a successful creation changes them, and only at a free key.\<close>

definition api_create :: "('s \<Rightarrow> 'k \<rightharpoonup> 'o) \<Rightarrow> ('o \<Rightarrow> 'k) \<Rightarrow> ('s \<Rightarrow> 'o \<Rightarrow> create_reply \<times> 's) \<Rightarrow> bool" where
  "api_create objs key create \<longleftrightarrow> (\<forall>s ob. case create s ob of
       (Created, s') \<Rightarrow> objs s (key ob) = None \<and> objs s' = (objs s)(key ob \<mapsto> ob)
     | (AlreadyExists, s') \<Rightarrow> objs s (key ob) \<noteq> None \<and> objs s' = objs s
     | (CreateFailed, s') \<Rightarrow> objs s' = objs s)"

subsection \<open>Helpers\<close>

definition ipToHex :: "32 word \<Rightarrow> string" where
  "ipToHex ip = hex_bytes (put_be32 ip)"

definition nextSubnet :: "32 word \<Rightarrow> int \<Rightarrow> 32 word" where
  "nextSubnet ip maskBits = ip + push_bit (unat (32 - word_of_int maskBits :: 32 word)) 1"

definition Sprint_int :: "int \<Rightarrow> string" where
  "Sprint_int i = (if i < 0 then ''-'' @ Itoa (nat (- i)) else Itoa (nat i))"

subsection \<open>Subnets\<close>

partial_function (option) free_loop ::
  "32 word \<times> nat \<Rightarrow> int \<Rightarrow> string set \<Rightarrow> 32 word \<Rightarrow> (ipam_error + 32 word) option" where
  "free_loop net maskBits used cur =
     (if Contains net cur
      then (if ipToHex cur \<notin> used then Some (Inr cur) else free_loop net maskBits used (nextSubnet cur maskBits))
      else Some (Inl NoSubnet))"

declare free_loop.simps [code]

definition FindFirstFree :: "LatticeGlobalIPPool \<Rightarrow> string list option \<Rightarrow> (ipam_error + 32 word) option" where
  "FindFirstFree pool listing =
     (case ParseCIDR (pool_CIDR pool) of
        None \<Rightarrow> Some (Inl InvalidCIDR)
      | Some (ip, ones) \<Rightarrow>
          (case listing of
             None \<Rightarrow> Some (Inl ListFailed)
           | Some names \<Rightarrow>
               free_loop (ip, ones) (SubnetMask pool) (set (map (\<lambda>n. TrimPrefix n ''subnet-'') names)) (Mask ip ones)))"

definition subnet_object :: "string \<Rightarrow> LatticeGlobalIPPool \<Rightarrow> 32 word \<Rightarrow> LatticeSubnetAllocation" where
  "subnet_object network pool ip =
     \<lparr>a_Name = ''subnet-'' @ ipToHex ip, a_NetworkName = network,
      a_CIDR = IP_String ip @ ''/'' @ Sprint_int (SubnetMask pool)\<rparr>"

definition maxRetries :: nat where
  "maxRetries = 10"

text \<open>Each attempt lists again; \<open>ref\<close> is whether the owner reference could be set.\<close>

fun subnet_attempts ::
  "('s \<Rightarrow> string list option) \<Rightarrow> bool \<Rightarrow> ('s \<Rightarrow> LatticeSubnetAllocation \<Rightarrow> create_reply \<times> 's) \<Rightarrow>
   string \<Rightarrow> LatticeGlobalIPPool \<Rightarrow> nat \<Rightarrow> 's \<Rightarrow> ((ipam_error + string) \<times> 's) option" where
  "subnet_attempts lst ref create network pool 0 s = Some (Inl NoSubnet, s)"
| "subnet_attempts lst ref create network pool (Suc n) s =
     (case FindFirstFree pool (lst s) of
        None \<Rightarrow> None
      | Some (Inl e) \<Rightarrow> Some (Inl e, s)
      | Some (Inr ip) \<Rightarrow>
          if \<not> ref then Some (Inl RefFailed, s)
          else (case create s (subnet_object network pool ip) of
                  (Created, s') \<Rightarrow> Some (Inr (a_CIDR (subnet_object network pool ip)), s')
                | (CreateFailed, s') \<Rightarrow> Some (Inl CreateError, s')
                | (AlreadyExists, s') \<Rightarrow> subnet_attempts lst ref create network pool n s'))"

definition AllocateSubnet where
  "AllocateSubnet lst ref create network pool s = subnet_attempts lst ref create network pool maxRetries s"

subsection \<open>Addresses\<close>

definition endpoint_object :: "string \<Rightarrow> string \<Rightarrow> 32 word \<Rightarrow> LatticeEndpoint" where
  "endpoint_object ns peer i =
     \<lparr>e_Name = ''ip-'' @ ipToHex i, e_Namespace = ns, e_Address = IP_String i, e_PeerRef = peer\<rparr>"

definition endpoint_key :: "LatticeEndpoint \<Rightarrow> string \<times> string" where
  "endpoint_key e = (e_Namespace e, e_Name e)"

partial_function (option) claim_loop ::
  "bool \<Rightarrow> ('s \<Rightarrow> LatticeEndpoint \<Rightarrow> create_reply \<times> 's) \<Rightarrow> string set \<Rightarrow> string \<Rightarrow> string \<Rightarrow>
   32 word \<Rightarrow> 32 word \<Rightarrow> 's \<Rightarrow> ((ipam_error + string) \<times> 's) option" where
  "claim_loop ref create used ns peer endInt i s =
     (if i \<le> endInt
      then (if e_Name (endpoint_object ns peer i) \<in> used then claim_loop ref create used ns peer endInt (i + 1) s
            else if \<not> ref then Some (Inl RefFailed, s)
            else (case create s (endpoint_object ns peer i) of
                    (Created, s') \<Rightarrow> Some (Inr (IP_String i), s')
                  | (CreateFailed, s') \<Rightarrow> Some (Inl CreateError, s')
                  | (AlreadyExists, s') \<Rightarrow> claim_loop ref create used ns peer endInt (i + 1) s'))
      else Some (Inl NoAddress, s))"

declare claim_loop.simps [code]

definition AllocateIP ::
  "LatticeEndpoint list option \<Rightarrow> bool \<Rightarrow> ('s \<Rightarrow> LatticeEndpoint \<Rightarrow> create_reply \<times> 's) \<Rightarrow> string \<Rightarrow>
   string \<Rightarrow> string \<Rightarrow> 's \<Rightarrow> ((ipam_error + string) \<times> 's) option" where
  "AllocateIP listing ref create cidr ns peer s =
     (case ParseCIDR cidr of
        None \<Rightarrow> Some (Inl InvalidCIDR, s)
      | Some (ip, ones) \<Rightarrow>
          (case listing of
             None \<Rightarrow> Some (Inl ListFailed, s)
           | Some existing \<Rightarrow>
               (case find (\<lambda>a. e_PeerRef a = peer) existing of
                  Some a \<Rightarrow> Some (Inr (e_Address a), s)
                | None \<Rightarrow>
                    claim_loop ref create (set (map e_Name existing)) ns peer
                      (Mask ip ones + push_bit (32 - ones) 1 - 2) (Mask ip ones + 2) s)))"

datatype delete_reply = Deleted | NotFound | DeleteFailed

text \<open>The flag is whether an error is returned.\<close>

definition ReleaseIP ::
  "('s \<Rightarrow> string \<times> string \<Rightarrow> delete_reply \<times> 's) \<Rightarrow> string \<Rightarrow> string \<Rightarrow> 's \<Rightarrow> bool \<times> 's" where
  "ReleaseIP delete ns address s =
     (if address = '''' then (False, s)
      else (case ParseIP address of
              None \<Rightarrow> (False, s)
            | Some ip \<Rightarrow> (case delete s (ns, ''ip-'' @ ipToHex ip) of (r, s') \<Rightarrow> (r = DeleteFailed, s'))))"

subsection \<open>Lemmas\<close>

lemma api_createD:
  assumes "api_create objs key create"
  shows "create s ob = (Created, s') \<Longrightarrow> objs s (key ob) = None \<and> objs s' = (objs s)(key ob \<mapsto> ob)"
    and "create s ob = (AlreadyExists, s') \<Longrightarrow> objs s (key ob) \<noteq> None \<and> objs s' = objs s"
    and "create s ob = (CreateFailed, s') \<Longrightarrow> objs s' = objs s"
  using assms unfolding api_create_def by (force dest: spec [where x = s] split: prod.splits)+

lemma ipToHex_inject [simp]: "ipToHex a = ipToHex b \<longleftrightarrow> a = b"
proof -
  have "put_be32 a = put_be32 b \<longleftrightarrow> a = b" by (metis be32_put)
  then show ?thesis by (simp add: ipToHex_def hex_bytes_inject)
qed

lemma of_nat_32: "n < 2 ^ 32 \<Longrightarrow> unat (of_nat n :: 32 word) = n"
  by (simp add: unsigned_of_nat take_bit_nat_eq_self)

lemma nextSubnet_step: "m \<le> 32 \<Longrightarrow> nextSubnet ip (int m) = ip + of_nat (2 ^ (32 - m))"
proof -
  assume m: "m \<le> 32"
  have "(32 - word_of_int (int m) :: 32 word) = of_nat (32 - m)" using m by (simp add: of_nat_diff)
  moreover have "unat (of_nat (32 - m) :: 32 word) = 32 - m" by (rule of_nat_32) simp
  ultimately have "unat (32 - word_of_int (int m) :: 32 word) = 32 - m" by simp
  then show ?thesis by (simp add: nextSubnet_def push_bit_eq_mult)
qed

text \<open>The blocks of a pool, in order, and the search through them.\<close>

definition block :: "32 word \<Rightarrow> nat \<Rightarrow> nat \<Rightarrow> nat \<Rightarrow> 32 word" where
  "block ip ones m j = Mask ip ones + of_nat (j * 2 ^ (32 - m))"

definition subnets :: "32 word \<Rightarrow> nat \<Rightarrow> nat \<Rightarrow> 32 word list" where
  "subnets ip ones m = map (block ip ones m) [0..<2 ^ (m - ones)]"

lemma unat_plus_of_nat: "unat a + n < 2 ^ 32 \<Longrightarrow> unat (a + of_nat n :: 32 word) = unat a + n"
proof -
  assume lt: "unat a + n < 2 ^ 32"
  have "a + of_nat n = of_nat (unat a + n)" by simp
  then show ?thesis using of_nat_32 [OF lt] by simp
qed

lemma plus_of_nat_zero: "unat a + n = 2 ^ 32 \<Longrightarrow> a + of_nat n = (0 :: 32 word)"
proof -
  assume eq: "unat a + n = 2 ^ 32"
  have "a + of_nat n = of_nat (unat a + n)" by simp
  also have "\<dots> = 0" unfolding eq by simp
  finally show ?thesis .
qed

lemma pool_size:
  assumes "ones \<le> m" and "m \<le> 32"
  shows "(2 :: nat) ^ (32 - ones) = 2 ^ (m - ones) * 2 ^ (32 - m)"
  using assms by (simp flip: power_add)

lemma unat_block:
  assumes "ones \<le> m" and "m \<le> 32" and "j < 2 ^ (m - ones)"
  shows "unat (block ip ones m j) = unat (Mask ip ones) + j * 2 ^ (32 - m)"
    and "j * 2 ^ (32 - m) < 2 ^ (32 - ones)"
proof -
  show "j * 2 ^ (32 - m) < 2 ^ (32 - ones)"
    using assms(3) by (simp add: pool_size [OF assms(1,2)])
  then show "unat (block ip ones m j) = unat (Mask ip ones) + j * 2 ^ (32 - m)"
    unfolding block_def using Mask_block [of ip ones] by (intro unat_plus_of_nat) linarith
qed

lemma block_inside:
  assumes "ones \<le> m" and "m \<le> 32" and "j < 2 ^ (m - ones)"
  shows "Contains (ip, ones) (block ip ones m j)"
  using unat_block [OF assms] by (simp add: Contains_unat unat_Mask)

lemma block_past_end:
  assumes "0 < ones" and "ones \<le> m" and "m \<le> 32"
  shows "\<not> Contains (ip, ones) (block ip ones m (2 ^ (m - ones)))"
proof -
  let ?p = "2 ^ (32 - ones) :: nat"
  have b: "block ip ones m (2 ^ (m - ones)) = Mask ip ones + of_nat ?p"
    by (simp add: block_def pool_size [OF assms(2,3)])
  consider "unat (Mask ip ones) + ?p < 2 ^ 32" | "unat (Mask ip ones) + ?p = 2 ^ 32"
    using Mask_block [of ip ones] by linarith
  then show ?thesis
  proof cases
    case 1
    have "unat (Mask ip ones + of_nat ?p) div ?p = unat ip div ?p + 1"
      unfolding unat_plus_of_nat [OF 1] by (simp add: unat_Mask)
    then show ?thesis by (simp add: Contains_unat b)
  next
    case 2
    have "?p < 2 ^ 32" using assms(1) by (intro power_strict_increasing) auto
    moreover have "?p = 2 ^ 32" if "unat ip div ?p = 0" using 2 unfolding unat_Mask that by simp
    ultimately have "unat ip div ?p \<noteq> 0" by (metis nat_neq_iff)
    then show ?thesis unfolding Contains_unat b plus_of_nat_zero [OF 2] by simp
  qed
qed

lemma block_next: "m \<le> 32 \<Longrightarrow> nextSubnet (block ip ones m j) (int m) = block ip ones m (Suc j)"
  by (simp add: nextSubnet_step block_def algebra_simps)

lemma free_loop_blocks:
  assumes "0 < ones" and "ones \<le> m" and "m \<le> 32" and "j \<le> 2 ^ (m - ones)"
  shows "free_loop (ip, ones) (int m) used (block ip ones m j) =
    Some (case find (\<lambda>a. ipToHex a \<notin> used) (map (block ip ones m) [j..<2 ^ (m - ones)]) of
            None \<Rightarrow> Inl NoSubnet | Some a \<Rightarrow> Inr a)"
  using assms(4)
proof (induction "2 ^ (m - ones) - j" arbitrary: j)
  case 0
  then have "j = 2 ^ (m - ones)" by simp
  then show ?case using block_past_end [OF assms(1-3)] by (subst free_loop.simps) simp
next
  case (Suc k)
  then have j: "j < 2 ^ (m - ones)" by simp
  have IH: "free_loop (ip, ones) (int m) used (block ip ones m (Suc j)) =
    Some (case find (\<lambda>a. ipToHex a \<notin> used) (map (block ip ones m) [Suc j..<2 ^ (m - ones)]) of
            None \<Rightarrow> Inl NoSubnet | Some a \<Rightarrow> Inr a)"
    using Suc by (intro Suc.hyps(1)) auto
  show ?case
    using j by (subst free_loop.simps) (simp add: block_inside [OF assms(2,3) j] block_next [OF assms(3)] IH upt_conv_Cons)
qed

lemma block_zero [simp]: "block ip ones m 0 = Mask ip ones"
  by (simp add: block_def)

text \<open>A step of zero never leaves a used block.\<close>

lemma free_loop_stuck:
  assumes "Contains net cur" and "ipToHex cur \<in> used" and "nextSubnet cur bits = cur"
  shows "free_loop net bits used cur = None"
proof -
  have "\<not> (Contains net cur \<and> ipToHex cur \<in> used \<and> nextSubnet cur bits = cur)"
    if "free_loop net bits used cur = Some y" for y
    by (rule free_loop.raw_induct [OF _ that, where P = "\<lambda>net bits used cur y.
        \<not> (Contains net cur \<and> ipToHex cur \<in> used \<and> nextSubnet cur bits = cur)"]) (metis (full_types))
  then show ?thesis using assms by (cases "free_loop net bits used cur") auto
qed

text \<open>The addresses of the claim loop, which ends unless the last address is the largest word.\<close>

definition taken :: "('s \<Rightarrow> (string \<times> string) \<rightharpoonup> LatticeEndpoint) \<Rightarrow> string set \<Rightarrow> string \<Rightarrow> 's \<Rightarrow> 32 word \<Rightarrow> bool" where
  "taken objs used ns s a \<longleftrightarrow> ''ip-'' @ ipToHex a \<in> used \<or> objs s (ns, ''ip-'' @ ipToHex a) \<noteq> None"

text \<open>What the allocation of an address promises, for the addresses \<open>lo\<close> to \<open>hi\<close>.\<close>

definition ip_promise ::
  "('s \<Rightarrow> (string \<times> string) \<rightharpoonup> LatticeEndpoint) \<Rightarrow> string set \<Rightarrow> string \<Rightarrow> string \<Rightarrow> 32 word \<Rightarrow> 32 word \<Rightarrow> 's \<Rightarrow>
   ipam_error + string \<Rightarrow> 's \<Rightarrow> bool" where
  "ip_promise objs used ns peer lo hi s r s' \<longleftrightarrow> (case r of
       Inr addr \<Rightarrow> \<exists>a. lo \<le> a \<and> a \<le> hi \<and> addr = IP_String a \<and> \<not> taken objs used ns s a \<and>
         (\<forall>b. lo \<le> b \<and> b < a \<longrightarrow> taken objs used ns s b) \<and>
         objs s' = (objs s)((ns, ''ip-'' @ ipToHex a) \<mapsto> endpoint_object ns peer a)
     | Inl e \<Rightarrow> objs s' = objs s \<and> (e = NoAddress \<longrightarrow> (\<forall>b. lo \<le> b \<and> b \<le> hi \<longrightarrow> taken objs used ns s b)))"

lemma next_le:
  assumes "i \<noteq> (- 1 :: 32 word)"
  shows "i + 1 \<le> b \<longleftrightarrow> i < b" and "unat (i + 1) = unat i + 1"
proof -
  have "unat i < 2 ^ 32" using unsigned_less [of i] by simp
  moreover have "unat i \<noteq> 2 ^ 32 - 1"
  proof
    assume "unat i = 2 ^ 32 - 1"
    then have "i = of_nat (2 ^ 32 - 1)" by (metis of_nat_unat ucast_id)
    then show False using assms by simp
  qed
  ultimately have "unat i + 1 < 2 ^ 32" by linarith
  from unat_plus_of_nat [OF this] show u: "unat (i + 1) = unat i + 1" by simp
  then show "i + 1 \<le> b \<longleftrightarrow> i < b" by (simp add: word_le_nat_alt word_less_nat_alt Suc_le_eq)
qed

lemma not_last: "i \<le> hi \<Longrightarrow> hi \<noteq> - 1 \<Longrightarrow> i \<noteq> (- 1 :: 32 word)"
  using word_order.extremum_unique by blast

lemma ip_promise_step:
  assumes "ip_promise objs used ns peer (i + 1) hi s' r s''" and "objs s' = objs s" and "taken objs used ns s i"
    and "i \<noteq> - 1"
  shows "ip_promise objs used ns peer i hi s r s''"
proof -
  have "taken objs used ns s' = taken objs used ns s" by (simp add: taken_def fun_eq_iff assms(2))
  then show ?thesis
    using assms(1,2,3) unfolding ip_promise_def next_le(1) [OF assms(4)] by (fastforce split: sum.splits simp: order_le_less)
qed

lemma claim_loop_promise:
  assumes "api_create objs endpoint_key create" and "hi \<noteq> - 1"
  shows "\<exists>r s'. claim_loop ref create used ns peer hi i s = Some (r, s') \<and> ip_promise objs used ns peer i hi s r s'"
proof (induction "unat hi + 1 - unat i" arbitrary: i s rule: less_induct)
  case less
  show ?case
  proof (cases "i \<le> hi")
    case False
    then have "\<not> (i \<le> b \<and> b \<le> hi)" for b by auto
    then have "ip_promise objs used ns peer i hi s (Inl NoAddress) s" by (auto simp: ip_promise_def)
    then show ?thesis using False by (subst claim_loop.simps) simp
  next
    case True
    then have i: "i \<noteq> - 1" using assms(2) by (rule not_last)
    have IH: "\<exists>r s'. claim_loop ref create used ns peer hi (i + 1) t = Some (r, s') \<and>
        ip_promise objs used ns peer (i + 1) hi t r s'" for t
      using True by (intro less) (simp add: next_le(2) [OF i] word_le_nat_alt)
    let ?ob = "endpoint_object ns peer i"
    have key: "endpoint_key ?ob = (ns, ''ip-'' @ ipToHex i)" "e_Name ?ob = ''ip-'' @ ipToHex i"
      by (simp_all add: endpoint_key_def endpoint_object_def)
    show ?thesis
    proof (cases "e_Name ?ob \<in> used")
      case True
      then have tk: "taken objs used ns s i" by (simp add: taken_def key)
      obtain r s' where r: "claim_loop ref create used ns peer hi (i + 1) s = Some (r, s')"
        "ip_promise objs used ns peer (i + 1) hi s r s'" using IH by blast
      from ip_promise_step [OF r(2) refl tk i] show ?thesis
        using r(1) True \<open>i \<le> hi\<close> by (subst claim_loop.simps) simp
    next
      case False
      note unused = this
      consider "\<not> ref" | s' where "ref" "create s ?ob = (Created, s')" | s' where "ref" "create s ?ob = (CreateFailed, s')"
        | s' where "ref" "create s ?ob = (AlreadyExists, s')"
        by (cases "create s ?ob"; cases "fst (create s ?ob)") auto
      then show ?thesis
      proof cases
        case 2
        then have "ip_promise objs used ns peer i hi s (Inr (IP_String i)) s'"
          using api_createD(1) [OF assms(1) 2(2)] unused True by (auto simp: ip_promise_def taken_def key)
        then show ?thesis using 2 unused True by (subst claim_loop.simps) simp
      next
        case 4
        then have tk: "objs s' = objs s" "taken objs used ns s i" using api_createD(2) [OF assms(1) 4(2)] by (auto simp: taken_def key)
        obtain r s'' where r: "claim_loop ref create used ns peer hi (i + 1) s' = Some (r, s'')"
          "ip_promise objs used ns peer (i + 1) hi s' r s''" using IH by blast
        from ip_promise_step [OF r(2) tk i] show ?thesis
          using r(1) 4 unused True by (subst claim_loop.simps) simp
      qed (use api_createD(3) [OF assms(1)] unused True in \<open>subst claim_loop.simps, simp add: ip_promise_def\<close>)+
    qed
  qed
qed

lemma IP_String_not_Nil [simp]: "IP_String a \<noteq> []"
proof
  assume "IP_String a = []"
  then have "ParseIP [] = Some a" by (metis ParseIP_String)
  then show False by (simp add: ParseIP_def)
qed

text \<open>Releasing the address of an endpoint deletes that endpoint.\<close>

lemma release_endpoint:
  "ReleaseIP delete ns (e_Address (endpoint_object ns peer a)) s =
     (case delete s (endpoint_key (endpoint_object ns peer a)) of (r, s') \<Rightarrow> (r = DeleteFailed, s'))"
  by (simp add: ReleaseIP_def endpoint_object_def endpoint_key_def)

lemma host_range:
  assumes "ones \<le> 30"
  shows "unat (Mask ip ones + 2) = unat (Mask ip ones) + 2"
    and "unat (Mask ip ones + push_bit (32 - ones) 1 - 2 :: 32 word) = unat (Mask ip ones) + 2 ^ (32 - ones) - 2"
proof -
  let ?B = "unat (Mask ip ones)" and ?p = "2 ^ (32 - ones) :: nat"
  have p: "4 \<le> ?p" using power_increasing [of 2 "32 - ones" "2 :: nat"] assms by simp
  have blk: "?B + ?p \<le> 2 ^ 32" by (rule Mask_block)
  show "unat (Mask ip ones + 2) = ?B + 2" using unat_plus_of_nat [of "Mask ip ones" 2] p blk by simp
  have "Mask ip ones + push_bit (32 - ones) 1 - 2 = (of_nat (?B + ?p) - of_nat 2 :: 32 word)"
    by (simp add: push_bit_eq_mult)
  also have "\<dots> = of_nat (?B + ?p - 2)" using p by (subst of_nat_diff) simp_all
  finally show "unat (Mask ip ones + push_bit (32 - ones) 1 - 2 :: 32 word) = ?B + ?p - 2"
    using of_nat_32 [of "?B + ?p - 2"] p blk by simp
qed

lemma host_range_not_last:
  "ones \<le> 30 \<Longrightarrow> Mask ip ones + push_bit (32 - ones) 1 - 2 \<noteq> (- 1 :: 32 word)"
proof
  assume ones: "ones \<le> 30" and eq: "Mask ip ones + push_bit (32 - ones) 1 - 2 = (- 1 :: 32 word)"
  have "(- 1 :: 32 word) = of_nat (2 ^ 32 - 1)" by simp
  then have "unat (- 1 :: 32 word) = 2 ^ 32 - 1" using of_nat_32 [of "2 ^ 32 - 1"] by (metis diff_less zero_less_one zero_less_numeral zero_less_power)
  then show False using host_range(2) [OF ones, of ip] Mask_block [of ip ones] unfolding eq by simp
qed

subsection \<open>Properties\<close>

text \<open>
  C18. The search for a subnet returns for every pool whose prefix is not empty and not longer than
  its subnets, and computes the reference definition: the lowest block of the pool whose name no
  listed allocation has, or the error when all blocks are taken.
\<close>

theorem find_first_free_lowest:
  assumes "ParseCIDR (pool_CIDR pool) = Some (ip, ones)" and "SubnetMask pool = int m"
    and "0 < ones" and "ones \<le> m" and "m \<le> 32"
  shows "FindFirstFree pool (Some names) =
    Some (case find (\<lambda>a. ipToHex a \<notin> (\<lambda>n. TrimPrefix n ''subnet-'') ` set names) (subnets ip ones m) of
            None \<Rightarrow> Inl NoSubnet | Some a \<Rightarrow> Inr a)"
  using free_loop_blocks [OF assms(3-5), of 0 ip] assms(1,2) by (simp add: FindFirstFree_def subnets_def)

lemma first_free_in_pool:
  assumes "ParseCIDR (pool_CIDR pool) = Some (ip, ones)" and "SubnetMask pool = int m"
    and "0 < ones" and "ones \<le> m" and "m \<le> 32"
  obtains e where "FindFirstFree pool listing = Some (Inl e)"
  | a where "FindFirstFree pool listing = Some (Inr a)" and "a \<in> set (subnets ip ones m)"
proof (cases listing)
  case None
  then show ?thesis using assms(1) that(1) by (simp add: FindFirstFree_def)
next
  case (Some names)
  show ?thesis
  proof (cases "find (\<lambda>a. ipToHex a \<notin> (\<lambda>n. TrimPrefix n ''subnet-'') ` set names) (subnets ip ones m)")
    case None
    then show ?thesis using free_loop_blocks [OF assms(3-5), of 0 ip] assms(1,2) Some that(1)
      by (simp add: FindFirstFree_def subnets_def)
  next
    case (Some a)
    then have "a \<in> set (subnets ip ones m)" by (auto simp: find_Some_iff)
    then show ?thesis using free_loop_blocks [OF assms(3-5), of 0 ip] assms(1,2) Some \<open>listing = Some names\<close> that(2)
      by (simp add: FindFirstFree_def subnets_def)
  qed
qed

text \<open>A subnet that is returned was free at the server and now belongs to the network; nothing else changes.\<close>

lemma allocate_subnet_claims:
  assumes "api_create objs a_Name create" and "ParseCIDR (pool_CIDR pool) = Some (ip, ones)"
    and "SubnetMask pool = int m" and "0 < ones" and "ones \<le> m" and "m \<le> 32"
  shows "\<exists>r s'. subnet_attempts lst ref create network pool n s = Some (r, s') \<and> (case r of
      Inl e \<Rightarrow> objs s' = objs s
    | Inr c \<Rightarrow> \<exists>a \<in> set (subnets ip ones m). c = a_CIDR (subnet_object network pool a) \<and>
        objs s (''subnet-'' @ ipToHex a) = None \<and>
        objs s' = (objs s)(''subnet-'' @ ipToHex a \<mapsto> subnet_object network pool a))"
proof (induction n arbitrary: s)
  case (Suc n)
  show ?case
  proof (rule first_free_in_pool [OF assms(2-6), of "lst s"])
    fix a assume ff: "FindFirstFree pool (lst s) = Some (Inr a)" and a: "a \<in> set (subnets ip ones m)"
    let ?ob = "subnet_object network pool a"
    have name: "a_Name ?ob = ''subnet-'' @ ipToHex a" by (simp add: subnet_object_def)
    obtain rep s1 where c: "create s ?ob = (rep, s1)" by (cases "create s ?ob")
    show ?thesis
    proof (cases rep)
      case AlreadyExists
      then have e: "objs s1 = objs s" using api_createD(2) [OF assms(1)] c by blast
      show ?thesis using Suc.IH [of s1, unfolded e] AlreadyExists c ff by (cases ref) simp_all
    next
      case Created
      then show ?thesis using api_createD(1) [OF assms(1), of s ?ob s1] c ff a name by (cases ref) auto
    next
      case CreateFailed
      then show ?thesis using api_createD(3) [OF assms(1), of s ?ob s1] c ff by (cases ref) auto
    qed
  qed simp
qed simp

definition ex_pool :: "int \<Rightarrow> LatticeGlobalIPPool" where
  "ex_pool m = \<lparr>pool_CIDR = ''10.0.0.0/8'', SubnetMask = m\<rparr>"

lemma ex_parse: "ParseCIDR ''10.0.0.0/8'' = Some (0x0A000000, 8)"
  by (simp add: ParseCIDR_def ParseIP_def octet_ok_def is_digit_def Atoi_def be32_def le32_def Let_def push_bit_eq_mult)

lemma ex_mask: "Mask 0x0A000000 8 = 0x0A000000"
  by (simp add: Mask_shift push_bit_eq_mult drop_bit_eq_div)

lemma ex_hex: "ipToHex 0x0A000000 = ''0a000000''"
  by (simp add: ipToHex_def hex_bytes_def hex_byte_def hexdigit_def put_be32_def put_le32_def char_of_def bit_0)

lemma ex_subnets: "subnets 0x0A000000 8 9 = [0x0A000000, 0x0A800000]"
  by (simp add: subnets_def block_def ex_mask upt_rec)

theorem find_first_free_lowest_witness:
  "FindFirstFree (ex_pool 9) (Some [''subnet-0a000000'']) = Some (Inr 0x0A800000)"
  using find_first_free_lowest [of "ex_pool 9" "0x0A000000" 8 9 "[''subnet-0a000000'']"]
  by (simp add: ex_pool_def ex_parse ex_subnets TrimPrefix_def HasPrefix_def flip: ex_hex)

text \<open>
  C17. Allocating an address refines its specification. Against a server that refuses existing names,
  whatever the (possibly stale) listing and however many concurrent claims it meets, the call
  returns; an address it returns for a peer without endpoint is the lowest one of the network that is
  neither listed nor claimed, is not the network, gateway or broadcast address, and is now claimed by
  this peer and no other change is made; the error means that every address is taken.
\<close>

theorem allocate_ip_refines:
  assumes "api_create objs endpoint_key create" and "ParseCIDR cidr = Some (ip, ones)" and "ones \<le> 30"
    and "find (\<lambda>a. e_PeerRef a = peer) existing = None"
  shows "\<exists>r s'. AllocateIP (Some existing) ref create cidr ns peer s = Some (r, s') \<and>
    ip_promise objs (set (map e_Name existing)) ns peer (Mask ip ones + 2) (Mask ip ones + push_bit (32 - ones) 1 - 2) s r s' \<and>
    unat (Mask ip ones + 2) = unat (Mask ip ones) + 2 \<and>
    unat (Mask ip ones + push_bit (32 - ones) 1 - 2) = unat (Mask ip ones) + 2 ^ (32 - ones) - 2"
  using claim_loop_promise [OF assms(1) host_range_not_last [OF assms(3), of ip], of ref _ ns peer "Mask ip ones + 2" s] assms(2,4)
    host_range [OF assms(3), of ip]
  by (simp add: AllocateIP_def)

text \<open>A server that keeps the created objects in a map.\<close>

definition ex_create :: "(string \<times> string \<rightharpoonup> LatticeEndpoint) \<Rightarrow> LatticeEndpoint \<Rightarrow>
    create_reply \<times> (string \<times> string \<rightharpoonup> LatticeEndpoint)" where
  "ex_create m ob = (if m (endpoint_key ob) = None then (Created, m(endpoint_key ob \<mapsto> ob)) else (AlreadyExists, m))"

lemma ex_law: "api_create (\<lambda>m. m) endpoint_key ex_create"
  by (simp add: api_create_def ex_create_def)

theorem allocate_ip_refines_witness:
  "\<exists>r s'. AllocateIP (Some []) True ex_create ''10.0.0.0/8'' ''ns'' ''p'' Map.empty = Some (r, s') \<and>
    ip_promise (\<lambda>m. m) {} ''ns'' ''p'' 0x0A000002 0x0AFFFFFE Map.empty r s'"
  using allocate_ip_refines [OF ex_law ex_parse, of "''p''" "[]" True "''ns''" Map.empty]
  by (simp add: ex_mask push_bit_eq_mult)

text \<open>
  A pool whose subnet size is not a prefix length hangs the allocator: with a size of zero, or
  beyond thirty-two, the step between blocks is zero, and as soon as the first block is taken the
  search never returns.
\<close>

lemma bad_mask_never_returns:
  assumes "ParseCIDR (pool_CIDR pool) = Some (ip, ones)" and "SubnetMask pool = 0 \<or> 32 < SubnetMask pool \<and> SubnetMask pool < 2 ^ 31"
    and "''subnet-'' @ ipToHex (Mask ip ones) \<in> set names"
  shows "FindFirstFree pool (Some names) = None"
proof -
  have "nextSubnet cur (SubnetMask pool) = cur" for cur
  proof (cases "SubnetMask pool = 0")
    case False
    define n where "n = nat (SubnetMask pool)"
    have n: "SubnetMask pool = int n" "32 < n" "n < 2 ^ 31" using assms(2) False by (auto simp: n_def)
    have "(32 - word_of_int (int n) :: 32 word) = of_nat (2 ^ 32 + 32) - of_nat n" by simp
    also have "\<dots> = of_nat (2 ^ 32 + 32 - n)" using n by (subst of_nat_diff) simp_all
    finally have eq: "(32 - word_of_int (int n) :: 32 word) = of_nat (2 ^ 32 + 32 - n)" .
    have "unat (32 - word_of_int (int n) :: 32 word) = 2 ^ 32 + 32 - n" unfolding eq by (rule of_nat_32) (use n in simp)
    then have "32 \<le> unat (32 - word_of_int (int n) :: 32 word)" using n by simp
    then show ?thesis unfolding nextSubnet_def n(1) by (simp add: push_bit_eq_mult exp_eq_zero_iff)
  qed (simp add: nextSubnet_def push_bit_eq_mult)
  moreover have "Contains (ip, ones) (Mask ip ones)" by (simp add: Contains_def Mask_def and.assoc)
  moreover have "ipToHex (Mask ip ones) \<in> (\<lambda>n. TrimPrefix n ''subnet-'') ` set names"
    by (rule image_eqI [OF _ assms(3)]) (simp add: TrimPrefix_def HasPrefix_def)
  ultimately show ?thesis using assms(1) free_loop_stuck by (simp add: FindFirstFree_def)
qed

end
