(* ===== verification/Netmap.thy ===== *)
theory Netmap
  imports Overlay6 PolicyEval SignalPackets "HOL-Library.List_Lexorder" "HOL-Library.Char_ord"
begin

text \<open>
  The netmap a standalone server hands to an agent, \<^verbatim>\<open>internal/server/reconcilers/netmap_builder.go\<close>,
  and the choice of peers on the cluster path, \<^verbatim>\<open>internal/agent/controller/peer_resolver.go\<close>.
  The repositories are the rows they return, \<^term>\<open>None\<close> an error of the query. Parameters are the
  JSON decoding of stored columns, the acceptance tests of Go's address parsers for both address
  families, the hash of the version and the label selectors of Kubernetes. Names are unique in a
  workspace, so sorting by name has one result.
\<close>

subsection \<open>Rows and builder\<close>

record peer_row =
  ID :: string
  WorkspaceID :: string
  p_Name :: string
  p_AppID :: string
  p_Token :: string
  p_PublicKey :: string
  p_PrivateKey :: string
  p_Address :: string
  p_Endpoint :: string
  p_Hostname :: string
  p_Platform :: string
  p_Labels :: string
  p_AdvertisedRoutes :: string
  p_ApprovalStatus :: string
  p_Disabled :: bool

definition ApprovalApproved :: string where
  "ApprovalApproved = ''approved''"

record NetmapBuilder =
  relayURL :: string
  selfRelayURL :: string
  providerLive :: "(string \<Rightarrow> bool) option"
  ipv6Enabled :: bool
  ipv6Egress :: "(string \<Rightarrow> bool) option"

record netmap_env =
  routes_json :: "string \<Rightarrow> string list option"
  labels_json :: "string \<Rightarrow> string \<rightharpoonup> string"
  spec_json :: "string \<Rightarrow> PolicySpec option"
  cidr_ok :: "string \<Rightarrow> bool"
  ip_ok :: "string \<Rightarrow> bool"
  hash :: "Peer \<Rightarrow> Network \<Rightarrow> Policy list \<Rightarrow> FirewallRule \<Rightarrow> string"
  order :: "decisions \<Rightarrow> decisions"

subsection \<open>Addresses\<close>

definition overlayCIDRBase :: string where
  "overlayCIDRBase = ''10.96.0.''"

definition AllocateAddress :: "string list \<Rightarrow> string option" where
  "AllocateAddress taken = find (\<lambda>c. c \<notin> set taken) (map (\<lambda>i. overlayCIDRBase @ Itoa i) [2..<255])"

subsection \<open>Wire peers\<close>

definition parseAdvertisedRoutes :: "netmap_env \<Rightarrow> string \<Rightarrow> string list" where
  "parseAdvertisedRoutes env raw =
     (if raw = '''' then []
      else (case routes_json env raw of None \<Rightarrow> [] | Some routes \<Rightarrow> filter (cidr_ok env) routes))"

definition dbToInfraPeer :: "netmap_env \<Rightarrow> peer_row \<Rightarrow> Peer" where
  "dbToInfraPeer env p =
     zero_Peer\<lparr>Name := p_Name p, AppID := p_AppID p, Address := Some (p_Address p), Endpoint := p_Endpoint p,
       Hostname := p_Hostname p, Platform := p_Platform p, NetworkId := WorkspaceID p, PublicKey := p_PublicKey p,
       ApprovalStatus := p_ApprovalStatus p, AdvertisedRoutes := parseAdvertisedRoutes env (p_AdvertisedRoutes p),
       Labels := (if p_Labels p \<noteq> '''' then labels_json env (p_Labels p) else Map.empty),
       AllowedIPs := (if ip_ok env (p_Address p) then p_Address p @ ''/32'' else '''')\<rparr>"

definition toInfraPeer :: "netmap_env \<Rightarrow> NetmapBuilder \<Rightarrow> peer_row \<Rightarrow> Peer" where
  "toInfraPeer env b p =
     (let peer = dbToInfraPeer env p
      in if ipv6Enabled b \<and> AllowedIPs peer \<noteq> '''' then peer\<lparr>AllowedIPs := HostAllowedIPs (p_Address p) True\<rparr> else peer)"

definition providerRoutes :: "netmap_env \<Rightarrow> NetmapBuilder \<Rightarrow> peer_row \<Rightarrow> string list" where
  "providerRoutes env b row =
     (let extra = parseAdvertisedRoutes env (p_AdvertisedRoutes row)
      in if extra = [] \<or> \<not> ipv6Enabled b \<or> (case ipv6Egress b of None \<Rightarrow> True | Some f \<Rightarrow> \<not> f (p_AppID row)) then extra
         else if ''0.0.0.0/0'' \<in> set extra then extra @ [''::/0''] else extra)"

definition visible :: "peer_row \<Rightarrow> bool" where
  "visible row \<longleftrightarrow> (p_ApprovalStatus row = '''' \<or> p_ApprovalStatus row = ApprovalApproved) \<and> p_Address row \<noteq> ''''"

definition netmap_peer :: "netmap_env \<Rightarrow> NetmapBuilder \<Rightarrow> string set \<Rightarrow> peer_row \<Rightarrow> Peer" where
  "netmap_peer env b selected row =
     (let p = toInfraPeer env b row;
          p1 = (if relayURL b \<noteq> '''' then p\<lparr>RelayURL := relayURL b\<rparr> else p)
      in if ID row \<in> selected \<and> (case providerLive b of None \<Rightarrow> True | Some live \<Rightarrow> live (p_AppID row)) \<and>
            providerRoutes env b row \<noteq> []
         then p1\<lparr>AllowedIPs := Join (CHR '','') (AllowedIPs p1 # providerRoutes env b row)\<rparr> else p1)"

subsection \<open>Messages\<close>

record netmap_rows =
  peers_q :: "peer_row list option"
  policies_q :: "policy_row list option"
  identities_q :: "identity_row option list option"
  selections_q :: "string list option"

definition current_peer :: "netmap_env \<Rightarrow> NetmapBuilder \<Rightarrow> peer_row \<Rightarrow> Peer" where
  "current_peer env b pr =
     (let c = (toInfraPeer env b pr)\<lparr>PrivateKey := p_PrivateKey pr\<rparr>
      in if selfRelayURL b \<noteq> '''' then c\<lparr>RelayURL := selfRelayURL b\<rparr> else c)"

definition BuildForPeer :: "netmap_env \<Rightarrow> NetmapBuilder \<Rightarrow> netmap_rows \<Rightarrow> time \<Rightarrow> time \<Rightarrow> peer_row \<Rightarrow> Message option" where
  "BuildForPeer env b q now later pr =
     (case (peers_q q, policies_q q, identities_q q, selections_q q) of
        (Some rows, Some policies, Some identities, Some selected) \<Rightarrow>
          let current = current_peer env b pr;
              shown = filter visible rows;
              network = zero_Network\<lparr>n_NetworkId := WorkspaceID pr, NetworkName := WorkspaceID pr,
                Peers := sort_key Name (map (netmap_peer env b (set selected)) shown)\<rparr>;
              computed = map (netmap_peer env b (set selected)) (filter (\<lambda>r. ID r \<noteq> ID pr) shown);
              byName = NewPolicyIdentityResolver identities
          in (case BuildWirePolicies (spec_json env) byName now policies of
                None \<Rightarrow> None
              | Some wire \<Rightarrow>
                  (case ComputeForPeer (spec_json env) byName later (order env) policies (Peers network) current of
                     None \<Rightarrow> None
                   | Some rules \<Rightarrow>
                       Some \<lparr>EventType = EventTypeNodeUpdate, ConfigVersion = hash env current network wire rules,
                         Timestamp = later div Second, Changes = None, Current = Some current, m_Network = Some network,
                         Policies = wire, ComputedPeers = computed, ComputedRules = Some rules, m_Labels = Map.empty\<rparr>))
      | _ \<Rightarrow> None)"

definition pendingMessage :: "netmap_env \<Rightarrow> peer_row \<Rightarrow> Message" where
  "pendingMessage env pr =
     \<lparr>EventType = EventTypeJoinNetwork, ConfigVersion = '''', Timestamp = 0, Changes = None,
      Current = Some ((dbToInfraPeer env pr)\<lparr>Address := Some '''', PrivateKey := p_PrivateKey pr\<rparr>),
      m_Network = None, Policies = [], ComputedPeers = [], ComputedRules = None, m_Labels = Map.empty\<rparr>"

definition BuildForAppID ::
  "netmap_env \<Rightarrow> NetmapBuilder \<Rightarrow> (string \<Rightarrow> peer_row option) \<Rightarrow> netmap_rows \<Rightarrow> time \<Rightarrow> time \<Rightarrow> string \<Rightarrow> string \<Rightarrow> Message option" where
  "BuildForAppID env b getByAppID q now later appID token =
     (case getByAppID appID of
        None \<Rightarrow> None
      | Some pr \<Rightarrow>
          if p_Token pr = '''' \<or> token = '''' \<or> p_Token pr \<noteq> token then None
          else if p_Disabled pr then None
          else if p_ApprovalStatus pr \<noteq> '''' \<and> p_ApprovalStatus pr \<noteq> ApprovalApproved then Some (pendingMessage env pr)
          else BuildForPeer env b q now later pr)"

subsection \<open>Peers on the cluster path\<close>

record cluster_policy =
  cp_PeerSelector :: LabelSelector
  cp_Ingress :: "PeerSelection list list"
  cp_Egress :: "PeerSelection list list"

text \<open>
  \<open>asSelector\<close> turns a selector into a test of labels; \<^term>\<open>None\<close> is its error, which the code drops
  and then calls a nil selector. \<^term>\<open>None\<close> as a result stands for that panic.
\<close>

type_synonym selectors = "LabelSelector option \<Rightarrow> ((string \<rightharpoonup> string) \<Rightarrow> bool) option"

definition resolveSelectionToPeers :: "selectors \<Rightarrow> PeerSelection \<Rightarrow> Peer list \<Rightarrow> Peer list option" where
  "resolveSelectionToPeers asSelector sel all =
     (if all = [] then Some []
      else map_option (\<lambda>m. filter (\<lambda>p. m (Labels p)) all) (asSelector (s_PeerSelector sel)))"

fun resolve_all :: "selectors \<Rightarrow> Peer list \<Rightarrow> PeerSelection list \<Rightarrow> Peer list option" where
  "resolve_all asSelector all [] = Some []"
| "resolve_all asSelector all (sel # sels) =
     (case resolveSelectionToPeers asSelector sel all of
        None \<Rightarrow> None
      | Some ps \<Rightarrow> map_option (\<lambda>rest. ps @ rest) (resolve_all asSelector all sels))"

definition add_peers :: "Peer \<Rightarrow> (string \<times> Peer) list \<Rightarrow> Peer list \<Rightarrow> (string \<times> Peer) list" where
  "add_peers cur m ps = foldl (\<lambda>m p. if Name p \<noteq> Name cur then AList.update (Name p) p m else m) m ps"

fun computed_map ::
  "selectors \<Rightarrow> Peer \<Rightarrow> Peer list \<Rightarrow> (string \<times> Peer) list \<Rightarrow> cluster_policy list \<Rightarrow> (string \<times> Peer) list option" where
  "computed_map asSelector cur all m [] = Some m"
| "computed_map asSelector cur all m (p # ps) =
     (case asSelector (Some (cp_PeerSelector p)) of
        None \<Rightarrow> None
      | Some sel \<Rightarrow>
          if \<not> sel (Labels cur) then computed_map asSelector cur all m ps
          else (case resolve_all asSelector all (concat (cp_Egress p) @ concat (cp_Ingress p)) of
                  None \<Rightarrow> None
                | Some found \<Rightarrow>
                    (let m1 = add_peers cur m found; m2 = (if m1 = [] then add_peers cur m1 all else m1)
                     in computed_map asSelector cur all m2 ps)))"

definition GetComputedPeers :: "selectors \<Rightarrow> Peer \<Rightarrow> Network \<Rightarrow> cluster_policy list \<Rightarrow> Peer list option" where
  "GetComputedPeers asSelector cur net policies =
     map_option (\<lambda>m. sort_key Name (map snd m)) (computed_map asSelector cur (Peers net) [] policies)"

subsection \<open>Lemmas\<close>

lemma find_map_upt:
  "find P (map f [a..<b]) = Some c \<longleftrightarrow>
     (\<exists>i. a \<le> i \<and> i < b \<and> c = f i \<and> P (f i) \<and> (\<forall>j. a \<le> j \<and> j < i \<longrightarrow> \<not> P (f j)))" (is "_ = ?R a")
  "find P (map f [a..<b]) = None \<longleftrightarrow> (\<forall>i. a \<le> i \<and> i < b \<longrightarrow> \<not> P (f i))"
proof -
  show "find P (map f [a..<b]) = Some c \<longleftrightarrow> ?R a"
  proof (induction "b - a" arbitrary: a)
    case (Suc n)
    then have IH: "find P (map f [Suc a..<b]) = Some c \<longleftrightarrow> ?R (Suc a)" by simp
    have ab: "a < b" using Suc by simp
    show ?case
    proof (cases "P (f a)")
      case True
      then show ?thesis using ab by (auto simp: upt_conv_Cons) (metis order_refl le_neq_implies_less)
    next
      case False
      then have "?R a \<longleftrightarrow> ?R (Suc a)" by (metis Suc_leD Suc_le_eq le_neq_implies_less)
      then show ?thesis using IH False ab by (simp add: upt_conv_Cons)
    qed
  qed auto
qed (auto simp: find_None_iff)

text \<open>The lowest free address of the block, and the error exactly when all 253 are taken.\<close>

lemmas allocate_address = find_map_upt [of "\<lambda>c. c \<notin> set taken" "\<lambda>i. overlayCIDRBase @ Itoa i" 2 255 for taken,
  folded AllocateAddress_def]

definition secret_free :: "NetmapBuilder \<Rightarrow> Peer \<Rightarrow> bool" where
  "secret_free b p \<longleftrightarrow> PrivateKey p = [] \<and> PresharedKey p = [] \<and> Token p = [] \<and> RelayURL p \<in> {[], relayURL b}"

lemma netmap_peer_secret_free: "secret_free b (netmap_peer env b sel row)"
  by (simp add: secret_free_def netmap_peer_def toInfraPeer_def dbToInfraPeer_def zero_Peer_def Let_def)

lemma netmap_peer_identity: "AppID (netmap_peer env b sel row) = p_AppID row" "PublicKey (netmap_peer env b sel row) = p_PublicKey row"
  by (simp_all add: netmap_peer_def toInfraPeer_def dbToInfraPeer_def Let_def)

lemma current_peer_own: "PrivateKey (current_peer env b row) = p_PrivateKey row" "Token (current_peer env b row) = []"
  by (simp_all add: current_peer_def toInfraPeer_def dbToInfraPeer_def zero_Peer_def Let_def)

text \<open>What the message of an agent may contain, given the row of the agent and the workspace rows.\<close>

definition netmap_ok :: "NetmapBuilder \<Rightarrow> peer_row list \<Rightarrow> peer_row \<Rightarrow> Message \<Rightarrow> bool" where
  "netmap_ok b rows me msg \<longleftrightarrow>
     (\<exists>c. Current msg = Some c \<and> PrivateKey c = p_PrivateKey me \<and> Token c = []) \<and>
     (\<forall>p \<in> set (case m_Network msg of None \<Rightarrow> [] | Some n \<Rightarrow> Peers n) \<union> set (ComputedPeers msg).
        secret_free b p \<and> (\<exists>r \<in> set rows. visible r \<and> AppID p = p_AppID r \<and> PublicKey p = p_PublicKey r))"

lemma BuildForPeer_ok:
  assumes "BuildForPeer env b q now later me = Some msg" and "peers_q q = Some rows"
  shows "netmap_ok b rows me msg"
proof -
  obtain sel where msg: "Current msg = Some (current_peer env b me)"
    "m_Network msg = Some (zero_Network\<lparr>n_NetworkId := WorkspaceID me, NetworkName := WorkspaceID me,
       Peers := sort_key Name (map (netmap_peer env b sel) (filter visible rows))\<rparr>)"
    "ComputedPeers msg = map (netmap_peer env b sel) (filter (\<lambda>r. ID r \<noteq> ID me) (filter visible rows))"
    using assms by (auto simp: BuildForPeer_def Let_def split: option.splits)
  have sub: "set (case m_Network msg of None \<Rightarrow> [] | Some n \<Rightarrow> Peers n) \<union> set (ComputedPeers msg)
      \<subseteq> netmap_peer env b sel ` {r \<in> set rows. visible r}"
    by (auto simp: msg)
  show ?thesis
    unfolding netmap_ok_def
  proof (intro conjI ballI)
    show "\<exists>c. Current msg = Some c \<and> PrivateKey c = p_PrivateKey me \<and> Token c = []"
      using msg(1) current_peer_own by simp
    fix p assume "p \<in> set (case m_Network msg of None \<Rightarrow> [] | Some n \<Rightarrow> Peers n) \<union> set (ComputedPeers msg)"
    then obtain r where r: "r \<in> set rows" "visible r" "p = netmap_peer env b sel r" using sub by blast
    show "secret_free b p" unfolding r(3) by (rule netmap_peer_secret_free)
    show "\<exists>r \<in> set rows. visible r \<and> AppID p = p_AppID r \<and> PublicKey p = p_PublicKey r"
      using r(1,2) unfolding r(3) by (intro bexI [of _ r]) (simp_all add: netmap_peer_identity)
  qed
qed

text \<open>Every computed peer of the cluster path is another peer of the network.\<close>

lemma add_peers_in: "kp \<in> set (add_peers cur m ps) \<Longrightarrow> kp \<in> set m \<or> snd kp \<in> set ps \<and> Name (snd kp) \<noteq> Name cur"
proof (induction ps arbitrary: m)
  case (Cons p ps)
  let ?m = "if Name p \<noteq> Name cur then AList.update (Name p) p m else m"
  have "kp \<in> set (add_peers cur ?m ps)" using Cons.prems by (simp add: add_peers_def)
  from Cons.IH [OF this] have "kp \<in> set ?m \<or> snd kp \<in> set ps \<and> Name (snd kp) \<noteq> Name cur" .
  moreover have "kp \<in> set m \<or> kp = (Name p, p)" if "kp \<in> set (AList.update (Name p) p m)"
    using that by (induction m) (auto split: if_splits)
  ultimately show ?case by (auto split: if_splits)
qed (simp add: add_peers_def)

lemma resolve_all_in: "resolve_all asel all sels = Some ps \<Longrightarrow> set ps \<subseteq> set all"
proof (induction sels arbitrary: ps)
  case (Cons sel sels)
  then obtain x y where "resolveSelectionToPeers asel sel all = Some x" "resolve_all asel all sels = Some y" "ps = x @ y"
    by (auto split: option.splits)
  then show ?case using Cons.IH by (auto simp: resolveSelectionToPeers_def split: if_splits)
qed simp

lemma computed_map_in:
  assumes "computed_map asel cur all m ps = Some m'" and "\<forall>kp \<in> set m. snd kp \<in> set all \<and> Name (snd kp) \<noteq> Name cur"
  shows "\<forall>kp \<in> set m'. snd kp \<in> set all \<and> Name (snd kp) \<noteq> Name cur"
  using assms
proof (induction ps arbitrary: m)
  case (Cons p ps)
  obtain sel where sel: "asel (Some (cp_PeerSelector p)) = Some sel" using Cons.prems(1) by (auto split: option.splits)
  show ?case
  proof (cases "sel (Labels cur)")
    case True
    then obtain found where f: "resolve_all asel all (concat (cp_Egress p) @ concat (cp_Ingress p)) = Some found"
      using Cons.prems(1) sel by (auto split: option.splits)
    define m1 where "m1 = add_peers cur m found"
    define m2 where "m2 = (if m1 = [] then add_peers cur m1 all else m1)"
    have "\<forall>kp \<in> set m1. snd kp \<in> set all \<and> Name (snd kp) \<noteq> Name cur"
      using add_peers_in [of _ cur m found] Cons.prems(2) resolve_all_in [OF f] unfolding m1_def by blast
    then have "\<forall>kp \<in> set m2. snd kp \<in> set all \<and> Name (snd kp) \<noteq> Name cur"
      using add_peers_in [of _ cur m1 all] unfolding m2_def by (cases "m1 = []") auto
    moreover have "computed_map asel cur all m2 ps = Some m'"
      using Cons.prems(1) sel True f by (auto simp: m1_def m2_def Let_def split: if_splits)
    ultimately show ?thesis using Cons.IH by blast
  next
    case False
    then show ?thesis using Cons sel by simp
  qed
qed simp

lemma computed_peers_others:
  "GetComputedPeers asel cur net ps = Some out \<Longrightarrow> set out \<subseteq> {p \<in> set (Peers net). Name p \<noteq> Name cur}"
  using computed_map_in [of asel cur "Peers net" "[]" ps] by (auto simp: GetComputedPeers_def)

subsection \<open>Properties\<close>

text \<open>
  C4. The netmap endpoint gives nothing away. A message is built only for a known, enabled agent that
  presents its own non-empty token; an agent that is not approved gets no network, peers or rules; and
  whatever is built describes only approved peers with an address, none of whose entries carries a
  private or preshared key, a registration token or the relay address with the caller's credentials,
  while the agent's own record carries its own key.
\<close>

theorem netmap_no_leak:
  assumes "BuildForAppID env b getByAppID q now later appID token = Some msg"
  shows "\<exists>me. getByAppID appID = Some me \<and> token \<noteq> [] \<and> p_Token me = token \<and> \<not> p_Disabled me \<and>
    netmap_ok b (case peers_q q of None \<Rightarrow> [] | Some rows \<Rightarrow> rows) me msg \<and>
    (p_ApprovalStatus me \<notin> {[], ApprovalApproved} \<longrightarrow>
       m_Network msg = None \<and> ComputedPeers msg = [] \<and> Policies msg = [] \<and> ComputedRules msg = None)"
proof -
  obtain me where me: "getByAppID appID = Some me" "token \<noteq> []" "p_Token me = token" "\<not> p_Disabled me"
    using assms by (auto simp: BuildForAppID_def split: option.splits if_splits)
  show ?thesis
  proof (cases "p_ApprovalStatus me \<in> {[], ApprovalApproved}")
    case True
    then have build: "BuildForPeer env b q now later me = Some msg" using assms me by (auto simp: BuildForAppID_def)
    then obtain rows where "peers_q q = Some rows" by (auto simp: BuildForPeer_def split: option.splits)
    then show ?thesis using me True BuildForPeer_ok [OF build] by auto
  next
    case False
    then have "msg = pendingMessage env me" using assms me by (auto simp: BuildForAppID_def)
    then show ?thesis using me False by (simp add: netmap_ok_def pendingMessage_def dbToInfraPeer_def zero_Peer_def)
  qed
qed

definition ex_row :: "string \<Rightarrow> string \<Rightarrow> peer_row" where
  "ex_row n st = \<lparr>ID = n, WorkspaceID = ''w'', p_Name = n, p_AppID = n, p_Token = ''t'', p_PublicKey = ''k'', p_PrivateKey = ''s'',
     p_Address = ''10.96.0.2'', p_Endpoint = '''', p_Hostname = '''', p_Platform = ''linux'', p_Labels = '''',
     p_AdvertisedRoutes = '''', p_ApprovalStatus = st, p_Disabled = False\<rparr>"

definition ex_nenv :: netmap_env where
  "ex_nenv = \<lparr>routes_json = (\<lambda>_. None), labels_json = (\<lambda>_. Map.empty), spec_json = (\<lambda>_. None), cidr_ok = (\<lambda>_. True),
     ip_ok = (\<lambda>_. True), hash = (\<lambda>_ _ _ _. ''v''), order = id\<rparr>"

definition ex_builder :: NetmapBuilder where
  "ex_builder = \<lparr>relayURL = ''r'', selfRelayURL = ''r?t'', providerLive = None, ipv6Enabled = False, ipv6Egress = None\<rparr>"

definition ex_rows :: netmap_rows where
  "ex_rows = \<lparr>peers_q = Some [ex_row ''a'' ''approved'', ex_row ''b'' ''pending''], policies_q = Some [], identities_q = Some [],
     selections_q = Some []\<rparr>"

theorem netmap_no_leak_witness:
  "\<exists>msg. BuildForAppID ex_nenv ex_builder (\<lambda>_. Some (ex_row ''a'' ''approved'')) ex_rows 0 0 ''a'' ''t'' = Some msg \<and>
     netmap_ok ex_builder [ex_row ''a'' ''approved'', ex_row ''b'' ''pending''] (ex_row ''a'' ''approved'') msg"
proof -
  obtain msg where msg: "BuildForAppID ex_nenv ex_builder (\<lambda>_. Some (ex_row ''a'' ''approved'')) ex_rows 0 0 ''a'' ''t'' = Some msg"
    by (simp add: BuildForAppID_def ex_row_def ApprovalApproved_def BuildForPeer_def ex_rows_def ComputeForPeer_def Evaluate_def Let_def)
  from netmap_no_leak [OF msg] msg show ?thesis by (auto simp: ex_rows_def)
qed

end
