(* ===== verification/Enrollment.thy ===== *)
theory Enrollment
  imports Netmap
begin

text \<open>
  The registry of a standalone server: registration with an enrollment token, approval, disabling and
  deletion of peers, \<^verbatim>\<open>internal/server/service/peer.go\<close>, over the tables of
  \<^verbatim>\<open>internal/db/gormstore\<close>. A registration is cut where another handler can run, between its reads
  and its first write. Key parsing and generation, drawn identifiers, the license and the
  workspace row are parameters; so are the store calls that fail. The time columns are left out.
\<close>

subsection \<open>Tables\<close>

definition ApprovalPending :: string where "ApprovalPending = ''pending''"
definition ApprovalRevoked :: string where "ApprovalRevoked = ''revoked''"

record EnrollmentToken =
  tok_ID :: string
  tok_Token :: string
  tok_WorkspaceID :: string
  tok_ExpiresAt :: time
  UsageLimit :: int
  UsedCount :: int

record registry =
  reg_peers :: "peer_row list"
  reg_tokens :: "EnrollmentToken list"

definition GetByToken :: "string \<Rightarrow> registry \<Rightarrow> EnrollmentToken option" where
  "GetByToken t r = find (\<lambda>k. tok_Token k = t) (reg_tokens r)"

definition GetByAppID :: "string \<Rightarrow> registry \<Rightarrow> peer_row option" where
  "GetByAppID a r = find (\<lambda>p. p_AppID p = a) (reg_peers r)"

definition ListByWorkspace :: "string \<Rightarrow> registry \<Rightarrow> peer_row list" where
  "ListByWorkspace w r = filter (\<lambda>p. WorkspaceID p = w) (reg_peers r)"

text \<open>
  \<open>Save\<close> writes every column of the row with that primary key, or inserts it; workspace and name are
  a unique index. For the operations of administrators \<open>up\<close> says whether the store answers.
\<close>

definition Update_peer :: "peer_row \<Rightarrow> registry \<Rightarrow> registry option" where
  "Update_peer p r =
     (if list_ex (\<lambda>x. ID x \<noteq> ID p \<and> WorkspaceID x = WorkspaceID p \<and> p_Name x = p_Name p) (reg_peers r) then None
      else if list_ex (\<lambda>x. ID x = ID p) (reg_peers r)
      then Some (r\<lparr>reg_peers := map (\<lambda>x. if ID x = ID p then p else x) (reg_peers r)\<rparr>)
      else Some (r\<lparr>reg_peers := reg_peers r @ [p]\<rparr>))"

definition Delete_peer :: "string \<Rightarrow> registry \<Rightarrow> registry" where
  "Delete_peer i r = r\<lparr>reg_peers := filter (\<lambda>x. ID x \<noteq> i) (reg_peers r)\<rparr>"

definition IncrementUsedCount :: "string \<Rightarrow> registry \<Rightarrow> registry" where
  "IncrementUsedCount i r =
     r\<lparr>reg_tokens := map (\<lambda>k. if tok_ID k = i then k\<lparr>UsedCount := UsedCount k + 1\<rparr> else k) (reg_tokens r)\<rparr>"

subsection \<open>Registration\<close>

definition safe_char :: "char \<Rightarrow> bool" where
  "safe_char c \<longleftrightarrow> (let n = of_char c :: nat in (48 \<le> n \<and> n \<le> 57) \<or> (65 \<le> n \<and> n \<le> 90) \<or> (97 \<le> n \<and> n \<le> 122)) \<or>
     c \<in> {CHR ''.'', CHR ''_'', CHR ''-''}"

text \<open>Every maximal run of other characters becomes one dash.\<close>

fun collapse :: "bool \<Rightarrow> string \<Rightarrow> string" where
  "collapse in_run [] = []"
| "collapse in_run (c # cs) =
     (if safe_char c then c # collapse False cs else if in_run then collapse True cs else CHR ''-'' # collapse True cs)"

definition NormalizeAppID :: "string \<Rightarrow> string" where
  "NormalizeAppID i = collapse False (TrimSpace i)"

record PeerDto =
  d_AppID :: string
  d_Name :: string
  d_Token :: string
  d_PublicKey :: string
  d_Endpoint :: string
  d_Hostname :: string
  d_Platform :: string

datatype ws_lookup = WsError | WsMissing | WsFound bool

record reg_env =
  workspace_row :: ws_lookup
  MaxNodes :: "int option"
  ParseKey_ok :: "string \<Rightarrow> bool"
  GeneratePrivateKey :: "(string \<times> string) option"
  new_ID :: string
  reg_relayURL :: string
  lookup_fails :: bool
  list_fails :: bool
  save_fails :: bool
  inc_fails :: bool

datatype reg_error = TokenEmpty | TokenNotExists | TokenExpired | BoundElsewhere | NodeLimit | UsageLimitReached | NoFreeAddress
  | MustPresentKey | InvalidKey | KeyMismatch | KeyGenFailed | RegStoreError | PeerNotFound | InvalidStatus

definition checkNodeLimitStandalone :: "reg_env \<Rightarrow> registry \<Rightarrow> reg_error option" where
  "checkNodeLimitStandalone e r =
     (case MaxNodes e of
        None \<Rightarrow> None
      | Some n \<Rightarrow> if n \<le> 0 then None
                  else if list_fails e then Some RegStoreError
                  else if int (length (reg_peers r)) \<ge> n then Some NodeLimit else None)"

definition admit :: "reg_env \<Rightarrow> time \<Rightarrow> PeerDto \<Rightarrow> registry \<Rightarrow> reg_error + EnrollmentToken \<times> peer_row option" where
  "admit e now dto r =
     (if d_Token dto = [] then Inl TokenEmpty
      else case GetByToken (d_Token dto) r of
             None \<Rightarrow> Inl TokenNotExists
           | Some tok \<Rightarrow>
               if lookup_fails e then Inl RegStoreError
               else let existing = GetByAppID (NormalizeAppID (d_AppID dto)) r;
                        resumesOwnPeer = (case existing of None \<Rightarrow> False | Some p \<Rightarrow> p_Token p \<noteq> [] \<and> p_Token p = d_Token dto)
                    in if tok_ExpiresAt tok < now \<and> \<not> resumesOwnPeer then Inl TokenExpired
                       else if workspace_row e = WsError then Inl RegStoreError
                       else (case existing of
                               Some p \<Rightarrow> if WorkspaceID p \<noteq> tok_WorkspaceID tok then Inl BoundElsewhere else Inr (tok, Some p)
                             | None \<Rightarrow>
                                 (case checkNodeLimitStandalone e r of
                                    Some err \<Rightarrow> Inl err
                                  | None \<Rightarrow> if UsageLimit tok > 0 \<and> UsedCount tok \<ge> UsageLimit tok then Inl UsageLimitReached
                                            else Inr (tok, None))))"

definition first_row :: "reg_env \<Rightarrow> PeerDto \<Rightarrow> EnrollmentToken \<Rightarrow> registry \<Rightarrow> reg_error + peer_row" where
  "first_row e dto tok r =
     (let app = NormalizeAppID (d_AppID dto);
          p = \<lparr>ID = new_ID e, WorkspaceID = tok_WorkspaceID tok, p_Name = (if d_Name dto \<noteq> [] then d_Name dto else app), p_AppID = app,
               p_Token = d_Token dto, p_PublicKey = [], p_PrivateKey = [], p_Address = [], p_Endpoint = [], p_Hostname = [],
               p_Platform = [], p_Labels = [], p_AdvertisedRoutes = [], p_ApprovalStatus = ApprovalApproved, p_Disabled = False\<rparr>
      in if workspace_row e = WsFound True then Inr (p\<lparr>p_ApprovalStatus := ApprovalPending\<rparr>)
         else if list_fails e then Inl RegStoreError
         else (case AllocateAddress (map p_Address (ListByWorkspace (tok_WorkspaceID tok) r)) of
                 None \<Rightarrow> Inl NoFreeAddress
               | Some a \<Rightarrow> Inr (p\<lparr>p_Address := a\<rparr>)))"

definition settle_key :: "reg_env \<Rightarrow> PeerDto \<Rightarrow> peer_row \<Rightarrow> reg_error + peer_row" where
  "settle_key e dto p =
     (if d_PublicKey dto = [] \<and> p_PublicKey p \<noteq> [] \<and> p_PrivateKey p = [] then Inl MustPresentKey
      else if d_PublicKey dto \<noteq> []
      then (if \<not> ParseKey_ok e (d_PublicKey dto) then Inl InvalidKey
            else if p_PublicKey p \<noteq> [] \<and> p_PublicKey p \<noteq> d_PublicKey dto \<and> p_PrivateKey p = [] then Inl KeyMismatch
            else Inr (p\<lparr>p_PublicKey := d_PublicKey dto, p_PrivateKey := []\<rparr>))
      else if p_PrivateKey p \<noteq> [] then Inr p
      else (case GeneratePrivateKey e of
              None \<Rightarrow> Inl KeyGenFailed
            | Some (priv, pub) \<Rightarrow> Inr (p\<lparr>p_PrivateKey := priv, p_PublicKey := pub\<rparr>)))"

definition refresh_row :: "PeerDto \<Rightarrow> peer_row \<Rightarrow> peer_row" where
  "refresh_row dto p =
     p\<lparr>p_Endpoint := d_Endpoint dto, p_Hostname := d_Hostname dto, p_Platform := d_Platform dto,
       p_Name := (if p_Name p = [] then (if d_Name dto \<noteq> [] then d_Name dto else NormalizeAppID (d_AppID dto)) else p_Name p)\<rparr>"

text \<open>The read half ends with the token, whether the peer is new, and the row to write.\<close>

definition register_read :: "reg_env \<Rightarrow> time \<Rightarrow> PeerDto \<Rightarrow> registry \<Rightarrow> reg_error + EnrollmentToken \<times> bool \<times> peer_row" where
  "register_read e now dto r =
     (case admit e now dto r of
        Inl err \<Rightarrow> Inl err
      | Inr (tok, existing) \<Rightarrow>
          (case (case existing of Some p \<Rightarrow> Inr p | None \<Rightarrow> first_row e dto tok r) of
             Inl err \<Rightarrow> Inl err
           | Inr p \<Rightarrow>
               (case settle_key e dto p of
                  Inl err \<Rightarrow> Inl err
                | Inr p1 \<Rightarrow> Inr (tok, existing = None, refresh_row dto p1))))"

definition node_of :: "reg_env \<Rightarrow> peer_row \<Rightarrow> Peer" where
  "node_of e p =
     zero_Peer\<lparr>Name := p_Name p, AppID := p_AppID p, Token := p_Token p, PrivateKey := p_PrivateKey p, PublicKey := p_PublicKey p,
       Endpoint := p_Endpoint p, Hostname := p_Hostname p, Platform := p_Platform p, NetworkId := WorkspaceID p,
       RelayURL := reg_relayURL e, ApprovalStatus := p_ApprovalStatus p,
       Address := (if p_Address p \<noteq> [] then Some (p_Address p) else None)\<rparr>"

definition register_write ::
  "reg_env \<Rightarrow> EnrollmentToken \<times> bool \<times> peer_row \<Rightarrow> registry \<Rightarrow> (reg_error + Peer) \<times> registry" where
  "register_write e w r =
     (case w of (tok, new, p) \<Rightarrow>
        if save_fails e then (Inl RegStoreError, r)
        else (case Update_peer p r of
                None \<Rightarrow> (Inl RegStoreError, r)
              | Some r1 \<Rightarrow>
                  if new \<and> inc_fails e then (Inl RegStoreError, r1)
                  else (Inr (node_of e p), if new then IncrementUsedCount (tok_ID tok) r1 else r1)))"

definition registerStandalone :: "reg_env \<Rightarrow> time \<Rightarrow> PeerDto \<Rightarrow> registry \<Rightarrow> (reg_error + Peer) \<times> registry" where
  "registerStandalone e now dto r =
     (case register_read e now dto r of Inl err \<Rightarrow> (Inl err, r) | Inr w \<Rightarrow> register_write e w r)"

subsection \<open>Administration\<close>

definition standalonePeerByName :: "string \<Rightarrow> string \<Rightarrow> registry \<Rightarrow> peer_row option" where
  "standalonePeerByName w name r = find (\<lambda>p. p_Name p = name) (ListByWorkspace w r)"

definition update_result :: "bool \<Rightarrow> peer_row \<Rightarrow> registry \<Rightarrow> (reg_error + unit) \<times> registry" where
  "update_result up p r = (case (if up then Update_peer p r else None) of None \<Rightarrow> (Inl RegStoreError, r) | Some r1 \<Rightarrow> (Inr (), r1))"

definition approval_row :: "string \<Rightarrow> registry \<Rightarrow> string \<Rightarrow> peer_row \<Rightarrow> reg_error + peer_row" where
  "approval_row w r st p =
     (let p1 = p\<lparr>p_Disabled := (if st = ApprovalRevoked then True
                else if p_ApprovalStatus p = ApprovalRevoked then False else p_Disabled p), p_ApprovalStatus := st\<rparr>
      in if st = ApprovalApproved \<and> p_Address p = []
         then (case AllocateAddress (map p_Address (ListByWorkspace w r)) of
                 None \<Rightarrow> Inl NoFreeAddress
               | Some a \<Rightarrow> Inr (p1\<lparr>p_Address := a\<rparr>))
         else Inr p1)"

definition SetPeerApproval :: "bool \<Rightarrow> string \<Rightarrow> string \<Rightarrow> string \<Rightarrow> registry \<Rightarrow> (reg_error + unit) \<times> registry" where
  "SetPeerApproval up w name st r =
     (if st \<noteq> ApprovalApproved \<and> st \<noteq> ApprovalRevoked then (Inl InvalidStatus, r)
      else case standalonePeerByName w name r of
             None \<Rightarrow> (Inl PeerNotFound, r)
           | Some p \<Rightarrow> (case approval_row w r st p of Inl err \<Rightarrow> (Inl err, r) | Inr p1 \<Rightarrow> update_result up p1 r))"

definition setPeerDisabledStandalone :: "bool \<Rightarrow> string \<Rightarrow> string \<Rightarrow> bool \<Rightarrow> registry \<Rightarrow> (reg_error + unit) \<times> registry" where
  "setPeerDisabledStandalone up w name disabled r =
     (case standalonePeerByName w name r of
        None \<Rightarrow> (Inl PeerNotFound, r)
      | Some p \<Rightarrow> update_result up (p\<lparr>p_Disabled := disabled\<rparr>) r)"

definition DeletePeer :: "bool \<Rightarrow> string \<Rightarrow> string \<Rightarrow> registry \<Rightarrow> (reg_error + unit) \<times> registry" where
  "DeletePeer up w name r =
     (case standalonePeerByName w name r of None \<Rightarrow> (Inl PeerNotFound, r) | Some p \<Rightarrow> if up then (Inr (), Delete_peer (ID p) r) else (Inl RegStoreError, r))"

subsection \<open>Serial operation\<close>

text \<open>Operations that do not overlap; a drawn identifier is one no row has.\<close>

inductive reg_step :: "registry \<Rightarrow> registry \<Rightarrow> bool" where
  register: "new_ID e \<notin> ID ` set (reg_peers r) \<Longrightarrow> reg_step r (snd (registerStandalone e now dto r))"
| approval: "reg_step r (snd (SetPeerApproval up w name st r))"
| disable: "reg_step r (snd (setPeerDisabledStandalone up w name d r))"
| delete: "reg_step r (snd (DeletePeer up w name r))"

definition addresses_ok :: "peer_row list \<Rightarrow> bool" where
  "addresses_ok ps \<longleftrightarrow> (\<forall>p \<in> set ps. \<forall>q \<in> set ps. ID p \<noteq> ID q \<longrightarrow> WorkspaceID p = WorkspaceID q \<longrightarrow> p_Address p \<noteq> [] \<longrightarrow>
     p_Address p \<noteq> p_Address q)"

definition registry_ok :: "registry \<Rightarrow> bool" where
  "registry_ok r \<longleftrightarrow> distinct (map ID (reg_peers r)) \<and> distinct (map p_AppID (reg_peers r)) \<and> addresses_ok (reg_peers r) \<and>
     distinct (map tok_ID (reg_tokens r)) \<and> (\<forall>k \<in> set (reg_tokens r). UsageLimit k > 0 \<longrightarrow> UsedCount k \<le> UsageLimit k)"

subsection \<open>Lemmas\<close>

lemma find_keyed: "find P xs = Some x \<Longrightarrow> x \<in> set xs \<and> P x"
  by (auto simp: find_Some_iff)

lemma Update_peer_Some:
  assumes "Update_peer p r = Some r'"
  shows "reg_tokens r' = reg_tokens r"
    "reg_peers r' = (if \<exists>x \<in> set (reg_peers r). ID x = ID p then map (\<lambda>x. if ID x = ID p then p else x) (reg_peers r) else reg_peers r @ [p])"
  using assms by (auto simp: Update_peer_def list_ex_iff split: if_splits)

lemma set_after_update:
  assumes "Update_peer p r = Some r'"
  shows "set (reg_peers r') \<subseteq> insert p {x \<in> set (reg_peers r). ID x \<noteq> ID p}"
  using Update_peer_Some(2) [OF assms] by auto

lemma distinct_map_upd:
  assumes "distinct (map f xs)" and "\<And>x. x \<in> set xs \<Longrightarrow> f (g x) = f x"
  shows "distinct (map f (map g xs))"
  using assms by (simp add: distinct_map inj_on_def)

text \<open>A written row keeps the tables in order when its address is its own and its application too.\<close>

lemma registry_ok_update:
  assumes ok: "registry_ok r" and upd: "Update_peer p r = Some r'"
    and addr: "\<And>q. q \<in> set (reg_peers r) \<Longrightarrow> ID q \<noteq> ID p \<Longrightarrow> WorkspaceID q = WorkspaceID p \<Longrightarrow> p_Address p \<noteq> [] \<Longrightarrow>
      p_Address q \<noteq> p_Address p"
    and app: "\<And>q. q \<in> set (reg_peers r) \<Longrightarrow> if ID q = ID p then p_AppID q = p_AppID p else p_AppID q \<noteq> p_AppID p"
  shows "registry_ok r'"
proof -
  note u = Update_peer_Some [OF upd]
  have "distinct (map ID (reg_peers r')) \<and> distinct (map p_AppID (reg_peers r'))"
  proof (cases "\<exists>x \<in> set (reg_peers r). ID x = ID p")
    case True
    have d: "distinct (map ID (reg_peers r))" "distinct (map p_AppID (reg_peers r))" using ok by (simp_all add: registry_ok_def)
    have "p_AppID (if ID x = ID p then p else x) = p_AppID x" if "x \<in> set (reg_peers r)" for x
      using app [OF that] by (simp split: if_splits)
    with distinct_map_upd [OF d(1), of "\<lambda>x. if ID x = ID p then p else x"]
      distinct_map_upd [OF d(2), of "\<lambda>x. if ID x = ID p then p else x"] True u(2)
    show ?thesis by simp
  next
    case False
    then have "p_AppID p \<notin> p_AppID ` set (reg_peers r)" using app by fastforce
    then show ?thesis using ok False unfolding registry_ok_def u(2) by auto
  qed
  moreover have "addresses_ok (reg_peers r')"
    unfolding addresses_ok_def
  proof (intro ballI impI)
    fix x y assume xy: "x \<in> set (reg_peers r')" "y \<in> set (reg_peers r')" "ID x \<noteq> ID y" "WorkspaceID x = WorkspaceID y" "p_Address x \<noteq> []"
    have in_old: "z = p \<or> z \<in> set (reg_peers r) \<and> ID z \<noteq> ID p" if "z \<in> set (reg_peers r')" for z
      using set_after_update [OF upd] that by blast
    show "p_Address x \<noteq> p_Address y"
      using in_old [OF xy(1)] in_old [OF xy(2)] xy ok addr
      unfolding registry_ok_def addresses_ok_def by metis
  qed
  ultimately show ?thesis using ok u(1) by (simp add: registry_ok_def)
qed

lemma AllocateAddress_fresh: "AllocateAddress taken = Some a \<Longrightarrow> a \<notin> set taken \<and> a \<noteq> []"
  by (auto simp: AllocateAddress_def find_Some_iff overlayCIDRBase_def simp del: upt_rec_numeral)

lemma settle_key_frame:
  "settle_key e dto p = Inr p1 \<Longrightarrow> ID p1 = ID p \<and> WorkspaceID p1 = WorkspaceID p \<and> p_Name p1 = p_Name p \<and> p_AppID p1 = p_AppID p \<and>
     p_Token p1 = p_Token p \<and> p_Address p1 = p_Address p \<and> p_ApprovalStatus p1 = p_ApprovalStatus p \<and> p_Disabled p1 = p_Disabled p"
  by (auto simp: settle_key_def split: if_splits option.splits)

lemma refresh_row_frame [simp]:
  "ID (refresh_row dto p) = ID p" "WorkspaceID (refresh_row dto p) = WorkspaceID p" "p_AppID (refresh_row dto p) = p_AppID p"
  "p_Token (refresh_row dto p) = p_Token p" "p_Address (refresh_row dto p) = p_Address p"
  "p_ApprovalStatus (refresh_row dto p) = p_ApprovalStatus p" "p_Disabled (refresh_row dto p) = p_Disabled p"
  "p_PublicKey (refresh_row dto p) = p_PublicKey p" "p_PrivateKey (refresh_row dto p) = p_PrivateKey p"
  by (simp_all add: refresh_row_def)

lemma GetByAppID_Some: "GetByAppID a r = Some p \<Longrightarrow> p \<in> set (reg_peers r) \<and> p_AppID p = a"
  unfolding GetByAppID_def by (rule find_keyed)

lemma GetByAppID_None: "GetByAppID a r = None \<Longrightarrow> p \<in> set (reg_peers r) \<Longrightarrow> p_AppID p \<noteq> a"
  by (auto simp: GetByAppID_def find_None_iff)

lemma admit_Inr:
  assumes "admit e now dto r = Inr (tok, ex)"
  shows "tok \<in> set (reg_tokens r)" "tok_Token tok = d_Token dto" "ex = GetByAppID (NormalizeAppID (d_AppID dto)) r"
    "ex = Some p \<Longrightarrow> WorkspaceID p = tok_WorkspaceID tok"
    "ex = None \<Longrightarrow> checkNodeLimitStandalone e r = None \<and> (UsageLimit tok > 0 \<longrightarrow> UsedCount tok < UsageLimit tok)"
    "tok_ExpiresAt tok < now \<Longrightarrow> \<exists>p. ex = Some p \<and> p_Token p = d_Token dto"
proof -
  have k: "GetByToken (d_Token dto) r = Some tok"
    using assms by (auto simp: admit_def Let_def split: if_splits option.splits)
  then show "tok \<in> set (reg_tokens r)" "tok_Token tok = d_Token dto"
    using find_keyed [of "\<lambda>k. tok_Token k = d_Token dto" "reg_tokens r" tok] by (simp_all add: GetByToken_def)
  show "ex = GetByAppID (NormalizeAppID (d_AppID dto)) r"
    and "ex = Some p \<Longrightarrow> WorkspaceID p = tok_WorkspaceID tok"
    and "ex = None \<Longrightarrow> checkNodeLimitStandalone e r = None \<and> (UsageLimit tok > 0 \<longrightarrow> UsedCount tok < UsageLimit tok)"
    and "tok_ExpiresAt tok < now \<Longrightarrow> \<exists>p. ex = Some p \<and> p_Token p = d_Token dto"
    using assms by (cases "GetByAppID (NormalizeAppID (d_AppID dto)) r";
        auto simp: admit_def Let_def k split: if_splits option.splits)+
qed

lemma first_row_Inr:
  assumes "first_row e dto tok r = Inr p"
  shows "ID p = new_ID e" "WorkspaceID p = tok_WorkspaceID tok" "p_AppID p = NormalizeAppID (d_AppID dto)" "p_PublicKey p = []"
    "q \<in> set (reg_peers r) \<Longrightarrow> WorkspaceID q = WorkspaceID p \<Longrightarrow> p_Address p \<noteq> [] \<Longrightarrow> p_Address q \<noteq> p_Address p"
proof -
  show w: "WorkspaceID p = tok_WorkspaceID tok" and "ID p = new_ID e" "p_AppID p = NormalizeAppID (d_AppID dto)" "p_PublicKey p = []"
    using assms by (auto simp: first_row_def Let_def split: if_splits option.splits)
  assume q: "q \<in> set (reg_peers r)" "WorkspaceID q = WorkspaceID p" "p_Address p \<noteq> []"
  then have "AllocateAddress (map p_Address (ListByWorkspace (tok_WorkspaceID tok) r)) = Some (p_Address p)"
    using assms by (auto simp: first_row_def Let_def split: if_splits option.splits)
  then have "p_Address p \<notin> set (map p_Address (ListByWorkspace (tok_WorkspaceID tok) r))"
    using AllocateAddress_fresh by blast
  moreover have "p_Address q \<in> set (map p_Address (ListByWorkspace (tok_WorkspaceID tok) r))"
    using q w by (simp add: ListByWorkspace_def)
  ultimately show "p_Address q \<noteq> p_Address p" by metis
qed

lemma register_read_new:
  assumes "register_read e now dto r = Inr (tok, True, p)"
  shows "admit e now dto r = Inr (tok, None)" "\<exists>p0. first_row e dto tok r = Inr p0 \<and> ID p = ID p0 \<and> WorkspaceID p = WorkspaceID p0 \<and>
    p_AppID p = p_AppID p0 \<and> p_Address p = p_Address p0"
  using assms settle_key_frame by (fastforce simp: register_read_def split: sum.splits option.splits prod.splits)+

lemma register_read_old:
  assumes "register_read e now dto r = Inr (tok, False, p)"
  shows "\<exists>q p1. admit e now dto r = Inr (tok, Some q) \<and> settle_key e dto q = Inr p1 \<and> p = refresh_row dto p1"
  using assms by (auto simp: register_read_def split: sum.splits option.splits prod.splits)

lemma registry_ok_increment:
  assumes ok: "registry_ok r" and tok: "tok \<in> set (reg_tokens r)" and seat: "UsageLimit tok > 0 \<longrightarrow> UsedCount tok < UsageLimit tok"
  shows "registry_ok (IncrementUsedCount (tok_ID tok) r)"
proof -
  define f :: "EnrollmentToken \<Rightarrow> EnrollmentToken" where
    "f k = (if tok_ID k = tok_ID tok then k\<lparr>UsedCount := UsedCount k + 1\<rparr> else k)" for k
  have d: "distinct (map tok_ID (reg_tokens r))" using ok by (simp add: registry_ok_def)
  have same: "k = tok" if "k \<in> set (reg_tokens r)" "tok_ID k = tok_ID tok" for k
    using d tok that by (auto simp: distinct_map dest: inj_onD)
  have "tok_ID (f k) = tok_ID k" for k by (simp add: f_def)
  then have "distinct (map tok_ID (map f (reg_tokens r)))" using distinct_map_upd [OF d] by blast
  moreover have "UsageLimit (f k) > 0 \<longrightarrow> UsedCount (f k) \<le> UsageLimit (f k)" if k: "k \<in> set (reg_tokens r)" for k
  proof (cases "tok_ID k = tok_ID tok")
    case True
    then show ?thesis using same [OF k True] seat by (auto simp: f_def)
  next
    case False
    then show ?thesis using ok k by (simp add: f_def registry_ok_def)
  qed
  moreover have "IncrementUsedCount (tok_ID tok) r = r\<lparr>reg_tokens := map f (reg_tokens r)\<rparr>"
    by (simp add: IncrementUsedCount_def f_def [abs_def])
  ultimately show ?thesis using ok by (simp add: registry_ok_def)
qed

lemma same_row:
  assumes "registry_ok r" and "p \<in> set (reg_peers r)" and "q \<in> set (reg_peers r)"
  shows "ID p = ID q \<longleftrightarrow> p = q" "p_AppID p = p_AppID q \<longleftrightarrow> p = q"
  using assms by (auto simp: registry_ok_def distinct_map dest: inj_onD)

text \<open>Rewriting a row in place, with its identity and address kept.\<close>

lemma registry_ok_rewrite:
  assumes ok: "registry_ok r" and p: "p \<in> set (reg_peers r)" and upd: "Update_peer p' r = Some r'"
    and same: "ID p' = ID p" "WorkspaceID p' = WorkspaceID p" "p_AppID p' = p_AppID p" "p_Address p' = p_Address p"
  shows "registry_ok r'"
proof (rule registry_ok_update [OF ok upd])
  fix q assume q: "q \<in> set (reg_peers r)"
  show "if ID q = ID p' then p_AppID q = p_AppID p' else p_AppID q \<noteq> p_AppID p'"
    using same_row [OF ok q p] same by auto
  assume "ID q \<noteq> ID p'" "WorkspaceID q = WorkspaceID p'" "p_Address p' \<noteq> []"
  then show "p_Address q \<noteq> p_Address p'"
    using ok p q same unfolding registry_ok_def addresses_ok_def by metis
qed

lemma registry_ok_write:
  assumes ok: "registry_ok r" and fresh: "new_ID e \<notin> ID ` set (reg_peers r)"
    and rd: "register_read e now dto r = Inr (tok, new, p)" and upd: "Update_peer p r = Some r1"
  shows "registry_ok r1"
proof (cases new)
  case True
  with rd have rd': "register_read e now dto r = Inr (tok, True, p)" by simp
  obtain p0 where p0: "first_row e dto tok r = Inr p0" "ID p = ID p0" "WorkspaceID p = WorkspaceID p0" "p_AppID p = p_AppID p0"
    "p_Address p = p_Address p0"
    using register_read_new(2) [OF rd'] by blast
  note f = first_row_Inr [OF p0(1)]
  have none: "GetByAppID (NormalizeAppID (d_AppID dto)) r = None" using admit_Inr(3) [OF register_read_new(1) [OF rd']] by simp
  show ?thesis
  proof (rule registry_ok_update [OF ok upd])
    fix q assume q: "q \<in> set (reg_peers r)"
    then have "ID q \<noteq> ID p" using fresh f(1) p0(2) by (metis imageI)
    then show "if ID q = ID p then p_AppID q = p_AppID p else p_AppID q \<noteq> p_AppID p"
      using GetByAppID_None [OF none q] f(3) p0(4) by simp
    assume "WorkspaceID q = WorkspaceID p" "p_Address p \<noteq> []"
    then show "p_Address q \<noteq> p_Address p" using f(5) [OF q] p0 by simp
  qed
next
  case False
  with rd have "register_read e now dto r = Inr (tok, False, p)" by simp
  then obtain q p1 where q: "admit e now dto r = Inr (tok, Some q)" "settle_key e dto q = Inr p1" "p = refresh_row dto p1"
    using register_read_old by blast
  have "q \<in> set (reg_peers r)" using GetByAppID_Some admit_Inr(3) [OF q(1)] by metis
  then show ?thesis using registry_ok_rewrite [OF ok _ upd, of q] settle_key_frame [OF q(2)] q(3) by simp
qed

lemma registry_ok_register:
  assumes ok: "registry_ok r" and fresh: "new_ID e \<notin> ID ` set (reg_peers r)"
  shows "registry_ok (snd (registerStandalone e now dto r))"
proof (cases "register_read e now dto r")
  case (Inr w)
  obtain tok new p where w: "w = (tok, new, p)" by (cases w)
  note rd = Inr [unfolded w]
  show ?thesis
  proof (cases "save_fails e \<or> Update_peer p r = None")
    case True
    then show ?thesis using ok by (auto simp: registerStandalone_def rd register_write_def)
  next
    case False
    then obtain r1 where r1: "Update_peer p r = Some r1" by auto
    have ok1: "registry_ok r1" by (rule registry_ok_write [OF ok fresh rd r1])
    have "registry_ok (IncrementUsedCount (tok_ID tok) r1)" if new
    proof (rule registry_ok_increment [OF ok1])
      have a: "admit e now dto r = Inr (tok, None)" using register_read_new(1) rd that by simp
      show "tok \<in> set (reg_tokens r1)" using admit_Inr(1) [OF a] Update_peer_Some(1) [OF r1] by simp
      show "UsageLimit tok > 0 \<longrightarrow> UsedCount tok < UsageLimit tok" using admit_Inr(5) [OF a] by simp
    qed
    with False r1 ok1 show ?thesis by (auto simp: registerStandalone_def rd register_write_def)
  qed
qed (simp add: registerStandalone_def ok)

lemma by_name_Some: "standalonePeerByName w name r = Some p \<Longrightarrow> p \<in> set (reg_peers r) \<and> p_Name p = name \<and> WorkspaceID p = w"
  unfolding standalonePeerByName_def ListByWorkspace_def using find_keyed [of "\<lambda>p. p_Name p = name"] by fastforce

lemma registry_ok_disable: "registry_ok r \<Longrightarrow> registry_ok (snd (setPeerDisabledStandalone up w name d r))"
  by (auto simp: setPeerDisabledStandalone_def update_result_def intro: registry_ok_rewrite dest: by_name_Some split: option.splits if_splits)

lemma registry_ok_delete: "registry_ok r \<Longrightarrow> registry_ok (snd (DeletePeer up w name r))"
  by (auto simp: DeletePeer_def Delete_peer_def registry_ok_def addresses_ok_def distinct_map_filter split: option.splits)

lemma registry_ok_approval:
  assumes ok: "registry_ok r"
  shows "registry_ok (snd (SetPeerApproval up w name st r))"
proof (cases "snd (SetPeerApproval up w name st r) = r")
  case False
  then obtain p p1 where p: "standalonePeerByName w name r = Some p" "approval_row w r st p = Inr p1"
      "Update_peer p1 r = Some (snd (SetPeerApproval up w name st r))"
    by (auto simp: SetPeerApproval_def update_result_def split: if_splits option.splits sum.splits)
  note m = by_name_Some [OF p(1)]
  have same: "ID p1 = ID p" "WorkspaceID p1 = WorkspaceID p" "p_AppID p1 = p_AppID p"
    using p(2) by (auto simp: approval_row_def Let_def split: if_splits option.splits)
  show ?thesis
  proof (rule registry_ok_update [OF ok p(3)])
    fix q assume q: "q \<in> set (reg_peers r)"
    show "if ID q = ID p1 then p_AppID q = p_AppID p1 else p_AppID q \<noteq> p_AppID p1"
      using same_row [OF ok q, of p] m same by auto
    assume a: "ID q \<noteq> ID p1" "WorkspaceID q = WorkspaceID p1" "p_Address p1 \<noteq> []"
    show "p_Address q \<noteq> p_Address p1"
    proof (cases "p_Address p1 = p_Address p")
      case True
      then show ?thesis using ok m q a same unfolding registry_ok_def addresses_ok_def by metis
    next
      case False
      then have "AllocateAddress (map p_Address (ListByWorkspace w r)) = Some (p_Address p1)"
        using p(2) by (auto simp: approval_row_def Let_def split: if_splits option.splits)
      then have "p_Address p1 \<notin> set (map p_Address (ListByWorkspace w r))" using AllocateAddress_fresh by blast
      moreover have "p_Address q \<in> set (map p_Address (ListByWorkspace w r))" using q a m same by (simp add: ListByWorkspace_def)
      ultimately show ?thesis by metis
    qed
  qed
qed (simp add: ok)

lemma registry_ok_step: "reg_step r r' \<Longrightarrow> registry_ok r \<Longrightarrow> registry_ok r'"
  by (induction rule: reg_step.induct)
    (auto intro: registry_ok_register registry_ok_approval registry_ok_disable registry_ok_delete)

interpretation reg: inductive_invariant registry_ok reg_step registry_ok
  by unfold_locales (auto intro: registry_ok_step)

lemma collapse_safe: "\<forall>c \<in> set (collapse b cs). safe_char c"
  by (induction b cs rule: collapse.induct) (auto simp: safe_char_def)

lemma collapse_id: "\<forall>c \<in> set cs. safe_char c \<Longrightarrow> collapse b cs = cs"
  by (induction b cs rule: collapse.induct) auto

lemma safe_no_space: "safe_char c \<Longrightarrow> \<not> is_space c"
  by (auto simp: safe_char_def is_space_def Let_def)

lemma TrimLeft_no_space: "\<forall>c \<in> set s. \<not> is_space c \<Longrightarrow> TrimLeft s = s"
  by (cases s) (auto simp: TrimLeft_def)

text \<open>Client and server normalise independently and agree.\<close>

lemma NormalizeAppID_idem: "NormalizeAppID (NormalizeAppID i) = NormalizeAppID i"
proof -
  define s where "s = collapse False (TrimSpace i)"
  have safe: "\<forall>c \<in> set s. safe_char c" unfolding s_def by (rule collapse_safe)
  then have "\<forall>c \<in> set s. \<not> is_space c" using safe_no_space by blast
  then have "TrimSpace s = s" by (simp add: TrimSpace_def TrimLeft_no_space)
  then show ?thesis using collapse_id [OF safe] by (simp add: NormalizeAppID_def s_def [symmetric])
qed

lemma registerStandalone_Inr:
  assumes "registerStandalone e now dto r = (Inr node, r')"
  obtains tok new p r1 where "register_read e now dto r = Inr (tok, new, p)" "Update_peer p r = Some r1"
    "node = node_of e p" "reg_peers r' = reg_peers r1"
  using assms
  by (auto simp: registerStandalone_def register_write_def IncrementUsedCount_def split: sum.splits prod.splits option.splits if_splits)

lemma served_netmap_ok:
  assumes "BuildForAppID env b getByAppID q now later appID token = Some msg" and "peers_q q = Some rows"
  shows "\<exists>me. netmap_ok b rows me msg"
proof -
  obtain me where "msg = pendingMessage env me \<or> BuildForPeer env b q now later me = Some msg"
    using assms(1) by (auto simp: BuildForAppID_def split: option.splits if_splits)
  then show ?thesis
  proof
    assume "msg = pendingMessage env me"
    then have "netmap_ok b rows me msg" by (simp add: netmap_ok_def pendingMessage_def dbToInfraPeer_def zero_Peer_def)
    then show ?thesis by blast
  qed (use BuildForPeer_ok [OF _ assms(2)] in blast)
qed

subsection \<open>Properties\<close>


definition ex_renv :: "string \<Rightarrow> reg_env" where
  "ex_renv i = \<lparr>workspace_row = WsFound False, MaxNodes = None, ParseKey_ok = (\<lambda>k. k \<noteq> []), GeneratePrivateKey = Some (''priv'', ''pub''),
     new_ID = i, reg_relayURL = [], lookup_fails = False, list_fails = False, save_fails = False, inc_fails = False\<rparr>"

definition ex_dto :: "string \<Rightarrow> string \<Rightarrow> string \<Rightarrow> PeerDto" where
  "ex_dto a t k = \<lparr>d_AppID = a, d_Name = [], d_Token = t, d_PublicKey = k, d_Endpoint = [], d_Hostname = [], d_Platform = []\<rparr>"

definition ex_token :: "string \<Rightarrow> EnrollmentToken" where
  "ex_token t = \<lparr>tok_ID = t, tok_Token = t, tok_WorkspaceID = ''w'', tok_ExpiresAt = 10, UsageLimit = 1, UsedCount = 0\<rparr>"

definition ex_reg :: registry where
  "ex_reg = \<lparr>reg_peers = [], reg_tokens = [ex_token ''t1'', ex_token ''t2'']\<rparr>"

definition ex_legacy :: peer_row where
  "ex_legacy = \<lparr>ID = ''i1'', WorkspaceID = ''w'', p_Name = ''a'', p_AppID = ''a'', p_Token = ''t1'', p_PublicKey = ''pub'', p_PrivateKey = ''priv'',
     p_Address = ''10.96.0.2'', p_Endpoint = [], p_Hostname = [], p_Platform = [], p_Labels = [],
     p_AdvertisedRoutes = [], p_ApprovalStatus = ''approved'', p_Disabled = False\<rparr>"

definition ex_enrolled :: registry where
  "ex_enrolled = \<lparr>reg_peers = [ex_legacy], reg_tokens = [ex_token ''t1'', ex_token ''t2'']\<rparr>"

lemmas ex_reg_defs = ex_renv_def ex_dto_def ex_token_def ex_reg_def ex_legacy_def ex_enrolled_def ApprovalApproved_def

lemma ex_app [simp]: "NormalizeAppID ''a'' = ''a''" "NormalizeAppID ''b'' = ''b''"
  by (simp_all add: NormalizeAppID_def TrimSpace_def TrimLeft_def is_space_def safe_char_def)

lemma ex_reg_ok: "registry_ok ex_reg" "registry_ok ex_enrolled"
  by (simp_all add: registry_ok_def addresses_ok_def ex_reg_defs)


text \<open>
  C9. What a registration can do. It needs a token of the registry. With an application identifier that
  is new, the token is unexpired and has a seat left, and one row of the token's workspace is added.
  With a known one, the row belongs to the token's workspace and either the token is unexpired or it
  is the one the peer enrolled with; only that row changes, it keeps its identity, token, address,
  approval and disabling, and a key that was generated by the client is kept and was presented again.
\<close>

theorem registration_effects:
  assumes ok: "registry_ok r" and reg: "registerStandalone e now dto r = (Inr node, r')" and fresh: "new_ID e \<notin> ID ` set (reg_peers r)"
  shows "\<exists>tok \<in> set (reg_tokens r). tok_Token tok = d_Token dto \<and>
    (case GetByAppID (NormalizeAppID (d_AppID dto)) r of
       None \<Rightarrow> now \<le> tok_ExpiresAt tok \<and> (UsageLimit tok > 0 \<longrightarrow> UsedCount tok < UsageLimit tok) \<and>
         (\<exists>p. reg_peers r' = reg_peers r @ [p] \<and> p_AppID p = NormalizeAppID (d_AppID dto) \<and> WorkspaceID p = tok_WorkspaceID tok)
     | Some q \<Rightarrow> WorkspaceID q = tok_WorkspaceID tok \<and> (now \<le> tok_ExpiresAt tok \<or> p_Token q = d_Token dto) \<and>
         (\<exists>p. reg_peers r' = map (\<lambda>x. if x = q then p else x) (reg_peers r) \<and> ID p = ID q \<and> p_Token p = p_Token q \<and>
            p_Address p = p_Address q \<and> p_ApprovalStatus p = p_ApprovalStatus q \<and> p_Disabled p = p_Disabled q \<and>
            (p_PublicKey q \<noteq> [] \<and> p_PrivateKey q = [] \<longrightarrow>
               d_PublicKey dto = p_PublicKey q \<and> p_PublicKey p = p_PublicKey q \<and> p_PrivateKey p = [])))"
proof -
  obtain tok new p r1 where rd: "register_read e now dto r = Inr (tok, new, p)" and upd: "Update_peer p r = Some r1"
    and r': "reg_peers r' = reg_peers r1"
    using registerStandalone_Inr [OF reg] by metis
  show ?thesis
  proof (cases new)
    case True
    with rd have rd': "register_read e now dto r = Inr (tok, True, p)" by simp
    note a = register_read_new(1) [OF rd']
    obtain p0 where p0: "first_row e dto tok r = Inr p0" "ID p = ID p0" "WorkspaceID p = WorkspaceID p0" "p_AppID p = p_AppID p0"
      using register_read_new(2) [OF rd'] by blast
    have "\<not> (\<exists>x \<in> set (reg_peers r). ID x = ID p)" using fresh p0(2) first_row_Inr(1) [OF p0(1)] by (metis imageI)
    then have "reg_peers r' = reg_peers r @ [p]" using Update_peer_Some(2) [OF upd] r' by simp
    then show ?thesis
      using admit_Inr(1,2,5,6) [OF a] admit_Inr(3) [OF a, symmetric] p0 first_row_Inr(2,3) [OF p0(1)]
      by (intro bexI [of _ tok]) (auto simp: not_less [symmetric])
  next
    case False
    with rd have "register_read e now dto r = Inr (tok, False, p)" by simp
    then obtain q p1 where q: "admit e now dto r = Inr (tok, Some q)" "settle_key e dto q = Inr p1" "p = refresh_row dto p1"
      using register_read_old by blast
    note a = admit_Inr [OF q(1)]
    have mem: "q \<in> set (reg_peers r)" using GetByAppID_Some a(3) by metis
    note f = settle_key_frame [OF q(2)]
    have "map (\<lambda>x. if ID x = ID p then p else x) (reg_peers r) = map (\<lambda>x. if x = q then p else x) (reg_peers r)"
      using same_row(1) [OF ok _ mem] f q(3) by (intro map_cong) auto
    then have rows: "reg_peers r' = map (\<lambda>x. if x = q then p else x) (reg_peers r)"
      using Update_peer_Some(2) [OF upd] r' mem f q(3) by auto
    have keys: "d_PublicKey dto = p_PublicKey q \<and> p_PublicKey p = p_PublicKey q \<and> p_PrivateKey p = []"
      if "p_PublicKey q \<noteq> [] \<and> p_PrivateKey q = []"
      using q(2) that by (auto simp: q(3) settle_key_def split: if_splits)
    show ?thesis
      using a(1,2,4,6) a(3) [symmetric] rows keys f q(3)
      by (intro bexI [of _ tok]) (auto simp: not_less [symmetric])
  qed
qed

lemma ex_resume: "registerStandalone (ex_renv ''i2'') 5 (ex_dto ''a'' ''t2'' []) ex_enrolled = (Inr (node_of (ex_renv ''i2'') ex_legacy), ex_enrolled)"
  by (simp add: registerStandalone_def register_read_def admit_def GetByToken_def GetByAppID_def settle_key_def refresh_row_def
      register_write_def Update_peer_def ex_reg_defs)

theorem registration_effects_witness:
  "registerStandalone (ex_renv ''i2'') 5 (ex_dto ''a'' ''t2'' []) ex_enrolled = (Inr (node_of (ex_renv ''i2'') ex_legacy), ex_enrolled) \<and>
   (\<exists>tok \<in> set (reg_tokens ex_enrolled). tok_Token tok = ''t2'' \<and> WorkspaceID ex_legacy = tok_WorkspaceID tok)"
proof -
  have "new_ID (ex_renv ''i2'') \<notin> ID ` set (reg_peers ex_enrolled)" by (simp add: ex_reg_defs)
  moreover have "GetByAppID (NormalizeAppID (d_AppID (ex_dto ''a'' ''t2'' []))) ex_enrolled = Some ex_legacy"
    by (simp add: GetByAppID_def ex_reg_defs)
  moreover have "d_Token (ex_dto ''a'' ''t2'' []) = ''t2''" by (simp add: ex_dto_def)
  ultimately show ?thesis
    using registration_effects [OF ex_reg_ok(2) ex_resume] ex_resume by auto
qed

text \<open>
  C8. A revocation takes effect. After it the peer's own netmap is refused, and whoever of the
  workspace asks gets a netmap in which no entry is the revoked peer.
\<close>

theorem revocation_hides_peer:
  assumes ok: "registry_ok r" and rev: "SetPeerApproval True w name ApprovalRevoked r = (Inr (), r')"
    and p: "standalonePeerByName w name r = Some p"
    and rows: "peers_q q = Some (ListByWorkspace w r')"
  shows "BuildForAppID env b (\<lambda>a. GetByAppID a r') q now later (p_AppID p) token = None \<and>
    (BuildForAppID env b (\<lambda>a. GetByAppID a r') q now later app token = Some msg \<longrightarrow>
      p_AppID p \<notin> AppID ` (set (case m_Network msg of None \<Rightarrow> [] | Some n \<Rightarrow> Peers n) \<union> set (ComputedPeers msg)))"
proof -
  define p1 where "p1 = p\<lparr>p_Disabled := True, p_ApprovalStatus := ApprovalRevoked\<rparr>"
  have a: "approval_row w r ApprovalRevoked p = Inr p1" by (simp add: approval_row_def p1_def ApprovalApproved_def ApprovalRevoked_def)
  then have upd: "Update_peer p1 r = Some r'"
    using rev p by (auto simp: SetPeerApproval_def update_result_def split: option.splits if_splits)
  note m = by_name_Some [OF p]
  have ok': "registry_ok r'" by (rule registry_ok_rewrite [OF ok _ upd, of p]) (simp_all add: m p1_def)
  have mem: "p1 \<in> set (reg_peers r')" using Update_peer_Some(2) [OF upd] m by (auto simp: p1_def)
  have only: "x = p1" if "x \<in> set (reg_peers r')" "p_AppID x = p_AppID p" for x
    using same_row(2) [OF ok' that(1) mem] that(2) by (simp add: p1_def)
  have "GetByAppID (p_AppID p) r' \<noteq> None"
    using mem GetByAppID_None [of "p_AppID p" r' p1] by (auto simp: p1_def)
  then have "GetByAppID (p_AppID p) r' = Some p1" using only GetByAppID_Some by (metis option.exhaust)
  then have own: "BuildForAppID env b (\<lambda>a. GetByAppID a r') q now later (p_AppID p) token = None"
    by (simp add: BuildForAppID_def p1_def)
  have "p_AppID p \<notin> AppID ` (set (case m_Network msg of None \<Rightarrow> [] | Some n \<Rightarrow> Peers n) \<union> set (ComputedPeers msg))"
    if build: "BuildForAppID env b (\<lambda>a. GetByAppID a r') q now later app token = Some msg"
  proof
    assume "p_AppID p \<in> AppID ` (set (case m_Network msg of None \<Rightarrow> [] | Some n \<Rightarrow> Peers n) \<union> set (ComputedPeers msg))"
    then obtain x where x: "x \<in> set (case m_Network msg of None \<Rightarrow> [] | Some n \<Rightarrow> Peers n) \<union> set (ComputedPeers msg)"
      "AppID x = p_AppID p" by (metis imageE)
    obtain me where "netmap_ok b (ListByWorkspace w r') me msg" using served_netmap_ok [OF build rows] by blast
    then obtain y where "y \<in> set (ListByWorkspace w r')" "visible y" "p_AppID y = p_AppID p"
      using x unfolding netmap_ok_def by metis
    then have "y = p1" "visible y" using only by (auto simp: ListByWorkspace_def)
    then show False by (simp add: visible_def p1_def ApprovalApproved_def ApprovalRevoked_def)
  qed
  with own show ?thesis by blast
qed

theorem revocation_hides_peer_witness:
  "\<exists>r'. SetPeerApproval True ''w'' ''a'' ApprovalRevoked ex_enrolled = (Inr (), r') \<and>
     BuildForAppID ex_nenv ex_builder (\<lambda>a. GetByAppID a r') (ex_rows\<lparr>peers_q := Some (ListByWorkspace ''w'' r')\<rparr>) 0 0 ''a'' ''t1'' = None"
proof -
  have nm: "standalonePeerByName ''w'' ''a'' ex_enrolled = Some ex_legacy"
    by (simp add: standalonePeerByName_def ListByWorkspace_def ex_reg_defs)
  obtain r' where r': "SetPeerApproval True ''w'' ''a'' ApprovalRevoked ex_enrolled = (Inr (), r')"
    by (simp add: SetPeerApproval_def nm approval_row_def ApprovalApproved_def ApprovalRevoked_def update_result_def)
      (simp add: Update_peer_def ex_reg_defs)
  have "p_AppID ex_legacy = ''a''" by (simp add: ex_legacy_def)
  with revocation_hides_peer [OF ex_reg_ok(2) r' nm, of "ex_rows\<lparr>peers_q := Some (ListByWorkspace ''w'' r')\<rparr>"] r'
  show ?thesis by auto
qed

text \<open>
  Registration hands out other peers' secrets. Whoever holds an unexpired token of the workspace and
  registers under the application identifier of a peer whose key the server generated, without a
  public key, receives that peer's private key and its own enrollment token, whatever token the
  peer enrolled with and whether or not the presented one has a seat left.
\<close>

lemma token_holder_gets_key:
  assumes "GetByToken (d_Token dto) r = Some tok" "d_Token dto \<noteq> []" "now \<le> tok_ExpiresAt tok"
    and "GetByAppID (NormalizeAppID (d_AppID dto)) r = Some q" "WorkspaceID q = tok_WorkspaceID tok" "p_PrivateKey q \<noteq> []"
    and "d_PublicKey dto = []" "\<not> lookup_fails e" "workspace_row e \<noteq> WsError" "\<not> save_fails e"
    and "Update_peer (refresh_row dto q) r \<noteq> None"
  shows "\<exists>node r'. registerStandalone e now dto r = (Inr node, r') \<and> PrivateKey node = p_PrivateKey q \<and> Token node = p_Token q"
proof -
  have "admit e now dto r = Inr (tok, Some q)" using assms by (simp add: admit_def)
  moreover have "settle_key e dto q = Inr q" using assms by (simp add: settle_key_def)
  ultimately have "register_read e now dto r = Inr (tok, False, refresh_row dto q)" by (simp add: register_read_def)
  then show ?thesis using assms(10,11) by (auto simp: registerStandalone_def register_write_def node_of_def)
qed

text \<open>
  Registrations that overlap break the invariant. When two new peers with different names register
  with one token and both read before either writes, both succeed: they hold the same address, and
  the token's count has grown by two although it may have had a single seat left.
\<close>

lemma concurrent_enrollments_collide:
  assumes "register_read e1 now1 dto1 r = Inr (tok, True, p1)" and "register_read e2 now2 dto2 r = Inr (tok, True, p2)"
    and "workspace_row e1 \<noteq> WsFound True" "workspace_row e2 \<noteq> WsFound True"
    and "\<not> save_fails e1" "\<not> inc_fails e1" "\<not> save_fails e2" "\<not> inc_fails e2"
    and "new_ID e1 \<notin> ID ` set (reg_peers r)" "new_ID e2 \<notin> insert (new_ID e1) (ID ` set (reg_peers r))"
    and "p_Name p1 \<notin> p_Name ` set (reg_peers r)" "p_Name p2 \<notin> insert (p_Name p1) (p_Name ` set (reg_peers r))"
    and "r2 = snd (register_write e2 (tok, True, p2) (snd (register_write e1 (tok, True, p1) r)))"
  shows "reg_peers r2 = reg_peers r @ [p1, p2] \<and> WorkspaceID p1 = WorkspaceID p2 \<and> p_Address p1 = p_Address p2 \<and> p_Address p1 \<noteq> [] \<and>
    (\<exists>k \<in> set (reg_tokens r2). tok_ID k = tok_ID tok \<and> UsageLimit k = UsageLimit tok \<and> UsedCount k = UsedCount tok + 2)"
proof -
  obtain a1 where a1: "first_row e1 dto1 tok r = Inr a1" "ID p1 = ID a1" "WorkspaceID p1 = WorkspaceID a1" "p_Address p1 = p_Address a1"
    using register_read_new(2) [OF assms(1)] by blast
  obtain a2 where a2: "first_row e2 dto2 tok r = Inr a2" "ID p2 = ID a2" "WorkspaceID p2 = WorkspaceID a2" "p_Address p2 = p_Address a2"
    using register_read_new(2) [OF assms(2)] by blast
  note f1 = first_row_Inr(1,2) [OF a1(1)] and f2 = first_row_Inr(1,2) [OF a2(1)]
  have alloc: "AllocateAddress (map p_Address (ListByWorkspace (tok_WorkspaceID tok) r)) = Some (p_Address a)"
    if "first_row e dto tok r = Inr a" "workspace_row e \<noteq> WsFound True" for e dto a
    using that by (auto simp: first_row_def Let_def split: if_splits option.splits)
  have addr: "p_Address p1 = p_Address p2" "p_Address p1 \<noteq> []"
    using alloc [OF a1(1) assms(3)] alloc [OF a2(1) assms(4)] a1(4) a2(4) AllocateAddress_fresh by auto
  have new: "Update_peer p x = Some (x\<lparr>reg_peers := reg_peers x @ [p]\<rparr>)"
    if "ID p \<notin> ID ` set (reg_peers x)" "p_Name p \<notin> p_Name ` set (reg_peers x)" for p x
    using that by (auto simp: Update_peer_def list_ex_iff image_iff)
  define inc where "inc k = (if tok_ID k = tok_ID tok then k\<lparr>UsedCount := UsedCount k + 1\<rparr> else k)" for k :: EnrollmentToken
  define r1 where "r1 = snd (register_write e1 (tok, True, p1) r)"
  have r1: "reg_peers r1 = reg_peers r @ [p1]" "reg_tokens r1 = map inc (reg_tokens r)"
    using new [of p1 r] assms f1 a1(2) by (simp_all add: r1_def register_write_def IncrementUsedCount_def inc_def)
  have r2: "reg_peers r2 = reg_peers r @ [p1, p2]" "reg_tokens r2 = map inc (reg_tokens r1)"
    using new [of p2 r1] r1 assms f1 f2 a1(2) a2(2) unfolding assms(13) r1_def [symmetric]
    by (simp_all add: register_write_def IncrementUsedCount_def inc_def)
  have "tok \<in> set (reg_tokens r)" using admit_Inr(1) [OF register_read_new(1) [OF assms(1)]] .
  then have "inc (inc tok) \<in> set (reg_tokens r2)" by (simp add: r2 r1)
  then show ?thesis
    using r2(1) addr a1(3) a2(3) f1(2) f2(2) by (intro conjI bexI [of _ "inc (inc tok)"]) (simp_all add: inc_def)
qed

lemma ex_alloc: "AllocateAddress [] = Some ''10.96.0.2''"
proof -
  have "[2..<255] = 2 # [3..<255]" by (subst upt_rec) (simp del: upt_rec_numeral)
  then show ?thesis by (simp add: AllocateAddress_def overlayCIDRBase_def char_of_def bit_0 del: upt_rec_numeral)
qed

definition ex_new :: "string \<Rightarrow> string \<Rightarrow> peer_row" where
  "ex_new i a = ex_legacy\<lparr>ID := i, p_Name := a, p_AppID := a\<rparr>"

lemma ex_read:
  assumes "NormalizeAppID a = a"
  shows "register_read (ex_renv i) 5 (ex_dto a ''t1'' []) ex_reg = Inr (ex_token ''t1'', True, ex_new i a)"
proof -
  define p0 where "p0 = (ex_new i a)\<lparr>p_PublicKey := [], p_PrivateKey := []\<rparr>"
  have "admit (ex_renv i) 5 (ex_dto a ''t1'' []) ex_reg = Inr (ex_token ''t1'', None)"
    by (simp add: admit_def GetByToken_def GetByAppID_def checkNodeLimitStandalone_def ex_reg_defs)
  moreover have "first_row (ex_renv i) (ex_dto a ''t1'' []) (ex_token ''t1'') ex_reg = Inr p0"
    by (simp add: first_row_def ListByWorkspace_def ex_alloc p0_def ex_new_def ex_reg_defs assms)
  moreover have "settle_key (ex_renv i) (ex_dto a ''t1'' []) p0 = Inr (ex_new i a)"
    by (simp add: settle_key_def p0_def ex_new_def ex_reg_defs)
  moreover have "refresh_row (ex_dto a ''t1'' []) (ex_new i a) = ex_new i a"
    using assms by (cases a) (simp_all add: refresh_row_def ex_new_def ex_reg_defs)
  ultimately show ?thesis by (simp add: register_read_def)
qed

subsection \<open>Lost decisions\<close>

text \<open>
  A registration writes every column of the row it read, so a revocation that lands between its two
  halves is undone.
\<close>

lemma stale_registration_unrevokes:
  assumes "register_read e now dto r = Inr (tok, False, p)" and "standalonePeerByName w name r = Some q" and "ID p = ID q"
    and "SetPeerApproval True w name ApprovalRevoked r = (Inr (), r1)" and "register_write e (tok, False, p) r1 = (Inr node, r2)"
  shows "(\<exists>x \<in> set (reg_peers r1). ID x = ID p \<and> p_ApprovalStatus x = ApprovalRevoked \<and> p_Disabled x) \<and>
    (\<exists>x \<in> set (reg_peers r2). ID x = ID p \<and> p_ApprovalStatus x = p_ApprovalStatus p \<and> p_Disabled x = p_Disabled p)"
proof -
  define q1 where "q1 = q\<lparr>p_Disabled := True, p_ApprovalStatus := ApprovalRevoked\<rparr>"
  have "approval_row w r ApprovalRevoked q = Inr q1" by (simp add: approval_row_def q1_def ApprovalApproved_def ApprovalRevoked_def)
  then have u1: "Update_peer q1 r = Some r1"
    using assms(2,4) by (auto simp: SetPeerApproval_def update_result_def split: option.splits if_splits)
  have "q1 \<in> set (reg_peers r1)" using Update_peer_Some(2) [OF u1] by_name_Some [OF assms(2)] by (auto simp: q1_def)
  moreover have "Update_peer p r1 = Some r2" using assms(5) by (auto simp: register_write_def split: if_splits option.splits)
  then have "p \<in> set (reg_peers r2)" using Update_peer_Some(2) by fastforce
  ultimately show ?thesis using assms(3) by (auto simp: q1_def intro: bexI [of _ q1])
qed

text \<open>A disabled peer stays in the netmap of every other peer.\<close>

lemma disabled_peer_stays_visible:
  assumes "setPeerDisabledStandalone True w name True r = (Inr (), r')" and "standalonePeerByName w name r = Some p" and "visible p"
    and "BuildForPeer env b q now later me = Some msg" and "peers_q q = Some (ListByWorkspace w r')" and "ID me \<noteq> ID p"
  shows "p_AppID p \<in> AppID ` set (ComputedPeers msg)"
proof -
  define p1 where "p1 = p\<lparr>p_Disabled := True\<rparr>"
  note m = by_name_Some [OF assms(2)]
  have upd: "Update_peer p1 r = Some r'"
    using assms(1,2) by (auto simp: setPeerDisabledStandalone_def update_result_def p1_def split: option.splits if_splits)
  then have "p1 \<in> set (ListByWorkspace w r')"
    using Update_peer_Some(2) [OF upd] m by (auto simp: p1_def ListByWorkspace_def)
  moreover have "visible p1" "ID p1 \<noteq> ID me" using assms(3,6) by (simp_all add: p1_def visible_def)
  moreover obtain sel where "ComputedPeers msg = map (netmap_peer env b sel) (filter (\<lambda>x. visible x \<and> ID x \<noteq> ID me) (ListByWorkspace w r'))"
    using assms(4,5) by (auto simp: BuildForPeer_def Let_def simp del: map_eq_conv split: option.splits)
  ultimately have "netmap_peer env b sel p1 \<in> set (ComputedPeers msg)" by simp
  moreover have "AppID (netmap_peer env b sel p1) = p_AppID p" using netmap_peer_identity(1) by (simp add: p1_def)
  ultimately show ?thesis by (metis imageI)
qed

text \<open>An administrator's disable does not survive a revocation followed by an approval.\<close>

lemma approval_lifts_disable:
  "p_Disabled p \<Longrightarrow> p_Address p \<noteq> [] \<Longrightarrow> approval_row w r ApprovalRevoked p = Inr p1 \<Longrightarrow>
   approval_row w r' ApprovalApproved p1 = Inr p2 \<Longrightarrow> \<not> p_Disabled p2"
  by (auto simp: approval_row_def Let_def ApprovalApproved_def ApprovalRevoked_def)

end
