(* ===== verification/Expiry.thy ===== *)
theory Expiry
  imports Runner
begin

text \<open>
  The time-to-live reconcilers of a standalone server, \<^verbatim>\<open>internal/server/reconcilers\<close>: agent
  identities expire (\<^verbatim>\<open>agent_identity_gc.go\<close>), the grace period of a replaced device ends
  (\<^verbatim>\<open>peer_identity_grace.go\<close>) and policies stop being active (\<^verbatim>\<open>policy_ttl.go\<close>). A table is a map
  from identifiers to rows, of which the rows carry the columns the reconcilers use; which store
  calls fail is a parameter. A result of \<^term>\<open>None\<close> is an error, which the runner retries.
\<close>

subsection \<open>Rows and faults\<close>

record AgentIdentity =
  ag_Name :: string
  ag_ExpiresAt :: "time option"
  Phase :: string

record grace_row =
  g_Name :: string
  PreviousPeerRef :: string
  g_PreviousPeerIP :: string
  g_ExpiresAt :: "time option"

record policy_ttl_row =
  pt_Name :: string
  Status :: string
  pt_ExpiresAt :: "time option"

record faults =
  get_fails :: bool
  update_fails :: bool

definition no_faults :: faults where
  "no_faults = \<lparr>get_fails = False, update_fails = False\<rparr>"

definition AgentPhasePending :: string where "AgentPhasePending = ''Pending''"
definition AgentPhaseActive :: string where "AgentPhaseActive = ''Active''"
definition AgentPhaseExpired :: string where "AgentPhaseExpired = ''Expired''"
definition AgentPhaseRevoked :: string where "AgentPhaseRevoked = ''Revoked''"
definition PolicyStatusActive :: string where "PolicyStatusActive = ''active''"
definition PolicyStatusExpired :: string where "PolicyStatusExpired = ''expired''"

lemmas phase_defs = AgentPhasePending_def AgentPhaseActive_def AgentPhaseExpired_def AgentPhaseRevoked_def
  PolicyStatusActive_def PolicyStatusExpired_def

subsection \<open>Reconcilers\<close>

definition requeueAfter :: "time \<Rightarrow> time \<Rightarrow> duration" where
  "requeueAfter now deadline = (let d = deadline - now + Second in if d < Second then Second else d)"

definition UpdatePhase :: "string \<Rightarrow> string \<Rightarrow> (string \<rightharpoonup> AgentIdentity) \<Rightarrow> string \<rightharpoonup> AgentIdentity" where
  "UpdatePhase k ph tbl = (case tbl k of None \<Rightarrow> tbl | Some r \<Rightarrow> tbl(k \<mapsto> r\<lparr>Phase := ph\<rparr>))"

definition Reconcile_gc ::
  "faults \<Rightarrow> time \<Rightarrow> Request \<Rightarrow> (string \<rightharpoonup> AgentIdentity) \<Rightarrow> Result option \<times> (string \<rightharpoonup> AgentIdentity)" where
  "Reconcile_gc f now req tbl =
     (if get_fails f then (None, tbl)
      else (case tbl (Key req) of
              None \<Rightarrow> (Some \<lparr>RequeueAfter = 0\<rparr>, tbl)
            | Some r \<Rightarrow>
                if Phase r = AgentPhaseExpired \<or> Phase r = AgentPhaseRevoked then (Some \<lparr>RequeueAfter = 0\<rparr>, tbl)
                else if (case ag_ExpiresAt r of None \<Rightarrow> False | Some t \<Rightarrow> now > t)
                then (if update_fails f then (None, tbl)
                      else (Some \<lparr>RequeueAfter = 0\<rparr>, UpdatePhase (Key req) AgentPhaseExpired tbl))
                else (let pend = (Phase r = '''' \<or> Phase r = AgentPhasePending)
                      in if pend \<and> update_fails f then (None, tbl)
                         else (Some \<lparr>RequeueAfter = (case ag_ExpiresAt r of None \<Rightarrow> 0 | Some t \<Rightarrow> requeueAfter now t)\<rparr>,
                               if pend then UpdatePhase (Key req) AgentPhaseActive tbl else tbl))))"

definition ClearGracePeriod :: "string \<Rightarrow> (string \<rightharpoonup> grace_row) \<Rightarrow> string \<rightharpoonup> grace_row" where
  "ClearGracePeriod k tbl =
     (case tbl k of None \<Rightarrow> tbl
      | Some r \<Rightarrow> tbl(k \<mapsto> r\<lparr>PreviousPeerRef := '''', g_PreviousPeerIP := '''', g_ExpiresAt := None\<rparr>))"

definition Reconcile_grace ::
  "faults \<Rightarrow> time \<Rightarrow> Request \<Rightarrow> (string \<rightharpoonup> grace_row) \<Rightarrow> Result option \<times> (string \<rightharpoonup> grace_row)" where
  "Reconcile_grace f now req tbl =
     (if get_fails f then (None, tbl)
      else (case tbl (Key req) of
              None \<Rightarrow> (Some \<lparr>RequeueAfter = 0\<rparr>, tbl)
            | Some r \<Rightarrow>
                (case g_ExpiresAt r of
                   None \<Rightarrow> (Some \<lparr>RequeueAfter = 0\<rparr>, tbl)
                 | Some t \<Rightarrow>
                     if \<not> now > t then (Some \<lparr>RequeueAfter = requeueAfter now t\<rparr>, tbl)
                     else if update_fails f then (None, tbl)
                     else (Some \<lparr>RequeueAfter = 0\<rparr>, ClearGracePeriod (Key req) tbl))))"

definition UpdateStatus_policy :: "string \<Rightarrow> string \<Rightarrow> (string \<rightharpoonup> policy_ttl_row) \<Rightarrow> string \<rightharpoonup> policy_ttl_row" where
  "UpdateStatus_policy k st tbl = (case tbl k of None \<Rightarrow> tbl | Some r \<Rightarrow> tbl(k \<mapsto> r\<lparr>Status := st\<rparr>))"

definition Reconcile_ttl ::
  "faults \<Rightarrow> time \<Rightarrow> Request \<Rightarrow> (string \<rightharpoonup> policy_ttl_row) \<Rightarrow> Result option \<times> (string \<rightharpoonup> policy_ttl_row)" where
  "Reconcile_ttl f now req tbl =
     (if get_fails f then (None, tbl)
      else (case tbl (Key req) of
              None \<Rightarrow> (Some \<lparr>RequeueAfter = 0\<rparr>, tbl)
            | Some r \<Rightarrow>
                (case pt_ExpiresAt r of
                   None \<Rightarrow> (Some \<lparr>RequeueAfter = 0\<rparr>, tbl)
                 | Some t \<Rightarrow>
                     if Status r \<noteq> PolicyStatusActive then (Some \<lparr>RequeueAfter = 0\<rparr>, tbl)
                     else if \<not> now > t then (Some \<lparr>RequeueAfter = requeueAfter now t\<rparr>, tbl)
                     else if update_fails f then (None, tbl)
                     else (Some \<lparr>RequeueAfter = 0\<rparr>, UpdateStatus_policy (Key req) PolicyStatusExpired tbl))))"

text \<open>The listers hand every identifier of their table to the runner.\<close>

definition KindAgentIdentity :: string where "KindAgentIdentity = ''AgentIdentity''"
definition KindPeerIdentity :: string where "KindPeerIdentity = ''PeerIdentity''"
definition KindPolicy :: string where "KindPolicy = ''LatticePolicy''"

definition ListKeys :: "string \<Rightarrow> string list option \<Rightarrow> Request list option" where
  "ListKeys kind ids = map_option (map (\<lambda>i. \<lparr>Kind = kind, Key = i\<rparr>)) ids"

subsection \<open>The contract of a time-to-live reconciler\<close>

text \<open>
  \<open>due\<close> is the deadline the resource still has. Up to the deadline the reconciler asks to be run again
  and keeps the deadline; after it, the deadline is taken away and no run is asked for.
\<close>

locale ttl_reconciler =
  fixes reconcile :: "time \<Rightarrow> 't \<Rightarrow> Result option \<times> 't"
    and due :: "'t \<Rightarrow> time option"
  assumes early: "due t = Some d \<Longrightarrow> now \<le> d \<Longrightarrow>
      fst (reconcile now t) = Some \<lparr>RequeueAfter = requeueAfter now d\<rparr> \<and> due (snd (reconcile now t)) = Some d"
    and late: "due t = Some d \<Longrightarrow> d < now \<Longrightarrow>
      fst (reconcile now t) = Some \<lparr>RequeueAfter = 0\<rparr> \<and> due (snd (reconcile now t)) = None"
begin

lemma requeue_after_deadline:
  assumes "now \<le> d"
  shows "0 < requeueAfter now d" and "d < now + requeueAfter now d" and "now + requeueAfter now d \<le> d + Second"
  using assms by (simp_all add: requeueAfter_def time_defs)

lemma converges:
  assumes "due t = Some d" and "now \<le> d" and "reconcile now t = (Some r, t')" and "now + RequeueAfter r \<le> later"
  shows "0 < RequeueAfter r \<and> now + RequeueAfter r \<le> d + Second \<and> due t' = Some d \<and> due (snd (reconcile later t')) = None"
proof -
  have r: "r = \<lparr>RequeueAfter = requeueAfter now d\<rparr>" "due t' = Some d" using early [OF assms(1,2)] assms(3) by auto
  have "d < later" using requeue_after_deadline(2) [OF assms(2)] assms(4) r(1) by simp
  from late [OF r(2) this] show ?thesis using requeue_after_deadline [OF assms(2)] r by simp
qed

end

definition due_gc :: "Request \<Rightarrow> (string \<rightharpoonup> AgentIdentity) \<Rightarrow> time option" where
  "due_gc req tbl = (case tbl (Key req) of None \<Rightarrow> None
     | Some r \<Rightarrow> if Phase r = AgentPhaseExpired \<or> Phase r = AgentPhaseRevoked then None else ag_ExpiresAt r)"

definition due_grace :: "Request \<Rightarrow> (string \<rightharpoonup> grace_row) \<Rightarrow> time option" where
  "due_grace req tbl = (case tbl (Key req) of None \<Rightarrow> None | Some r \<Rightarrow> g_ExpiresAt r)"

definition due_ttl :: "Request \<Rightarrow> (string \<rightharpoonup> policy_ttl_row) \<Rightarrow> time option" where
  "due_ttl req tbl = (case tbl (Key req) of None \<Rightarrow> None
     | Some r \<Rightarrow> if Status r = PolicyStatusActive then pt_ExpiresAt r else None)"

interpretation gc: ttl_reconciler "\<lambda>now. Reconcile_gc no_faults now req" "due_gc req" for req
proof
  show "due_gc req t = Some d \<Longrightarrow> now \<le> d \<Longrightarrow>
      fst (Reconcile_gc no_faults now req t) = Some \<lparr>RequeueAfter = requeueAfter now d\<rparr> \<and>
      due_gc req (snd (Reconcile_gc no_faults now req t)) = Some d" for t d now
    by (auto simp: due_gc_def Reconcile_gc_def no_faults_def UpdatePhase_def phase_defs Let_def split: option.splits if_splits)
  show "due_gc req t = Some d \<Longrightarrow> d < now \<Longrightarrow>
      fst (Reconcile_gc no_faults now req t) = Some \<lparr>RequeueAfter = 0\<rparr> \<and>
      due_gc req (snd (Reconcile_gc no_faults now req t)) = None" for t d now
    by (auto simp: due_gc_def Reconcile_gc_def no_faults_def UpdatePhase_def phase_defs Let_def split: option.splits if_splits)
qed

interpretation grace: ttl_reconciler "\<lambda>now. Reconcile_grace no_faults now req" "due_grace req" for req
  by unfold_locales (auto simp: due_grace_def Reconcile_grace_def no_faults_def ClearGracePeriod_def split: option.splits)

interpretation pttl: ttl_reconciler "\<lambda>now. Reconcile_ttl no_faults now req" "due_ttl req" for req
  by unfold_locales (auto simp: due_ttl_def Reconcile_ttl_def no_faults_def UpdateStatus_policy_def phase_defs
      split: option.splits if_splits)

subsection \<open>Lemmas\<close>

text \<open>A failing store changes nothing and reports an error or had nothing to write.\<close>

lemma gc_error_keeps: "fst (Reconcile_gc f now req tbl) = None \<Longrightarrow> snd (Reconcile_gc f now req tbl) = tbl"
  by (auto simp: Reconcile_gc_def Let_def split: option.splits if_splits)

text \<open>
  The reconciler decides on the phase it read and writes without looking again: when an identity is
  revoked in between, the write of a pending identity's activation undoes the revocation.
\<close>

lemma gc_undoes_revocation:
  assumes "tbl k = Some r" and "Phase r = AgentPhasePending" and "ag_ExpiresAt r = None"
  shows "map_option Phase (UpdatePhase k AgentPhaseActive (UpdatePhase k AgentPhaseRevoked tbl) k) = Some AgentPhaseActive"
  using assms by (simp add: UpdatePhase_def)

subsection \<open>Properties\<close>


definition ex_tbl :: "string \<rightharpoonup> policy_ttl_row" where
  "ex_tbl = [''p'' \<mapsto> \<lparr>pt_Name = ''p'', Status = ''active'', pt_ExpiresAt = Some 5\<rparr>]"


end
