(* ===== verification/Access.thy ===== *)
theory Access
  imports Prelude
begin

text \<open>
  Who a request comes from and what it may do: the bearer-token middlewares of
  \<^verbatim>\<open>internal/server/server/middleware\<close>, the revocation list (\<^verbatim>\<open>internal/server/auth\<close>), the
  workspace role check (\<^verbatim>\<open>internal/server/permission/checker.go\<close>) and the rotation of refresh
  tokens (\<^verbatim>\<open>internal/server/service/auth.go\<close>). Parsing and signing of JSON web tokens, SHA-256 and
  the random values are parameters; store calls that can fail say so in an argument.
\<close>

subsection \<open>Roles\<close>

definition GetRoleWeight :: "string \<Rightarrow> nat" where
  "GetRoleWeight r = (if r = ''admin'' then 100 else if r = ''editor'' then 80 else if r = ''member'' then 40
     else if r = ''viewer'' then 10 else 0)"

definition SystemRolePlatformAdmin :: string where
  "SystemRolePlatformAdmin = ''platform_admin''"

record User =
  u_ID :: string
  u_SystemRole :: string
  u_Username :: string
  u_Email :: string
  u_Deleted :: bool

record WorkspaceMember =
  m_Role :: string
  m_Status :: string

text \<open>What the store answers; \<^term>\<open>None\<close> is any error.\<close>

record directory =
  users :: "string \<rightharpoonup> User"
  membership :: "string \<Rightarrow> string \<rightharpoonup> WorkspaceMember"

datatype perm_error = UserNotFound | NotMember | Suspended | Insufficient

definition RequireWorkspaceRole :: "directory \<Rightarrow> string \<Rightarrow> string \<Rightarrow> string \<Rightarrow> perm_error + WorkspaceMember option" where
  "RequireWorkspaceRole d wsID userID role =
     (case users d userID of
        None \<Rightarrow> Inl UserNotFound
      | Some u \<Rightarrow>
          if u_SystemRole u = SystemRolePlatformAdmin then Inr None
          else (case membership d wsID userID of
                  None \<Rightarrow> Inl NotMember
                | Some m \<Rightarrow>
                    if m_Status m = ''suspended'' \<or> m_Status m = ''removed'' then Inl Suspended
                    else if GetRoleWeight (m_Role m) < GetRoleWeight role then Inl Insufficient
                    else Inr (Some m)))"

datatype client_result = Denied perm_error | ClientFor string string string | NilMemberPanic

definition K8sClient :: "directory \<Rightarrow> string \<Rightarrow> string \<Rightarrow> client_result" where
  "K8sClient d wsID userID =
     (case RequireWorkspaceRole d wsID userID ''viewer'' of
        Inl e \<Rightarrow> Denied e
      | Inr None \<Rightarrow> NilMemberPanic
      | Inr (Some m) \<Rightarrow> ClientFor wsID userID (m_Role m))"

subsection \<open>Revocation list\<close>

type_synonym RevocationList = "string \<rightharpoonup> time"

definition Revoke :: "string \<Rightarrow> time \<Rightarrow> RevocationList \<Rightarrow> RevocationList" where
  "Revoke jti expiresAt rl = rl(jti \<mapsto> expiresAt)"

definition IsRevoked :: "string \<Rightarrow> RevocationList \<Rightarrow> bool" where
  "IsRevoked jti rl \<longleftrightarrow> rl jti \<noteq> None"

definition Cleanup :: "time \<Rightarrow> RevocationList \<Rightarrow> RevocationList" where
  "Cleanup now rl = (\<lambda>jti. case rl jti of None \<Rightarrow> None | Some e \<Rightarrow> if e < now then None else Some e)"

subsection \<open>Middlewares\<close>

record LatticeClaims =
  c_ID :: string
  c_Subject :: string
  c_Email :: string
  c_Username :: string
  c_SystemRole :: string
  c_ExpiresAt :: "time option"

record http_request =
  Authorization :: string
  X_Workspace_Id :: string
  param_id :: string

record gin_context =
  user_id :: string
  username :: string
  email :: string
  system_role :: string
  jti :: string
  exp_at :: "time option"
  workspace_id :: string
  currentTeamMember :: "WorkspaceMember option"

definition no_context :: gin_context where
  "no_context = \<lparr>user_id = [], username = [], email = [], system_role = [], jti = [], exp_at = None, workspace_id = [],
     currentTeamMember = None\<rparr>"

text \<open>A token without an expiry passes the parser and then crashes the handler that copies the expiry.\<close>

datatype mw_result = Unauthorized string | Forbidden string | NilExpiryPanic | Next gin_context

definition AuthMiddleware ::
  "(string \<Rightarrow> LatticeClaims option) \<Rightarrow> RevocationList option \<Rightarrow> http_request \<Rightarrow> gin_context \<Rightarrow> mw_result" where
  "AuthMiddleware parseToken revocationList req c =
     (let authHeader = Authorization req
      in if authHeader = [] \<or> \<not> HasPrefix authHeader ''Bearer ''
         then Unauthorized ''Unauthorized, please log in first''
         else (case parseToken (drop 7 authHeader) of
                 None \<Rightarrow> Unauthorized ''Invalid token''
               | Some claims \<Rightarrow>
                   if (case revocationList of None \<Rightarrow> False | Some rl \<Rightarrow> c_ID claims \<noteq> [] \<and> IsRevoked (c_ID claims) rl)
                   then Unauthorized ''token has been revoked''
                   else if c_ExpiresAt claims = None then NilExpiryPanic
                   else Next (c\<lparr>user_id := c_Subject claims, username := c_Username claims, email := c_Email claims,
                            system_role := c_SystemRole claims, jti := c_ID claims, exp_at := c_ExpiresAt claims\<rparr>)))"

text \<open>The first steps of the workspace middleware repeat those of the plain one.\<close>

definition WorkspaceAuthMiddleware ::
  "(string \<Rightarrow> LatticeClaims option) \<Rightarrow> RevocationList option \<Rightarrow> directory \<Rightarrow> string \<Rightarrow> http_request \<Rightarrow> gin_context \<Rightarrow> mw_result" where
  "WorkspaceAuthMiddleware parseToken revocationList d requiredRole req c =
     (case AuthMiddleware parseToken revocationList req c of
        Next c1 \<Rightarrow>
          (let wsID = (if X_Workspace_Id req = [] then param_id req else X_Workspace_Id req)
           in if wsID = [] then Forbidden ''workspace required: set X-Workspace-Id header or include :id in path''
              else if system_role c1 = SystemRolePlatformAdmin then Next (c1\<lparr>workspace_id := wsID\<rparr>)
              else (case RequireWorkspaceRole d wsID (user_id c1) requiredRole of
                      Inl _ \<Rightarrow> Forbidden ''Insufficient permissions''
                    | Inr m \<Rightarrow> Next (c1\<lparr>workspace_id := wsID, currentTeamMember := m\<rparr>)))
      | r \<Rightarrow> r)"

definition PlatformAdminOnly :: "gin_context \<Rightarrow> mw_result" where
  "PlatformAdminOnly c =
     (if system_role c \<noteq> SystemRolePlatformAdmin then Forbidden ''platform admin only'' else Next c)"

subsection \<open>Refresh tokens\<close>

record RefreshToken =
  rt_ID :: string
  rt_UserID :: string
  TokenHash :: string
  rt_ExpiresAt :: time
  RevokedAt :: "time option"

type_synonym token_table = "RefreshToken list"

definition GetByHash :: "string \<Rightarrow> token_table \<Rightarrow> RefreshToken option" where
  "GetByHash h rows = find (\<lambda>r. TokenHash r = h) rows"

definition Revoke_row :: "string \<Rightarrow> time \<Rightarrow> token_table \<Rightarrow> token_table" where
  "Revoke_row i now rows = map (\<lambda>r. if rt_ID r = i then r\<lparr>RevokedAt := Some now\<rparr> else r) rows"

definition RevokeAllByUser :: "string \<Rightarrow> time \<Rightarrow> token_table \<Rightarrow> token_table" where
  "RevokeAllByUser u now rows =
     map (\<lambda>r. if rt_UserID r = u \<and> RevokedAt r = None then r\<lparr>RevokedAt := Some now\<rparr> else r) rows"

text \<open>The identifier is the primary key and the hash has a unique index.\<close>

definition Create_row :: "RefreshToken \<Rightarrow> token_table \<Rightarrow> token_table option" where
  "Create_row r rows =
     (if list_ex (\<lambda>x. rt_ID x = rt_ID r \<or> TokenHash x = TokenHash r) rows then None else Some (rows @ [r]))"

datatype refresh_error = InvalidRefreshToken | RefreshRevoked | RefreshExpired | NoSuchUser | UserDisabled | StoreError

text \<open>\<open>read_fails\<close> and \<open>tx_fails\<close> say which store calls fail; a failed transaction is rolled back.\<close>

record token_env =
  HashRefreshToken :: "string \<Rightarrow> string"
  SignedString :: "LatticeClaims \<Rightarrow> string option"
  t_users :: "string \<rightharpoonup> User"
  read_fails :: bool
  tx_fails :: bool

record fresh_values =
  new_jti :: string
  new_id :: string
  new_raw :: string

definition refresh_read :: "token_env \<Rightarrow> time \<Rightarrow> string \<Rightarrow> token_table \<Rightarrow> refresh_error + RefreshToken \<times> User" where
  "refresh_read e now refreshTokenRaw rows =
     (if read_fails e then Inl StoreError
      else case GetByHash (HashRefreshToken e refreshTokenRaw) rows of
             None \<Rightarrow> Inl InvalidRefreshToken
           | Some rt \<Rightarrow>
               if RevokedAt rt \<noteq> None then Inl RefreshRevoked
               else if rt_ExpiresAt rt < now then Inl RefreshExpired
               else (case t_users e (rt_UserID rt) of
                       None \<Rightarrow> Inl NoSuchUser
                     | Some u \<Rightarrow> if u_Deleted u then Inl UserDisabled else Inr (rt, u)))"

definition access_claims :: "time \<Rightarrow> User \<Rightarrow> string \<Rightarrow> LatticeClaims" where
  "access_claims now u i = \<lparr>c_ID = i, c_Subject = u_ID u, c_Email = u_Email u, c_Username = u_Username u,
     c_SystemRole = u_SystemRole u, c_ExpiresAt = Some (now + 15 * Minute)\<rparr>"

definition Hour :: duration where
  "Hour = 60 * Minute"

definition refresh_tx ::
  "token_env \<Rightarrow> time \<Rightarrow> fresh_values \<Rightarrow> RefreshToken \<times> User \<Rightarrow> token_table \<Rightarrow> (refresh_error + string \<times> string) \<times> token_table" where
  "refresh_tx e now f ru rows =
     (if tx_fails e then (Inl StoreError, rows)
      else case SignedString e (access_claims now (snd ru) (new_jti f)) of
             None \<Rightarrow> (Inl StoreError, rows)
           | Some at \<Rightarrow>
               (case Create_row \<lparr>rt_ID = new_id f, rt_UserID = rt_UserID (fst ru),
                       TokenHash = HashRefreshToken e (new_raw f), rt_ExpiresAt = now + 720 * Hour, RevokedAt = None\<rparr>
                       (Revoke_row (rt_ID (fst ru)) now rows) of
                  None \<Rightarrow> (Inl StoreError, rows)
                | Some rows' \<Rightarrow> (Inr (at, new_raw f), rows')))"

definition RefreshAccessToken ::
  "token_env \<Rightarrow> time \<Rightarrow> fresh_values \<Rightarrow> string \<Rightarrow> token_table \<Rightarrow> (refresh_error + string \<times> string) \<times> token_table" where
  "RefreshAccessToken e now f refreshTokenRaw rows =
     (case refresh_read e now refreshTokenRaw rows of Inl err \<Rightarrow> (Inl err, rows) | Inr ru \<Rightarrow> refresh_tx e now f ru rows)"

definition Logout :: "token_env \<Rightarrow> time \<Rightarrow> string \<Rightarrow> token_table \<Rightarrow> (refresh_error + unit) \<times> token_table" where
  "Logout e now refreshTokenRaw rows =
     (if read_fails e then (Inl StoreError, rows)
      else case GetByHash (HashRefreshToken e refreshTokenRaw) rows of
             None \<Rightarrow> (Inr (), rows)
           | Some rt \<Rightarrow> if tx_fails e then (Inl StoreError, rows) else (Inr (), Revoke_row (rt_ID rt) now rows))"

definition safeRefreshError :: "refresh_error \<Rightarrow> string" where
  "safeRefreshError err =
     (case err of InvalidRefreshToken \<Rightarrow> ''invalid refresh token''
      | RefreshRevoked \<Rightarrow> ''refresh token has been revoked''
      | RefreshExpired \<Rightarrow> ''refresh token has expired''
      | NoSuchUser \<Rightarrow> ''user not found''
      | UserDisabled \<Rightarrow> ''user account is disabled''
      | StoreError \<Rightarrow> ''refresh failed'')"

text \<open>Any interleaving of logins, refreshes cut between their read and their transaction, logouts and sweeps.\<close>

inductive token_step :: "token_table \<Rightarrow> token_table \<Rightarrow> bool" where
  login: "Create_row r rows = Some rows' \<Longrightarrow> token_step rows rows'"
| rotate: "token_step rows (snd (refresh_tx e now f ru rows))"
| logout: "token_step rows (snd (Logout e now raw rows))"
| sweep: "token_step rows (RevokeAllByUser u now rows)"

definition spent :: "string \<Rightarrow> token_table \<Rightarrow> bool" where
  "spent h rows \<longleftrightarrow> (case GetByHash h rows of None \<Rightarrow> False | Some r \<Rightarrow> RevokedAt r \<noteq> None)"

subsection \<open>Lemmas\<close>

lemma GetByHash_map:
  assumes "\<And>r. TokenHash (f r) = TokenHash r"
  shows "GetByHash h (map f rows) = map_option f (GetByHash h rows)"
  by (induction rows) (auto simp: GetByHash_def assms)

lemma GetByHash_Revoke:
  "GetByHash h (Revoke_row i now rows) = map_option (\<lambda>r. if rt_ID r = i then r\<lparr>RevokedAt := Some now\<rparr> else r) (GetByHash h rows)"
  unfolding Revoke_row_def by (rule GetByHash_map) simp

lemma GetByHash_Some: "GetByHash h rows = Some r \<Longrightarrow> r \<in> set rows \<and> TokenHash r = h"
  unfolding GetByHash_def by (auto simp: find_Some_iff)

lemma GetByHash_append:
  "GetByHash h (rows @ [r]) = (case GetByHash h rows of Some x \<Rightarrow> Some x | None \<Rightarrow> if TokenHash r = h then Some r else None)"
  by (induction rows) (auto simp: GetByHash_def)

lemma Create_row_Some:
  "Create_row r rows = Some rows' \<longleftrightarrow> rows' = rows @ [r] \<and> (\<forall>x \<in> set rows. rt_ID x \<noteq> rt_ID r \<and> TokenHash x \<noteq> TokenHash r)"
  by (auto simp: Create_row_def list_ex_iff)

lemma spent_Revoke: "spent h rows \<Longrightarrow> spent h (Revoke_row i now rows)"
  by (simp add: spent_def GetByHash_Revoke split: option.splits)

lemma spent_Create: "spent h rows \<Longrightarrow> Create_row r rows = Some rows' \<Longrightarrow> spent h rows'"
  by (auto simp: spent_def Create_row_Some GetByHash_append split: option.splits)

lemma spent_sweep: "spent h rows \<Longrightarrow> spent h (RevokeAllByUser u now rows)"
  unfolding spent_def RevokeAllByUser_def by (subst GetByHash_map) (simp_all split: option.splits)

lemma spent_tx: "spent h rows \<Longrightarrow> spent h (snd (refresh_tx e now f ru rows))"
  by (auto simp: refresh_tx_def split: option.splits intro: spent_Create [OF spent_Revoke])

lemma spent_logout: "spent h rows \<Longrightarrow> spent h (snd (Logout e now raw rows))"
  by (auto simp: Logout_def spent_Revoke split: option.splits)

lemma spent_step: "token_step rows rows' \<Longrightarrow> spent h rows \<Longrightarrow> spent h rows'"
  by (induction rule: token_step.induct) (auto intro: spent_Create spent_tx spent_logout spent_sweep)

interpretation tok: inductive_invariant "spent h" token_step "spent h" for h
  by unfold_locales (auto intro: spent_step)

lemma spent_refused: "spent (HashRefreshToken e raw) rows \<Longrightarrow> fst (RefreshAccessToken e now f raw rows) \<in> {Inl RefreshRevoked, Inl StoreError}"
  by (cases "GetByHash (HashRefreshToken e raw) rows") (auto simp: spent_def RefreshAccessToken_def refresh_read_def)

lemma refresh_read_Inr:
  "refresh_read e now raw rows = Inr (rt, u) \<longleftrightarrow>
     \<not> read_fails e \<and> GetByHash (HashRefreshToken e raw) rows = Some rt \<and> RevokedAt rt = None \<and> now \<le> rt_ExpiresAt rt \<and>
     t_users e (rt_UserID rt) = Some u \<and> \<not> u_Deleted u"
  by (auto simp: refresh_read_def split: option.splits if_splits)

lemma refresh_tx_Inr:
  assumes "refresh_tx e now f (rt, u) rows = (Inr (at, raw'), rows')"
  shows "raw' = new_raw f" "SignedString e (access_claims now u (new_jti f)) = Some at"
    "GetByHash (HashRefreshToken e raw') rows = None"
    "rows' = Revoke_row (rt_ID rt) now rows @ [\<lparr>rt_ID = new_id f, rt_UserID = rt_UserID rt,
       TokenHash = HashRefreshToken e raw', rt_ExpiresAt = now + 720 * Hour, RevokedAt = None\<rparr>]"
proof -
  show r: "raw' = new_raw f" and "SignedString e (access_claims now u (new_jti f)) = Some at"
    and "rows' = Revoke_row (rt_ID rt) now rows @ [\<lparr>rt_ID = new_id f, rt_UserID = rt_UserID rt,
       TokenHash = HashRefreshToken e raw', rt_ExpiresAt = now + 720 * Hour, RevokedAt = None\<rparr>]"
    using assms by (auto simp: refresh_tx_def Create_row_Some split: if_splits option.splits)
  have "\<forall>x \<in> set (Revoke_row (rt_ID rt) now rows). TokenHash x \<noteq> HashRefreshToken e raw'"
    using assms by (auto simp: refresh_tx_def Create_row_Some split: if_splits option.splits)
  then have "GetByHash (HashRefreshToken e raw') (Revoke_row (rt_ID rt) now rows) = None"
    by (auto simp: GetByHash_def find_None_iff)
  then show "GetByHash (HashRefreshToken e raw') rows = None" by (simp add: GetByHash_Revoke)
qed

lemma revoked_until_expiry:
  "rl j = Some e \<Longrightarrow> \<forall>t \<in> set ts. t \<le> e \<Longrightarrow> IsRevoked j (fold Cleanup ts rl)"
proof (induction ts arbitrary: rl)
  case (Cons t ts)
  then show ?case by (simp add: Cleanup_def)
qed (simp add: IsRevoked_def)


lemma spent_after_refresh:
  assumes "RefreshAccessToken e now f raw rows = (Inr out, rows')"
  shows "spent (HashRefreshToken e raw) rows'"
proof -
  obtain rt u where r: "refresh_read e now raw rows = Inr (rt, u)" and t: "refresh_tx e now f (rt, u) rows = (Inr out, rows')"
    using assms by (auto simp: RefreshAccessToken_def split: sum.splits)
  obtain at raw' where out: "out = (at, raw')" by (cases out)
  show ?thesis
    using r refresh_tx_Inr(4) [OF t [unfolded out]]
    by (simp add: refresh_read_Inr spent_def GetByHash_append GetByHash_Revoke)
qed

lemma refresh_new_valid:
  assumes "RefreshAccessToken e now f raw rows = (Inr (at, raw'), rows')" and "\<not> read_fails e'" and "HashRefreshToken e' = HashRefreshToken e"
    and "t_users e' = t_users e" and "now' \<le> now + 720 * Hour"
  shows "\<exists>rt u. refresh_read e' now' raw' rows' = Inr (rt, u)"
proof -
  obtain rt u where r: "refresh_read e now raw rows = Inr (rt, u)" and t: "refresh_tx e now f (rt, u) rows = (Inr (at, raw'), rows')"
    using assms(1) by (auto simp: RefreshAccessToken_def split: sum.splits)
  show ?thesis
    using r refresh_tx_Inr(3,4) [OF t] assms(2-)
    by (simp add: refresh_read_Inr GetByHash_append GetByHash_Revoke)
qed

lemma HasPrefix_append: "HasPrefix s p \<longleftrightarrow> (\<exists>t. s = p @ t)"
  unfolding HasPrefix_def by (metis append_take_drop_id append_eq_conv_conj)

lemma AuthMiddleware_Next:
  "AuthMiddleware parseToken (Some rl) req c = Next c1 \<longleftrightarrow>
     (\<exists>token claims. Authorization req = ''Bearer '' @ token \<and> parseToken token = Some claims \<and> c_ExpiresAt claims \<noteq> None \<and>
        (c_ID claims = [] \<or> \<not> IsRevoked (c_ID claims) rl) \<and>
        c1 = c\<lparr>user_id := c_Subject claims, username := c_Username claims, email := c_Email claims,
          system_role := c_SystemRole claims, jti := c_ID claims, exp_at := c_ExpiresAt claims\<rparr>)"
proof (cases "\<exists>token. Authorization req = ''Bearer '' @ token")
  case False
  then have "\<not> HasPrefix (Authorization req) ''Bearer ''" by (simp only: HasPrefix_append) simp
  then show ?thesis using False by (simp add: AuthMiddleware_def)
next
  case True
  then obtain token where tok: "Authorization req = ''Bearer '' @ token" by blast
  have "HasPrefix (Authorization req) ''Bearer ''" unfolding HasPrefix_append tok by blast
  moreover have "Authorization req \<noteq> []" "drop 7 (Authorization req) = token" by (simp_all add: tok)
  ultimately have e: "AuthMiddleware parseToken (Some rl) req c = (case parseToken token of
      None \<Rightarrow> Unauthorized ''Invalid token''
    | Some claims \<Rightarrow>
        if c_ID claims \<noteq> [] \<and> IsRevoked (c_ID claims) rl then Unauthorized ''token has been revoked''
        else if c_ExpiresAt claims = None then NilExpiryPanic
        else Next (c\<lparr>user_id := c_Subject claims, username := c_Username claims, email := c_Email claims,
          system_role := c_SystemRole claims, jti := c_ID claims, exp_at := c_ExpiresAt claims\<rparr>))"
    by (simp add: AuthMiddleware_def Let_def split: option.split)
  have t: "Authorization req = ''Bearer '' @ t \<longleftrightarrow> t = token" for t by (auto simp: tok)
  show ?thesis unfolding e t by (cases "parseToken token") auto
qed

lemma require_role_Inr:
  "RequireWorkspaceRole d wsID userID role = Inr m \<longleftrightarrow>
     (\<exists>u. users d userID = Some u \<and>
        (if u_SystemRole u = SystemRolePlatformAdmin then m = None
         else \<exists>mem. m = Some mem \<and> membership d wsID userID = Some mem \<and>
           m_Status mem \<notin> {''suspended'', ''removed''} \<and> GetRoleWeight role \<le> GetRoleWeight (m_Role mem)))"
  unfolding RequireWorkspaceRole_def
  by (cases "users d userID"; cases "membership d wsID userID") (simp_all split: if_splits, blast+)

lemma WorkspaceAuth_Next:
  assumes "wsID = (if X_Workspace_Id req = [] then param_id req else X_Workspace_Id req)"
  shows "WorkspaceAuthMiddleware parseToken (Some rl) d role req no_context = Next c \<longleftrightarrow>
    (\<exists>c1. AuthMiddleware parseToken (Some rl) req no_context = Next c1 \<and> wsID \<noteq> [] \<and>
      (if system_role c1 = SystemRolePlatformAdmin then c = c1\<lparr>workspace_id := wsID\<rparr>
       else \<exists>m. RequireWorkspaceRole d wsID (user_id c1) role = Inr m \<and> c = c1\<lparr>workspace_id := wsID, currentTeamMember := m\<rparr>))"
  unfolding WorkspaceAuthMiddleware_def Let_def assms [symmetric]
  by (cases "AuthMiddleware parseToken (Some rl) req no_context") (auto split: sum.splits)

subsection \<open>Properties\<close>

text \<open>
  C5. The workspace middleware lets a request through exactly when it carries a bearer token that
  parses, is not revoked and has an expiry, a workspace is named, and the token's holder is a
  platform administrator by the token, or one by the user table, or a member who is neither
  suspended nor removed and whose role weighs at least the required one. The request then runs as
  the subject of that token in the named workspace.
\<close>

theorem workspace_auth_exact:
  "WorkspaceAuthMiddleware parseToken (Some rl) d role req no_context = Next c \<longleftrightarrow>
     (\<exists>token claims wsID m.
        Authorization req = ''Bearer '' @ token \<and> parseToken token = Some claims \<and> c_ExpiresAt claims \<noteq> None \<and>
        (c_ID claims = [] \<or> \<not> IsRevoked (c_ID claims) rl) \<and>
        wsID = (if X_Workspace_Id req = [] then param_id req else X_Workspace_Id req) \<and> wsID \<noteq> [] \<and>
        c = \<lparr>user_id = c_Subject claims, username = c_Username claims, email = c_Email claims, system_role = c_SystemRole claims,
          jti = c_ID claims, exp_at = c_ExpiresAt claims, workspace_id = wsID, currentTeamMember = m\<rparr> \<and>
        (if c_SystemRole claims = SystemRolePlatformAdmin then m = None
         else \<exists>u. users d (c_Subject claims) = Some u \<and>
           (if u_SystemRole u = SystemRolePlatformAdmin then m = None
            else \<exists>mem. m = Some mem \<and> membership d wsID (c_Subject claims) = Some mem \<and>
              m_Status mem \<notin> {''suspended'', ''removed''} \<and> GetRoleWeight role \<le> GetRoleWeight (m_Role mem))))"
proof -
  define wsID where "wsID = (if X_Workspace_Id req = [] then param_id req else X_Workspace_Id req)"
  show ?thesis
    unfolding WorkspaceAuth_Next [OF wsID_def]
  proof (rule iffI, goal_cases)
    case 1
    then obtain token claims c1 where q: "Authorization req = ''Bearer '' @ token" "parseToken token = Some claims"
        "c_ExpiresAt claims \<noteq> None" "c_ID claims = [] \<or> \<not> IsRevoked (c_ID claims) rl" "wsID \<noteq> []"
      and c1: "c1 = no_context\<lparr>user_id := c_Subject claims, username := c_Username claims, email := c_Email claims,
          system_role := c_SystemRole claims, jti := c_ID claims, exp_at := c_ExpiresAt claims\<rparr>"
      and c: "if system_role c1 = SystemRolePlatformAdmin then c = c1\<lparr>workspace_id := wsID\<rparr>
        else \<exists>m. RequireWorkspaceRole d wsID (user_id c1) role = Inr m \<and> c = c1\<lparr>workspace_id := wsID, currentTeamMember := m\<rparr>"
      unfolding AuthMiddleware_Next by blast
    show ?case
    proof (cases "c_SystemRole claims = SystemRolePlatformAdmin")
      case True
      with q c show ?thesis
        by (intro exI [of _ token] exI [of _ claims] exI [of _ wsID] exI [of _ None]) (simp add: c1 no_context_def wsID_def)
    next
      case False
      with c obtain m where m: "RequireWorkspaceRole d wsID (c_Subject claims) role = Inr m"
        "c = c1\<lparr>workspace_id := wsID, currentTeamMember := m\<rparr>" by (auto simp: c1)
      with q False m(1) [unfolded require_role_Inr] show ?thesis
        by (intro exI [of _ token] exI [of _ claims] exI [of _ wsID] exI [of _ m]) (simp add: c1 no_context_def wsID_def)
    qed
  next
    case 2
    then obtain token claims m where q: "Authorization req = ''Bearer '' @ token" "parseToken token = Some claims"
        "c_ExpiresAt claims \<noteq> None" "c_ID claims = [] \<or> \<not> IsRevoked (c_ID claims) rl" "wsID \<noteq> []"
      and c: "c = \<lparr>user_id = c_Subject claims, username = c_Username claims, email = c_Email claims, system_role = c_SystemRole claims,
          jti = c_ID claims, exp_at = c_ExpiresAt claims, workspace_id = wsID, currentTeamMember = m\<rparr>"
      and m: "if c_SystemRole claims = SystemRolePlatformAdmin then m = None
        else RequireWorkspaceRole d wsID (c_Subject claims) role = Inr m"
      unfolding wsID_def [symmetric] require_role_Inr by blast
    then have "AuthMiddleware parseToken (Some rl) req no_context = Next (c\<lparr>workspace_id := [], currentTeamMember := None\<rparr>)"
      unfolding AuthMiddleware_Next by (auto simp: no_context_def)
    with q(5) c m show ?case by (auto split: if_splits)
  qed
qed

definition ex_user :: User where
  "ex_user = \<lparr>u_ID = ''u1'', u_SystemRole = ''user'', u_Username = ''ann'', u_Email = [], u_Deleted = False\<rparr>"

definition ex_claims :: LatticeClaims where
  "ex_claims = \<lparr>c_ID = ''j1'', c_Subject = ''u1'', c_Email = [], c_Username = ''ann'', c_SystemRole = ''user'', c_ExpiresAt = Some 9\<rparr>"

definition ex_parse_token :: "string \<Rightarrow> LatticeClaims option" where
  "ex_parse_token t = (if t = ''tok'' then Some ex_claims else None)"

definition ex_dir :: directory where
  "ex_dir = \<lparr>users = [''u1'' \<mapsto> ex_user],
     membership = (\<lambda>w u. if w = ''w1'' \<and> u = ''u1'' then Some \<lparr>m_Role = ''viewer'', m_Status = ''active''\<rparr> else None)\<rparr>"

definition ex_http :: "string \<Rightarrow> string \<Rightarrow> http_request" where
  "ex_http hdr pid = \<lparr>Authorization = ''Bearer tok'', X_Workspace_Id = hdr, param_id = pid\<rparr>"

lemmas ex_auth_defs = ex_user_def ex_claims_def ex_parse_token_def ex_dir_def ex_http_def

theorem workspace_auth_exact_witness:
  "\<exists>c. WorkspaceAuthMiddleware ex_parse_token (Some Map.empty) ex_dir ''viewer'' (ex_http [] ''w1'') no_context = Next c \<and>
     user_id c = ''u1'' \<and> workspace_id c = ''w1''"
proof (intro exI conjI)
  define m where "m = \<lparr>m_Role = ''viewer'', m_Status = ''active''\<rparr>"
  define c where "c = \<lparr>user_id = ''u1'', username = ''ann'', email = [], system_role = ''user'', jti = ''j1'', exp_at = Some 9,
    workspace_id = ''w1'', currentTeamMember = Some m\<rparr>"
  show "WorkspaceAuthMiddleware ex_parse_token (Some Map.empty) ex_dir ''viewer'' (ex_http [] ''w1'') no_context = Next c"
    unfolding workspace_auth_exact
    by (intro exI [of _ "''tok''"] exI [of _ ex_claims] exI [of _ "''w1''"] exI [of _ "Some m"])
      (simp add: ex_auth_defs c_def m_def IsRevoked_def SystemRolePlatformAdmin_def)
  show "user_id c = ''u1''" "workspace_id c = ''w1''" by (simp_all add: c_def)
qed


definition ex_tenv :: token_env where
  "ex_tenv = \<lparr>HashRefreshToken = (\<lambda>s. s), SignedString = (\<lambda>c. Some (c_Subject c @ ''.'' @ c_ID c)), t_users = [''u1'' \<mapsto> ex_user],
     read_fails = False, tx_fails = False\<rparr>"

definition ex_fresh :: "string \<Rightarrow> fresh_values" where
  "ex_fresh x = \<lparr>new_jti = ''j'' @ x, new_id = ''i'' @ x, new_raw = ''r'' @ x\<rparr>"

definition ex_tokens :: token_table where
  "ex_tokens = [\<lparr>rt_ID = ''i0'', rt_UserID = ''u1'', TokenHash = ''r0'', rt_ExpiresAt = 1000, RevokedAt = None\<rparr>]"

lemmas ex_token_defs = ex_user_def ex_tenv_def ex_fresh_def ex_tokens_def


text \<open>
  The checks of a refresh run before its transaction. When two requests present the same token
  and both read it before either commits, both succeed: the single-use token yields two valid
  refresh tokens.
\<close>

lemma refresh_race_doubles:
  assumes "refresh_read e now raw rows = Inr ru"
    and "refresh_tx e t1 f1 ru rows = (Inr (at1, raw1), rows1)"
    and "HashRefreshToken e (new_raw f2) \<notin> TokenHash ` set rows1" and "new_id f2 \<notin> rt_ID ` set rows1"
    and "SignedString e (access_claims t2 (snd ru) (new_jti f2)) \<noteq> None" and "new_id f1 \<noteq> rt_ID (fst ru)"
    and "now' \<le> t1 + 720 * Hour" and "now' \<le> t2 + 720 * Hour"
  shows "\<exists>at2 rows2. refresh_tx e t2 f2 ru rows1 = (Inr (at2, new_raw f2), rows2) \<and>
    (\<forall>x \<in> {raw1, new_raw f2}. \<exists>ru'. refresh_read e now' x rows2 = Inr ru')"
proof -
  obtain rt u where ru: "ru = (rt, u)" by (cases ru)
  have r: "\<not> read_fails e" "GetByHash (HashRefreshToken e raw) rows = Some rt" "t_users e (rt_UserID rt) = Some u" "\<not> u_Deleted u"
    using assms(1) unfolding ru refresh_read_Inr by auto
  note t1 = refresh_tx_Inr [OF assms(2) [unfolded ru]]
  have "\<not> tx_fails e" using assms(2) by (auto simp: refresh_tx_def)
  obtain at2 where at2: "SignedString e (access_claims t2 u (new_jti f2)) = Some at2" using assms(5) ru by auto
  define new where "new = \<lparr>rt_ID = new_id f2, rt_UserID = rt_UserID rt, TokenHash = HashRefreshToken e (new_raw f2),
    rt_ExpiresAt = t2 + 720 * Hour, RevokedAt = None\<rparr>"
  define rows2 where "rows2 = Revoke_row (rt_ID rt) t2 rows1 @ [new]"
  have fresh: "rt_ID x \<noteq> new_id f2 \<and> TokenHash x \<noteq> HashRefreshToken e (new_raw f2)" if "x \<in> set rows1" for x
    using assms(3,4) that by (metis imageI)
  have c: "Create_row new (Revoke_row (rt_ID rt) t2 rows1) = Some rows2"
    using fresh by (auto simp: Create_row_Some rows2_def new_def Revoke_row_def)
  have tx2: "refresh_tx e t2 f2 ru rows1 = (Inr (at2, new_raw f2), rows2)"
    using \<open>\<not> tx_fails e\<close> at2 c [unfolded new_def] by (simp add: refresh_tx_def ru)
  have none: "GetByHash (HashRefreshToken e (new_raw f2)) rows1 = None"
    using fresh by (auto simp: GetByHash_def find_None_iff)
  have "\<exists>ru'. refresh_read e now' raw1 rows2 = Inr ru'"
    using t1(3,4) r assms(6,7) ru none
    by (auto simp: refresh_read_def rows2_def GetByHash_append GetByHash_Revoke)
  moreover have "\<exists>ru'. refresh_read e now' (new_raw f2) rows2 = Inr ru'"
    using r assms(8) none by (auto simp: refresh_read_def rows2_def GetByHash_append GetByHash_Revoke new_def)
  ultimately show ?thesis using tx2 by auto
qed

end
