(* ===== verification/Approvals.thy ===== *)
theory Approvals
  imports Access
begin

text \<open>
  The approval workflow of \<^verbatim>\<open>internal/server/service/workflow.go\<close> and its HTTP routes
  (\<^verbatim>\<open>internal/server/server/workflow.go\<close>). The store is a map from identifiers to requests, whose
  automatic timestamps are left out; a review is split where another can run between its read and its
  write. An executor returns the text of its error, if any, for the time of the call and the payload.
  Arguments named \<open>up\<close> say whether a store call succeeds.
\<close>

subsection \<open>Service\<close>

record WorkflowRequest =
  wr_ID :: string
  wr_WorkspaceID :: string
  RequestedBy :: string
  RequestedByName :: string
  RequestedByEmail :: string
  ResourceType :: string
  ResourceName :: string
  wr_Action :: string
  Payload :: string
  wr_Status :: string
  ReviewedBy :: string
  ReviewedByName :: string
  ReviewedAt :: "time option"
  ReviewNote :: string
  ExecutedAt :: "time option"
  ErrorMessage :: string

definition WorkflowStatusPending :: string where "WorkflowStatusPending = ''pending''"
definition WorkflowStatusApproved :: string where "WorkflowStatusApproved = ''approved''"
definition WorkflowStatusRejected :: string where "WorkflowStatusRejected = ''rejected''"
definition WorkflowStatusExecuted :: string where "WorkflowStatusExecuted = ''executed''"
definition WorkflowStatusFailed :: string where "WorkflowStatusFailed = ''failed''"

lemmas wf_status = WorkflowStatusPending_def WorkflowStatusApproved_def WorkflowStatusRejected_def
  WorkflowStatusExecuted_def WorkflowStatusFailed_def

record SubmitWorkflowReq =
  sw_WorkspaceID :: string
  sw_RequestedBy :: string
  sw_RequestedByName :: string
  sw_RequestedByEmail :: string
  sw_ResourceType :: string
  sw_ResourceName :: string
  sw_Action :: string
  sw_Payload :: string

text \<open>\<open>spawned\<close> are the execution goroutines to come, \<open>performed\<close> the executor calls made, in order.\<close>

record workflowService =
  requests :: "string \<rightharpoonup> WorkflowRequest"
  executors :: "string \<rightharpoonup> (time \<Rightarrow> string \<Rightarrow> string option)"
  spawned :: "WorkflowRequest list"
  performed :: "(string \<times> string) list"

definition NewWorkflowService :: workflowService where
  "NewWorkflowService = \<lparr>requests = Map.empty, executors = Map.empty, spawned = [], performed = []\<rparr>"

definition executorKey :: "string \<Rightarrow> string \<Rightarrow> string" where
  "executorKey resourceType action = resourceType @ '':'' @ action"

definition RegisterExecutor :: "string \<Rightarrow> string \<Rightarrow> (time \<Rightarrow> string \<Rightarrow> string option) \<Rightarrow> workflowService \<Rightarrow> workflowService" where
  "RegisterExecutor resourceType action fn s = s\<lparr>executors := (executors s)(executorKey resourceType action \<mapsto> fn)\<rparr>"

text \<open>The identifier is drawn by the service; the primary key refuses one that exists.\<close>

definition new_request :: "string \<Rightarrow> SubmitWorkflowReq \<Rightarrow> WorkflowRequest" where
  "new_request newID req =
     \<lparr>wr_ID = newID, wr_WorkspaceID = sw_WorkspaceID req, RequestedBy = sw_RequestedBy req,
      RequestedByName = sw_RequestedByName req, RequestedByEmail = sw_RequestedByEmail req,
      ResourceType = sw_ResourceType req, ResourceName = sw_ResourceName req, wr_Action = sw_Action req,
      Payload = sw_Payload req, wr_Status = WorkflowStatusPending, ReviewedBy = [], ReviewedByName = [], ReviewedAt = None,
      ReviewNote = [], ExecutedAt = None, ErrorMessage = []\<rparr>"

definition Submit :: "bool \<Rightarrow> string \<Rightarrow> SubmitWorkflowReq \<Rightarrow> workflowService \<Rightarrow> WorkflowRequest option \<times> workflowService" where
  "Submit up newID req s =
     (if \<not> up \<or> requests s newID \<noteq> None then (None, s)
      else (Some (new_request newID req), s\<lparr>requests := (requests s)(newID \<mapsto> new_request newID req)\<rparr>))"

text \<open>\<open>UpdateStatus\<close> writes the status and the columns of its map where the identifier matches.\<close>

definition update_request :: "string \<Rightarrow> (WorkflowRequest \<Rightarrow> WorkflowRequest) \<Rightarrow> workflowService \<Rightarrow> workflowService" where
  "update_request i f s = s\<lparr>requests := (case requests s i of None \<Rightarrow> requests s | Some r \<Rightarrow> (requests s)(i \<mapsto> f r))\<rparr>"

definition reviewed :: "string \<Rightarrow> string \<Rightarrow> string \<Rightarrow> time \<Rightarrow> string \<Rightarrow> WorkflowRequest \<Rightarrow> WorkflowRequest" where
  "reviewed st reviewerID reviewerName now note r =
     r\<lparr>wr_Status := st, ReviewedBy := reviewerID, ReviewedByName := reviewerName, ReviewedAt := Some now, ReviewNote := note\<rparr>"

datatype review_error = RequestNotFound | WrongStatus string | WriteFailed

text \<open>The first half of \<open>Approve\<close> and \<open>Reject\<close> reads and checks, the second writes.\<close>

definition review_read :: "bool \<Rightarrow> string \<Rightarrow> workflowService \<Rightarrow> review_error + WorkflowRequest" where
  "review_read up i s =
     (case (if up then requests s i else None) of
        None \<Rightarrow> Inl RequestNotFound
      | Some wr \<Rightarrow> if wr_Status wr \<noteq> WorkflowStatusPending then Inl (WrongStatus (wr_Status wr)) else Inr wr)"

definition approve_write ::
  "bool \<Rightarrow> string \<Rightarrow> WorkflowRequest \<Rightarrow> string \<Rightarrow> string \<Rightarrow> time \<Rightarrow> string \<Rightarrow> workflowService \<Rightarrow> (review_error + unit) \<times> workflowService" where
  "approve_write up i wr reviewerID reviewerName now note s =
     (if \<not> up then (Inl WriteFailed, s)
      else let s1 = update_request i (reviewed WorkflowStatusApproved reviewerID reviewerName now note) s
           in (Inr (), s1\<lparr>spawned := spawned s1 @ [reviewed WorkflowStatusApproved reviewerID reviewerName now note wr]\<rparr>))"

definition reject_write ::
  "bool \<Rightarrow> string \<Rightarrow> string \<Rightarrow> string \<Rightarrow> time \<Rightarrow> string \<Rightarrow> workflowService \<Rightarrow> (review_error + unit) \<times> workflowService" where
  "reject_write up i reviewerID reviewerName now note s =
     (if \<not> up then (Inl WriteFailed, s)
      else (Inr (), update_request i (reviewed WorkflowStatusRejected reviewerID reviewerName now note) s))"

definition Approve ::
  "bool \<Rightarrow> bool \<Rightarrow> string \<Rightarrow> string \<Rightarrow> string \<Rightarrow> time \<Rightarrow> string \<Rightarrow> workflowService \<Rightarrow> (review_error + unit) \<times> workflowService" where
  "Approve r_up w_up i reviewerID reviewerName now note s =
     (case review_read r_up i s of
        Inl e \<Rightarrow> (Inl e, s)
      | Inr wr \<Rightarrow> approve_write w_up i wr reviewerID reviewerName now note s)"

definition Reject ::
  "bool \<Rightarrow> bool \<Rightarrow> string \<Rightarrow> string \<Rightarrow> string \<Rightarrow> time \<Rightarrow> string \<Rightarrow> workflowService \<Rightarrow> (review_error + unit) \<times> workflowService" where
  "Reject r_up w_up i reviewerID reviewerName now note s =
     (case review_read r_up i s of
        Inl e \<Rightarrow> (Inl e, s)
      | Inr wr \<Rightarrow> reject_write w_up i reviewerID reviewerName now note s)"

text \<open>The verb for quoted text, on printable ASCII.\<close>

definition Quote :: "string \<Rightarrow> string" where
  "Quote s = [CHR 0x22] @ concat (map (\<lambda>c. if c = CHR 0x22 \<or> c = CHR 0x5C then [CHR 0x5C, c] else [c]) s) @ [CHR 0x22]"

definition outcome_of :: "time \<Rightarrow> string option \<Rightarrow> WorkflowRequest \<Rightarrow> WorkflowRequest" where
  "outcome_of now err r =
     (case err of
        None \<Rightarrow> r\<lparr>wr_Status := WorkflowStatusExecuted, ExecutedAt := Some now\<rparr>
      | Some msg \<Rightarrow> r\<lparr>wr_Status := WorkflowStatusFailed, ExecutedAt := Some now, ErrorMessage := msg\<rparr>)"

definition execute :: "bool \<Rightarrow> time \<Rightarrow> WorkflowRequest \<Rightarrow> workflowService \<Rightarrow> workflowService" where
  "execute up now wr s =
     (let key = executorKey (ResourceType wr) (wr_Action wr)
      in case executors s key of
           None \<Rightarrow>
             if up then update_request (wr_ID wr) (outcome_of now (Some (''no executor registered for '' @ Quote key))) s else s
         | Some fn \<Rightarrow>
             let s1 = s\<lparr>performed := performed s @ [(wr_ID wr, Payload wr)]\<rparr>
             in if up then update_request (wr_ID wr) (outcome_of now (fn now (Payload wr))) s1 else s1)"

text \<open>A goroutine spawned by an approval runs at any later time; goroutines have no order.\<close>

definition run_spawned :: "bool \<Rightarrow> time \<Rightarrow> nat \<Rightarrow> workflowService \<Rightarrow> workflowService" where
  "run_spawned up now n s =
     execute up now (spawned s ! n) (s\<lparr>spawned := take n (spawned s) @ drop (Suc n) (spawned s)\<rparr>)"

subsection \<open>Routes\<close>

datatype wf_reply = Refused mw_result | BadRequest | Failure | Accepted WorkflowRequest | Done_OK

record submit_body =
  b_ResourceType :: string
  b_ResourceName :: string
  b_Action :: string
  b_Payload :: "string option"

definition handleSubmitWorkflowRequest ::
  "bool \<Rightarrow> string \<Rightarrow> gin_context \<Rightarrow> string \<Rightarrow> submit_body \<Rightarrow> workflowService \<Rightarrow> wf_reply \<times> workflowService" where
  "handleSubmitWorkflowRequest up newID c wsID body s =
     (if b_ResourceType body = [] \<or> b_Action body = [] then (BadRequest, s)
      else case Submit up newID
             \<lparr>sw_WorkspaceID = wsID, sw_RequestedBy = user_id c, sw_RequestedByName = username c, sw_RequestedByEmail = email c,
              sw_ResourceType = b_ResourceType body, sw_ResourceName = b_ResourceName body, sw_Action = b_Action body,
              sw_Payload = (case b_Payload body of None \<Rightarrow> ''{}'' | Some p \<Rightarrow> p)\<rparr> s of
             (None, s') \<Rightarrow> (Failure, s')
           | (Some wr, s') \<Rightarrow> (Accepted wr, s'))"

definition review_reply :: "(review_error + unit) \<times> workflowService \<Rightarrow> wf_reply \<times> workflowService" where
  "review_reply r = (case r of (Inl e, s) \<Rightarrow> (Failure, s) | (Inr _, s) \<Rightarrow> (Done_OK, s))"

definition handleApproveWorkflowRequest ::
  "bool \<Rightarrow> bool \<Rightarrow> gin_context \<Rightarrow> string \<Rightarrow> string \<Rightarrow> time \<Rightarrow> workflowService \<Rightarrow> wf_reply \<times> workflowService" where
  "handleApproveWorkflowRequest r_up w_up c reqId note now s = review_reply (Approve r_up w_up reqId (user_id c) (username c) now note s)"

definition handleRejectWorkflowRequest ::
  "bool \<Rightarrow> bool \<Rightarrow> gin_context \<Rightarrow> string \<Rightarrow> string \<Rightarrow> time \<Rightarrow> workflowService \<Rightarrow> wf_reply \<times> workflowService" where
  "handleRejectWorkflowRequest r_up w_up c reqId note now s = review_reply (Reject r_up w_up reqId (user_id c) (username c) now note s)"

text \<open>
  \<open>workflowRouter\<close>: the workspace group runs its handlers behind the middleware for viewers, the
  platform group behind \<^const>\<open>PlatformAdminOnly\<close> alone, on the context no middleware has filled.
\<close>

definition workspace_route ::
  "(string \<Rightarrow> LatticeClaims option) \<Rightarrow> RevocationList option \<Rightarrow> directory \<Rightarrow> http_request \<Rightarrow>
     (gin_context \<Rightarrow> workflowService \<Rightarrow> wf_reply \<times> workflowService) \<Rightarrow> workflowService \<Rightarrow> wf_reply \<times> workflowService" where
  "workspace_route parseToken rl d req h s =
     (case WorkspaceAuthMiddleware parseToken rl d ''viewer'' req no_context of Next c \<Rightarrow> h c s | r \<Rightarrow> (Refused r, s))"

definition platform_route ::
  "(gin_context \<Rightarrow> workflowService \<Rightarrow> wf_reply \<times> workflowService) \<Rightarrow> workflowService \<Rightarrow> wf_reply \<times> workflowService" where
  "platform_route h s = (case PlatformAdminOnly no_context of Next c \<Rightarrow> h c s | r \<Rightarrow> (Refused r, s))"

subsection \<open>Serial reviews\<close>

text \<open>Reviews that run to their end before the next begins, with submissions and executions in any order.\<close>

inductive wf_step :: "workflowService \<Rightarrow> workflowService \<Rightarrow> bool" where
  submit: "wf_step s (snd (Submit up newID req s))"
| approve: "wf_step s (snd (Approve r_up w_up i reviewerID reviewerName now note s))"
| reject: "wf_step s (snd (Reject r_up w_up i reviewerID reviewerName now note s))"
| run: "n < length (spawned s) \<Longrightarrow> wf_step s (run_spawned up now n s)"

definition runs_of :: "string \<Rightarrow> workflowService \<Rightarrow> nat" where
  "runs_of i s = length (filter (\<lambda>w. wr_ID w = i) (spawned s)) + length (filter (\<lambda>e. fst e = i) (performed s))"

text \<open>A request has no run before its approval, none after a rejection, and at most one at all.\<close>

definition request_ok :: "workflowService \<Rightarrow> string \<Rightarrow> bool" where
  "request_ok s i \<longleftrightarrow>
     (case requests s i of
        None \<Rightarrow> runs_of i s = 0
      | Some r \<Rightarrow> wr_ID r = i \<and> runs_of i s \<le> 1 \<and>
          (wr_Status r \<in> {WorkflowStatusPending, WorkflowStatusRejected} \<longrightarrow> runs_of i s = 0) \<and>
          (\<forall>e \<in> set (performed s). fst e = i \<longrightarrow> snd e = Payload r) \<and>
          (\<forall>w \<in> set (spawned s). wr_ID w = i \<longrightarrow> Payload w = Payload r))"

definition wf_ok :: "workflowService \<Rightarrow> bool" where
  "wf_ok s \<longleftrightarrow> (\<forall>i. request_ok s i)"

lemma runs_of_simps [simp]:
  "runs_of i (s\<lparr>requests := q\<rparr>) = runs_of i s" "runs_of i (update_request j f s) = runs_of i s"
  "performed (update_request j f s) = performed s" "spawned (update_request j f s) = spawned s"
  by (simp_all add: runs_of_def update_request_def)

lemma requests_update:
  "requests (update_request i f s) j = (if j = i then map_option f (requests s i) else requests s j)"
  by (auto simp: update_request_def split: option.splits)

lemma wf_update:
  assumes "wf_ok s"
    and "\<And>r. requests s i = Some r \<Longrightarrow> wr_ID (f r) = wr_ID r \<and> Payload (f r) = Payload r \<and>
      (wr_Status (f r) \<in> {WorkflowStatusPending, WorkflowStatusRejected} \<longrightarrow> runs_of i s = 0)"
  shows "wf_ok (update_request i f s)"
  unfolding wf_ok_def
proof
  fix j
  have "request_ok s j" using assms(1) by (simp add: wf_ok_def)
  then show "request_ok (update_request i f s) j"
    using assms(2) by (cases "requests s j") (auto simp: request_ok_def requests_update)
qed

lemma wf_submit:
  assumes "wf_ok s"
  shows "wf_ok (snd (Submit up newID req s))"
proof (cases "\<not> up \<or> requests s newID \<noteq> None")
  case False
  define r where "r = new_request newID req"
  have r: "wr_ID r = newID" by (simp add: r_def new_request_def)
  have none: "runs_of newID s = 0" using assms False by (auto simp: wf_ok_def request_ok_def dest!: spec [of _ newID])
  have "wf_ok (s\<lparr>requests := (requests s)(newID \<mapsto> r)\<rparr>)"
    unfolding wf_ok_def
  proof
    fix j
    have "request_ok s j" using assms by (simp add: wf_ok_def)
    then show "request_ok (s\<lparr>requests := (requests s)(newID \<mapsto> r)\<rparr>) j"
      using none r by (cases "j = newID") (auto simp: request_ok_def runs_of_def filter_empty_conv split: option.splits)
  qed
  then show ?thesis using False by (simp add: Submit_def r_def)
qed (auto simp: Submit_def assms)

lemma wf_approve:
  assumes "wf_ok s"
  shows "wf_ok (snd (Approve r_up w_up i reviewerID reviewerName now note s))"
proof (cases "review_read r_up i s")
  case (Inr wr)
  then have wr: "requests s i = Some wr" "wr_Status wr = WorkflowStatusPending"
    by (auto simp: review_read_def split: option.splits if_splits)
  then have i: "wr_ID wr = i" "runs_of i s = 0"
    using assms by (auto simp: wf_ok_def request_ok_def dest!: spec [of _ i])
  define f where "f = reviewed WorkflowStatusApproved reviewerID reviewerName now note"
  have f: "wr_ID (f r) = wr_ID r" "Payload (f r) = Payload r" "wr_Status (f r) = WorkflowStatusApproved" for r
    by (simp_all add: f_def reviewed_def)
  define s1 where "s1 = update_request i f s"
  have "wf_ok s1" unfolding s1_def by (rule wf_update [OF assms]) (simp add: f wf_status)
  have "wf_ok (s1\<lparr>spawned := spawned s1 @ [f wr]\<rparr>)" unfolding wf_ok_def
  proof
    fix j
    have "request_ok s1 j" using \<open>wf_ok s1\<close> by (simp add: wf_ok_def)
    moreover have "runs_of j (s1\<lparr>spawned := spawned s1 @ [f wr]\<rparr>) = runs_of j s1 + (if j = i then 1 else 0)"
      by (simp add: runs_of_def f i)
    moreover have "runs_of i s1 = 0" "requests s1 i = Some (f wr)" by (simp_all add: s1_def i requests_update wr)
    ultimately show "request_ok (s1\<lparr>spawned := spawned s1 @ [f wr]\<rparr>) j"
      by (cases "j = i") (auto simp: request_ok_def f i wf_status split: option.splits)
  qed
  then show ?thesis using assms by (simp add: Approve_def Inr approve_write_def Let_def f_def s1_def)
qed (simp add: Approve_def assms)

lemma wf_reject:
  assumes "wf_ok s"
  shows "wf_ok (snd (Reject r_up w_up i reviewerID reviewerName now note s))"
proof (cases "review_read r_up i s")
  case (Inr wr)
  then have "requests s i = Some wr" "wr_Status wr = WorkflowStatusPending"
    by (auto simp: review_read_def split: option.splits if_splits)
  then have "runs_of i s = 0"
    using assms by (auto simp: wf_ok_def request_ok_def dest!: spec [of _ i])
  then have "wf_ok (update_request i (reviewed WorkflowStatusRejected reviewerID reviewerName now note) s)"
    by (intro wf_update [OF assms]) (simp add: reviewed_def)
  then show ?thesis using assms by (simp add: Reject_def Inr reject_write_def)
qed (simp add: Reject_def assms)

lemma filter_remove_nth:
  "n < length xs \<Longrightarrow> length (filter P (take n xs @ drop (Suc n) xs)) + (if P (xs ! n) then 1 else 0) = length (filter P xs)"
  by (subst (3) id_take_nth_drop [of n xs]) simp_all

lemma wf_run:
  assumes "wf_ok s" and "n < length (spawned s)"
  shows "wf_ok (run_spawned up now n s)"
proof -
  define wr where "wr = spawned s ! n"
  define s0 where "s0 = s\<lparr>spawned := take n (spawned s) @ drop (Suc n) (spawned s)\<rparr>"
  define s1 where "s1 = s0\<lparr>performed := performed s0 @ [(wr_ID wr, Payload wr)]\<rparr>"
  have wr: "wr \<in> set (spawned s)" using assms(2) by (simp add: wr_def)
  have sub: "set (spawned s0) \<subseteq> set (spawned s)" by (auto simp: s0_def dest: in_set_takeD in_set_dropD)
  have r0: "runs_of j s0 + (if wr_ID wr = j then 1 else 0) = runs_of j s" for j
    using filter_remove_nth [OF assms(2), of "\<lambda>w. wr_ID w = j"] by (simp add: runs_of_def s0_def wr_def)
  have r1: "runs_of j s1 = runs_of j s" for j
    using r0 [of j] by (simp add: runs_of_def s1_def split: if_splits)
  have ok: "request_ok s j" for j using assms(1) by (simp add: wf_ok_def)
  have q: "requests s0 = requests s" "requests s1 = requests s" "spawned s1 = spawned s0" "performed s0 = performed s"
    by (simp_all add: s0_def s1_def)
  have pay: "Payload wr = Payload r" if "requests s (wr_ID wr) = Some r" for r
    using ok [of "wr_ID wr"] wr that by (auto simp: request_ok_def)
  have "request_ok s0 j" for j
    using ok [of j] r0 [of j] sub by (cases "requests s j") (auto simp: request_ok_def q)
  then have w0: "wf_ok s0" by (simp add: wf_ok_def)
  have "request_ok s1 j" for j
    using ok [of j] r1 [of j] sub pay by (cases "requests s j") (auto simp: request_ok_def q s1_def)
  then have w1: "wf_ok s1" by (simp add: wf_ok_def)
  have up: "wf_ok (update_request (wr_ID wr) (outcome_of now err) t)" if "wf_ok t" for t err
    by (rule wf_update [OF that]) (simp add: outcome_of_def wf_status split: option.splits)
  show ?thesis
    using w0 w1 up unfolding run_spawned_def execute_def Let_def wr_def [symmetric] s0_def [symmetric] s1_def [symmetric]
    by (simp split: option.splits)
qed

lemma wf_step_ok: "wf_step s t \<Longrightarrow> wf_ok s \<Longrightarrow> wf_ok t"
  by (induction rule: wf_step.induct) (auto intro: wf_submit wf_approve wf_reject wf_run)

lemma wf_ok_init: "requests s = Map.empty \<Longrightarrow> spawned s = [] \<Longrightarrow> performed s = [] \<Longrightarrow> wf_ok s"
  by (simp add: wf_ok_def request_ok_def runs_of_def)

interpretation wf: inductive_invariant "\<lambda>s. requests s = Map.empty \<and> spawned s = [] \<and> performed s = []" wf_step wf_ok
  by unfold_locales (auto intro: wf_ok_init wf_step_ok)

lemma run_last:
  assumes "spawned s = sp @ [wr]" and "executors s (executorKey (ResourceType wr) (wr_Action wr)) = Some fn"
  shows "performed (run_spawned up now (length sp) s) = performed s @ [(wr_ID wr, Payload wr)]"
    "executors (run_spawned up now (length sp) s) = executors s" "spawned (run_spawned up now (length sp) s) = sp"
  by (simp_all add: run_spawned_def execute_def assms Let_def update_request_def)

subsection \<open>Properties\<close>

text \<open>
  C6. While reviews do not overlap, a request is performed at most once, with the payload that was
  submitted, and only when a reviewer approved it: one that is pending or was rejected has neither
  run nor a goroutine that will run it, whatever submissions, reviews, store failures and executions
  happen in whatever order.
\<close>

theorem workflow_at_most_once:
  assumes "requests s0 = Map.empty" "spawned s0 = []" "performed s0 = []" and "wf_step\<^sup>*\<^sup>* s0 s"
  shows "length (filter (\<lambda>e. fst e = i) (performed s)) \<le> 1 \<and>
    (\<forall>e \<in> set (performed s). \<exists>r. requests s (fst e) = Some r \<and> snd e = Payload r \<and>
       wr_Status r \<notin> {WorkflowStatusPending, WorkflowStatusRejected}) \<and>
    (\<forall>w \<in> set (spawned s). \<exists>r. requests s (wr_ID w) = Some r \<and> wr_Status r \<notin> {WorkflowStatusPending, WorkflowStatusRejected})"
proof -
  have ok: "request_ok s j" for j using wf.reachable_inv [OF _ assms(4)] assms(1-3) by (simp add: wf_ok_def)
  have runs: "runs_of (fst e) s \<noteq> 0" if "e \<in> set (performed s)" for e using that by (auto simp: runs_of_def filter_empty_conv)
  have goes: "runs_of (wr_ID w) s \<noteq> 0" if "w \<in> set (spawned s)" for w using that by (auto simp: runs_of_def filter_empty_conv)
  have "runs_of i s \<le> 1" using ok [of i] by (auto simp: request_ok_def split: option.splits)
  then have "length (filter (\<lambda>e. fst e = i) (performed s)) \<le> 1" by (simp add: runs_of_def)
  moreover have "\<exists>r. requests s (fst e) = Some r \<and> snd e = Payload r \<and> wr_Status r \<notin> {WorkflowStatusPending, WorkflowStatusRejected}"
    if "e \<in> set (performed s)" for e
    using ok [of "fst e"] runs [OF that] that by (cases "requests s (fst e)") (auto simp: request_ok_def)
  moreover have "\<exists>r. requests s (wr_ID w) = Some r \<and> wr_Status r \<notin> {WorkflowStatusPending, WorkflowStatusRejected}"
    if "w \<in> set (spawned s)" for w
    using ok [of "wr_ID w"] goes [OF that] that by (cases "requests s (wr_ID w)") (auto simp: request_ok_def)
  ultimately show ?thesis by blast
qed

definition ex_exec :: "time \<Rightarrow> string \<Rightarrow> string option" where
  "ex_exec now payload = None"

definition ex_service :: workflowService where
  "ex_service = RegisterExecutor ''policy'' ''create'' ex_exec NewWorkflowService"

definition ex_submit :: SubmitWorkflowReq where
  "ex_submit = \<lparr>sw_WorkspaceID = ''w2'', sw_RequestedBy = ''u1'', sw_RequestedByName = ''ann'', sw_RequestedByEmail = [],
     sw_ResourceType = ''policy'', sw_ResourceName = ''p'', sw_Action = ''create'', sw_Payload = ''p1''\<rparr>"

definition ex_approved :: workflowService where
  "ex_approved = snd (Approve True True ''r1'' ''u2'' ''bob'' 3 [] (snd (Submit True ''r1'' ex_submit ex_service)))"

lemmas ex_wf_defs = ex_approved_def ex_service_def ex_submit_def RegisterExecutor_def NewWorkflowService_def executorKey_def
  Submit_def new_request_def Approve_def review_read_def approve_write_def update_request_def reviewed_def wf_status

theorem workflow_at_most_once_witness:
  "performed (run_spawned True 4 0 ex_approved) = [(''r1'', ''p1'')] \<and>
   length (filter (\<lambda>e. fst e = ''r1'') (performed (run_spawned True 4 0 ex_approved))) \<le> 1"
proof -
  have "requests ex_service = Map.empty" "spawned ex_service = []" "performed ex_service = []"
    by (simp_all add: ex_service_def RegisterExecutor_def NewWorkflowService_def)
  moreover have "wf_step\<^sup>*\<^sup>* ex_service ex_approved"
    unfolding ex_approved_def by (meson wf_step.submit wf_step.approve r_into_rtranclp rtranclp_trans)
  moreover have "0 < length (spawned ex_approved)" by (simp add: ex_wf_defs)
  ultimately have "length (filter (\<lambda>e. fst e = ''r1'') (performed (run_spawned True 4 0 ex_approved))) \<le> 1"
    using workflow_at_most_once [of ex_service "run_spawned True 4 0 ex_approved" "''r1''"] wf_step.run
    by (meson rtranclp.rtrancl_into_rtrancl)
  moreover have "performed (run_spawned True 4 0 ex_approved) = [(''r1'', ''p1'')]"
    by (simp add: run_spawned_def execute_def ex_wf_defs)
  ultimately show ?thesis by simp
qed

text \<open>
  C34. One viewer is enough. Whoever is an active member of some workspace, in the least role, names it
  in the header and then submits a request of any type for any workspace in the path, approves it
  themselves and has it executed; requester and reviewer are the same person and the workspace of
  the request is one they need not belong to.
\<close>

theorem lone_viewer_executes:
  assumes auth: "Authorization req = ''Bearer '' @ token" "parseToken token = Some claims" "c_ExpiresAt claims = Some t"
      "\<not> IsRevoked (c_ID claims) rl" "c_SystemRole claims \<noteq> SystemRolePlatformAdmin"
    and member: "users d (c_Subject claims) = Some u" "u_SystemRole u \<noteq> SystemRolePlatformAdmin" "X_Workspace_Id req \<noteq> []"
      "membership d (X_Workspace_Id req) (c_Subject claims) = Some m" "m_Role m = ''viewer''" "m_Status m = ''active''"
    and body: "b_ResourceType body \<noteq> []" "b_Action body \<noteq> []" "b_Payload body = Some payload"
      "executors s (executorKey (b_ResourceType body) (b_Action body)) = Some fn" "requests s newID = None"
    and s1: "s1 = snd (workspace_route parseToken (Some rl) d req (\<lambda>c. handleSubmitWorkflowRequest True newID c (param_id req) body) s)"
    and s2: "s2 = snd (workspace_route parseToken (Some rl) d req (\<lambda>c. handleApproveWorkflowRequest True True c newID note now) s1)"
  shows "performed (run_spawned True now' (length (spawned s)) s2) = performed s @ [(newID, payload)] \<and>
    (\<exists>r. requests s2 newID = Some r \<and> RequestedBy r = c_Subject claims \<and> ReviewedBy r = c_Subject claims \<and>
       wr_WorkspaceID r = param_id req)"
proof -
  obtain c where c: "WorkspaceAuthMiddleware parseToken (Some rl) d ''viewer'' req no_context = Next c"
    and uid: "user_id c = c_Subject claims"
  proof
    define c1 where "c1 = no_context\<lparr>user_id := c_Subject claims, username := c_Username claims, email := c_Email claims,
      system_role := c_SystemRole claims, jti := c_ID claims, exp_at := c_ExpiresAt claims\<rparr>"
    have "AuthMiddleware parseToken (Some rl) req no_context = Next c1"
      unfolding AuthMiddleware_Next c1_def using auth by blast
    moreover have "RequireWorkspaceRole d (X_Workspace_Id req) (c_Subject claims) ''viewer'' = Inr (Some m)"
      unfolding require_role_Inr using member by auto
    ultimately show "WorkspaceAuthMiddleware parseToken (Some rl) d ''viewer'' req no_context =
        Next (c1\<lparr>workspace_id := X_Workspace_Id req, currentTeamMember := Some m\<rparr>)"
      using member(3) auth(5) by (simp add: WorkspaceAuthMiddleware_def c1_def)
    show "user_id (c1\<lparr>workspace_id := X_Workspace_Id req, currentTeamMember := Some m\<rparr>) = c_Subject claims"
      by (simp add: c1_def)
  qed
  define sw where "sw = \<lparr>sw_WorkspaceID = param_id req, sw_RequestedBy = user_id c, sw_RequestedByName = username c,
    sw_RequestedByEmail = email c, sw_ResourceType = b_ResourceType body, sw_ResourceName = b_ResourceName body,
    sw_Action = b_Action body, sw_Payload = payload\<rparr>"
  define f where "f = reviewed WorkflowStatusApproved (user_id c) (username c) now note"
  have 1: "s1 = s\<lparr>requests := (requests s)(newID \<mapsto> new_request newID sw)\<rparr>"
    unfolding s1 workspace_route_def c using body
    by (simp add: handleSubmitWorkflowRequest_def Submit_def sw_def)
  have "review_read True newID s1 = Inr (new_request newID sw)"
    by (simp add: review_read_def 1 new_request_def)
  then have 2: "s2 = (update_request newID f s1)\<lparr>spawned := spawned s @ [f (new_request newID sw)]\<rparr>"
    unfolding s2 workspace_route_def c
    by (simp add: handleApproveWorkflowRequest_def review_reply_def Approve_def approve_write_def f_def Let_def 1)
  have "performed (run_spawned True now' (length (spawned s)) s2) = performed s2 @ [(newID, payload)]"
    using run_last(1) [of s2 "spawned s" "f (new_request newID sw)" fn True now'] body(4)
    by (simp add: 2 f_def reviewed_def new_request_def sw_def 1 update_request_def)
  moreover have "performed s2 = performed s" by (simp add: 2 1)
  moreover have "requests s2 newID = Some (f (new_request newID sw))" by (simp add: 2 requests_update) (simp add: 1)
  ultimately show ?thesis by (simp add: f_def reviewed_def new_request_def sw_def uid)
qed

theorem lone_viewer_executes_witness:
  "\<exists>s2 r. performed (run_spawned True 4 0 s2) = [(''r1'', ''p1'')] \<and> requests s2 ''r1'' = Some r \<and>
     RequestedBy r = ''u1'' \<and> ReviewedBy r = ''u1'' \<and> wr_WorkspaceID r = ''w2'' \<and> membership ex_dir ''w2'' ''u1'' = None"
proof -
  define body where "body = \<lparr>b_ResourceType = ''policy'', b_ResourceName = ''p'', b_Action = ''create'', b_Payload = Some ''p1''\<rparr>"
  have auth: "Authorization (ex_http ''w1'' ''w2'') = ''Bearer '' @ ''tok''" "ex_parse_token ''tok'' = Some ex_claims"
    "c_ExpiresAt ex_claims = Some 9" "\<not> IsRevoked (c_ID ex_claims) Map.empty" "c_SystemRole ex_claims \<noteq> SystemRolePlatformAdmin"
    "users ex_dir (c_Subject ex_claims) = Some ex_user" "u_SystemRole ex_user \<noteq> SystemRolePlatformAdmin"
    "X_Workspace_Id (ex_http ''w1'' ''w2'') \<noteq> []"
    "membership ex_dir (X_Workspace_Id (ex_http ''w1'' ''w2'')) (c_Subject ex_claims) = Some \<lparr>m_Role = ''viewer'', m_Status = ''active''\<rparr>"
    by (simp_all add: ex_auth_defs IsRevoked_def SystemRolePlatformAdmin_def)
  have b: "b_ResourceType body \<noteq> []" "b_Action body \<noteq> []" "b_Payload body = Some ''p1''"
    "executors ex_service (executorKey (b_ResourceType body) (b_Action body)) = Some ex_exec" "requests ex_service ''r1'' = None"
    by (simp_all add: body_def ex_service_def RegisterExecutor_def NewWorkflowService_def)
  have e: "spawned ex_service = []" "performed ex_service = []" "param_id (ex_http ''w1'' ''w2'') = ''w2''" "c_Subject ex_claims = ''u1''"
    "membership ex_dir ''w2'' ''u1'' = None"
    by (simp_all add: ex_service_def RegisterExecutor_def NewWorkflowService_def ex_auth_defs)
  have "performed (run_spawned True 4 (length (spawned ex_service)) s2) = performed ex_service @ [(''r1'', ''p1'')] \<and>
      (\<exists>r. requests s2 ''r1'' = Some r \<and> RequestedBy r = c_Subject ex_claims \<and> ReviewedBy r = c_Subject ex_claims \<and>
         wr_WorkspaceID r = param_id (ex_http ''w1'' ''w2''))"
    if "s2 = snd (workspace_route ex_parse_token (Some Map.empty) ex_dir (ex_http ''w1'' ''w2'')
      (\<lambda>c. handleApproveWorkflowRequest True True c ''r1'' [] 3)
      (snd (workspace_route ex_parse_token (Some Map.empty) ex_dir (ex_http ''w1'' ''w2'')
        (\<lambda>c. handleSubmitWorkflowRequest True ''r1'' c (param_id (ex_http ''w1'' ''w2'')) body) ex_service)))" for s2
    by (rule lone_viewer_executes [where token = "''tok''" and parseToken = ex_parse_token and claims = ex_claims and t = 9
          and rl = Map.empty and d = ex_dir and u = ex_user and m = "\<lparr>m_Role = ''viewer'', m_Status = ''active''\<rparr>"
          and body = body and fn = ex_exec and req = "ex_http ''w1'' ''w2''"])
      (use auth b that in simp_all)
  then show ?thesis using e by auto
qed

text \<open>
  Approvals check the status and then write it. When two reviewers read a pending request before
  either writes, both approvals succeed and the request is performed twice; and when one of the two
  rejects it last, the request is stored as rejected and is performed all the same.
\<close>

lemma review_race:
  assumes "review_read True i s = Inr wr" and "wr_ID wr = i"
    and "executors s (executorKey (ResourceType wr) (wr_Action wr)) = Some fn"
    and "a1 = snd (approve_write True i wr rev1 name1 t1 note1 s)"
    and "a2 = snd (approve_write True i wr rev2 name2 t2 note2 a1)"
    and "b2 = snd (reject_write True i rev2 name2 t2 note2 a1)"
  shows "performed (run_spawned up now' (length (spawned s)) (run_spawned up now (Suc (length (spawned s))) a2)) =
      performed s @ [(i, Payload wr), (i, Payload wr)] \<and>
    map_option wr_Status (requests b2 i) = Some WorkflowStatusRejected \<and>
    performed (run_spawned up now (length (spawned s)) b2) = performed s @ [(i, Payload wr)]"
proof -
  define f1 where "f1 = reviewed WorkflowStatusApproved rev1 name1 t1 note1"
  define f2 where "f2 = reviewed WorkflowStatusApproved rev2 name2 t2 note2"
  have f: "wr_ID (f1 wr) = i" "wr_ID (f2 wr) = i" "Payload (f1 wr) = Payload wr" "Payload (f2 wr) = Payload wr"
    "ResourceType (f1 wr) = ResourceType wr" "ResourceType (f2 wr) = ResourceType wr"
    "wr_Action (f1 wr) = wr_Action wr" "wr_Action (f2 wr) = wr_Action wr"
    using assms(2) by (simp_all add: f1_def f2_def reviewed_def)
  have ex: "executors (update_request j g t) = executors t" for j g t by (simp add: update_request_def)
  have a1: "spawned a1 = spawned s @ [f1 wr]" "performed a1 = performed s" "executors a1 = executors s" "requests a1 i \<noteq> None"
    using assms(1) by (auto simp: assms(4) approve_write_def Let_def f1_def ex requests_update review_read_def split: option.splits)
  have a2: "spawned a2 = (spawned s @ [f1 wr]) @ [f2 wr]" "performed a2 = performed s" "executors a2 = executors s"
    by (simp_all add: assms(5) approve_write_def Let_def f2_def ex a1)
  have b2: "spawned b2 = spawned s @ [f1 wr]" "performed b2 = performed s" "executors b2 = executors s"
    by (simp_all add: assms(6) reject_write_def ex a1)
  define a3 where "a3 = run_spawned up now (Suc (length (spawned s))) a2"
  have a3: "performed a3 = performed s @ [(i, Payload wr)]" "spawned a3 = spawned s @ [f1 wr]" "executors a3 = executors s"
    using run_last [OF a2(1), of fn up now] assms(3) a2(2,3) f by (simp_all add: a3_def)
  have "performed (run_spawned up now' (length (spawned s)) a3) = performed s @ [(i, Payload wr), (i, Payload wr)]"
    using run_last(1) [OF a3(2), of fn up now'] assms(3) a3 f by simp
  moreover have "performed (run_spawned up now (length (spawned s)) b2) = performed s @ [(i, Payload wr)]"
    using run_last(1) [OF b2(1), of fn up now] assms(3) b2 f by simp
  moreover have "map_option wr_Status (requests b2 i) = Some WorkflowStatusRejected"
    using a1(4) by (auto simp: assms(6) reject_write_def requests_update reviewed_def)
  ultimately show ?thesis by (simp add: a3_def)
qed

text \<open>The platform group has no middleware that reads the token, so it refuses everyone.\<close>

lemma platform_route_refuses: "platform_route h s = (Refused (Forbidden ''platform admin only''), s)"
  by (simp add: platform_route_def PlatformAdminOnly_def no_context_def SystemRolePlatformAdmin_def)

text \<open>A platform administrator has no member record, and the impersonated client needs one.\<close>

lemma k8s_client_admin_panics:
  "users d userID = Some u \<Longrightarrow> u_SystemRole u = SystemRolePlatformAdmin \<Longrightarrow> K8sClient d wsID userID = NilMemberPanic"
  by (simp add: K8sClient_def RequireWorkspaceRole_def)

end
