(* ===== verification/Alerts.thy ===== *)
theory Alerts
  imports Prelude
begin

text \<open>
  The alert engine, \<^verbatim>\<open>internal/monitor/alert/engine.go\<close>. A measured value is an element of a linear
  order, or \<^term>\<open>None\<close> for a value that is not a number, which no comparison but inequality
  satisfies. The metric gateway's answer, the store's answers and the decoding of the channel list
  are parameters of one evaluation.
\<close>

subsection \<open>Engine\<close>

record 'v AlertRule =
  ru_ID :: string
  ru_Name :: string
  ru_WorkspaceID :: string
  Operator :: string
  Threshold :: "'v option"
  Channels :: string
  Severity :: string
  ru_Message :: string
  SilenceUntil :: "time option"

record 'v AlertHistory =
  h_RuleID :: string
  h_WorkspaceID :: string
  h_Status :: string
  h_Severity :: string
  h_Value :: "'v option"
  StartedAt :: time
  EndedAt :: "time option"
  h_Message :: string

record AlertChannel =
  ch_Type :: string
  ch_Config :: string
  ch_Enabled :: bool

record AlertSilence =
  StartsAt :: time
  EndsAt :: time

record 'v ActiveAlert =
  a_RuleID :: string
  GroupKey :: string
  FirstSeen :: time
  LastSeen :: time
  a_Value :: "'v option"

text \<open>A notification that was handed to a notifier: its type and configuration, and what it says.\<close>

record 'v notification =
  n_Type :: string
  n_Config :: string
  n_RuleName :: string
  n_Severity :: string
  n_Status :: string
  n_Value :: "'v option"
  n_Message :: string

record 'v AlertEngine =
  activeAlerts :: "string \<rightharpoonup> 'v ActiveAlert"
  history :: "'v AlertHistory list"
  sent :: "'v notification list"

record alert_env =
  notifiers :: "string set"
  unmarshal :: "string \<Rightarrow> string list option"
  GetAlertChannel :: "string \<Rightarrow> AlertChannel option"
  ListAlertSilences :: "string \<Rightarrow> AlertSilence list option"
  create_fails :: bool

definition NewEngine :: "'v AlertEngine" where
  "NewEngine = \<lparr>activeAlerts = Map.empty, history = [], sent = []\<rparr>"

definition lift_cmp :: "('v \<Rightarrow> 'v \<Rightarrow> bool) \<Rightarrow> 'v option \<Rightarrow> 'v option \<Rightarrow> bool" where
  "lift_cmp cmp v t = (case (v, t) of (Some x, Some y) \<Rightarrow> cmp x y | _ \<Rightarrow> False)"

definition compareThreshold :: "'v :: linorder option \<Rightarrow> string \<Rightarrow> 'v option \<Rightarrow> bool" where
  "compareThreshold v operator t =
     (if operator = ''gt'' then lift_cmp (\<lambda>x y. x > y) v t
      else if operator = ''gte'' then lift_cmp (\<lambda>x y. x \<ge> y) v t
      else if operator = ''lt'' then lift_cmp (\<lambda>x y. x < y) v t
      else if operator = ''lte'' then lift_cmp (\<lambda>x y. x \<le> y) v t
      else if operator = ''eq'' then lift_cmp (\<lambda>x y. x = y) v t
      else if operator = ''neq'' then \<not> lift_cmp (\<lambda>x y. x = y) v t
      else False)"

definition isSilenced :: "alert_env \<Rightarrow> time \<Rightarrow> 'v AlertRule \<Rightarrow> bool" where
  "isSilenced env now rule \<longleftrightarrow>
     (case SilenceUntil rule of None \<Rightarrow> False | Some t \<Rightarrow> now < t) \<or>
     (case ListAlertSilences env (ru_WorkspaceID rule) of
        None \<Rightarrow> False
      | Some ss \<Rightarrow> list_ex (\<lambda>s. StartsAt s < now \<and> now < EndsAt s) ss)"

definition notify_channel :: "alert_env \<Rightarrow> 'v AlertRule \<Rightarrow> 'v option \<Rightarrow> string \<Rightarrow> string \<Rightarrow> string \<Rightarrow> 'v notification list" where
  "notify_channel env rule v msg status chID =
     (case GetAlertChannel env chID of
        None \<Rightarrow> []
      | Some ch \<Rightarrow>
          if \<not> ch_Enabled ch \<or> ch_Type ch \<notin> notifiers env then []
          else [\<lparr>n_Type = ch_Type ch, n_Config = ch_Config ch, n_RuleName = ru_Name rule, n_Severity = Severity rule,
                 n_Status = status, n_Value = v, n_Message = msg\<rparr>])"

definition sendNotification ::
  "alert_env \<Rightarrow> 'v AlertRule \<Rightarrow> 'v option \<Rightarrow> string \<Rightarrow> string \<Rightarrow> 'v AlertEngine \<Rightarrow> 'v AlertEngine" where
  "sendNotification env rule v msg status e =
     (case (if Channels rule = [] then Some [] else unmarshal env (Channels rule)) of
        None \<Rightarrow> e
      | Some channelIDs \<Rightarrow> e\<lparr>sent := sent e @ concat (map (notify_channel env rule v msg status) channelIDs)\<rparr>)"

definition handleFiring :: "alert_env \<Rightarrow> time \<Rightarrow> 'v AlertRule \<Rightarrow> string \<Rightarrow> 'v option \<Rightarrow> 'v AlertEngine \<Rightarrow> 'v AlertEngine" where
  "handleFiring env now rule key v e =
     (case activeAlerts e key of
        None \<Rightarrow>
          (let e1 = e\<lparr>activeAlerts := (activeAlerts e)(key \<mapsto>
                 \<lparr>a_RuleID = ru_ID rule, GroupKey = key, FirstSeen = now, LastSeen = now, a_Value = v\<rparr>)\<rparr>
           in if create_fails env then e1
              else sendNotification env rule v (ru_Message rule) ''firing''
                (e1\<lparr>history := history e1 @ [\<lparr>h_RuleID = ru_ID rule, h_WorkspaceID = ru_WorkspaceID rule, h_Status = ''firing'',
                   h_Severity = Severity rule, h_Value = v, StartedAt = now, EndedAt = None, h_Message = ru_Message rule\<rparr>]\<rparr>))
      | Some a \<Rightarrow> e\<lparr>activeAlerts := (activeAlerts e)(key \<mapsto> a\<lparr>LastSeen := now, a_Value := v\<rparr>)\<rparr>)"

definition handleResolved :: "alert_env \<Rightarrow> time \<Rightarrow> 'v AlertRule \<Rightarrow> string \<Rightarrow> 'v option \<Rightarrow> 'v AlertEngine \<Rightarrow> 'v AlertEngine" where
  "handleResolved env now rule key v e =
     (case activeAlerts e key of
        None \<Rightarrow> e
      | Some a \<Rightarrow>
          (let e1 = e\<lparr>activeAlerts := map_del (activeAlerts e) key\<rparr>; msg = ''Resolved: '' @ ru_Message rule
           in if create_fails env then e1
              else sendNotification env rule v msg ''resolved''
                (e1\<lparr>history := history e1 @ [\<lparr>h_RuleID = ru_ID rule, h_WorkspaceID = ru_WorkspaceID rule, h_Status = ''resolved'',
                   h_Severity = Severity rule, h_Value = v, StartedAt = FirstSeen a, EndedAt = Some now, h_Message = msg\<rparr>]\<rparr>)))"

text \<open>
  The answer of the gateway is \<^term>\<open>None\<close> for an error or a result that is no scalar, and both end
  the evaluation of the rule.
\<close>

definition evaluateRule ::
  "alert_env \<Rightarrow> time \<Rightarrow> 'v :: linorder AlertRule \<Rightarrow> 'v option option \<Rightarrow> 'v AlertEngine \<Rightarrow> 'v AlertEngine" where
  "evaluateRule env now rule result e =
     (if isSilenced env now rule then e
      else case result of
             None \<Rightarrow> e
           | Some v \<Rightarrow>
               (let alertKey = ru_ID rule @ '':default''
                in if compareThreshold v (Operator rule) (Threshold rule) then handleFiring env now rule alertKey v e
                   else handleResolved env now rule alertKey v e))"

text \<open>The rules of one round, or \<^term>\<open>None\<close> when they cannot be loaded, each with the answers it meets.\<close>

definition evaluate ::
  "(alert_env \<times> time \<times> 'v :: linorder AlertRule \<times> 'v option option) list option \<Rightarrow> 'v AlertEngine \<Rightarrow> 'v AlertEngine" where
  "evaluate rules e =
     (case rules of None \<Rightarrow> e | Some rs \<Rightarrow> foldl (\<lambda>e (env, now, rule, result). evaluateRule env now rule result e) e rs)"

subsection \<open>Histories\<close>

text \<open>
  The reader of one rule's history: \<^term>\<open>Some None\<close> while the rule is quiet, \<^term>\<open>Some (Some t)\<close>
  while an alert that started at \<open>t\<close> is open, \<^term>\<open>None\<close> after a row that does not fit.
\<close>

definition read_row :: "time option option \<Rightarrow> 'v AlertHistory \<Rightarrow> time option option" where
  "read_row st h =
     (case st of
        None \<Rightarrow> None
      | Some None \<Rightarrow> if h_Status h = ''firing'' then Some (Some (StartedAt h)) else None
      | Some (Some t) \<Rightarrow> if h_Status h = ''resolved'' \<and> StartedAt h = t then Some None else None)"

definition read_history :: "string \<Rightarrow> 'v AlertHistory list \<Rightarrow> time option option" where
  "read_history rid hs = foldl read_row (Some None) (filter (\<lambda>h. h_RuleID h = rid) hs)"

definition history_ok :: "'v AlertEngine \<Rightarrow> bool" where
  "history_ok e \<longleftrightarrow> (\<forall>rid. read_history rid (history e) = Some (map_option FirstSeen (activeAlerts e (rid @ '':default''))))"

lemma send_frame [simp]:
  "activeAlerts (sendNotification env rule v msg st e) = activeAlerts e" "history (sendNotification env rule v msg st e) = history e"
  by (simp_all add: sendNotification_def split: option.splits)

lemma read_history_snoc:
  "read_history rid (hs @ [h]) = (if h_RuleID h = rid then read_row (read_history rid hs) h else read_history rid hs)"
  by (simp add: read_history_def)

lemma history_ok_firing:
  assumes "history_ok e" and "\<not> create_fails env"
  shows "history_ok (handleFiring env now rule (ru_ID rule @ '':default'') v e)"
proof -
  have ok: "read_history rid (history e) = Some (map_option FirstSeen (activeAlerts e (rid @ '':default'')))" for rid
    using assms(1) by (simp add: history_ok_def)
  show ?thesis
    using assms(2) ok by (cases "activeAlerts e (ru_ID rule @ '':default'')")
      (auto simp: history_ok_def handleFiring_def Let_def read_history_snoc read_row_def)
qed

lemma history_ok_resolved:
  assumes "history_ok e" and "\<not> create_fails env"
  shows "history_ok (handleResolved env now rule (ru_ID rule @ '':default'') v e)"
proof -
  have ok: "read_history rid (history e) = Some (map_option FirstSeen (activeAlerts e (rid @ '':default'')))" for rid
    using assms(1) by (simp add: history_ok_def)
  show ?thesis
    using assms(2) ok by (cases "activeAlerts e (ru_ID rule @ '':default'')")
      (auto simp: history_ok_def handleResolved_def Let_def read_history_snoc read_row_def)
qed

lemma history_ok_rule: "history_ok e \<Longrightarrow> \<not> create_fails env \<Longrightarrow> history_ok (evaluateRule env now rule result e)"
  by (simp add: evaluateRule_def Let_def history_ok_firing history_ok_resolved split: option.splits)

lemma history_ok_round:
  assumes "history_ok e" and "\<forall>rs. rules = Some rs \<longrightarrow> (\<forall>x \<in> set rs. \<not> create_fails (fst x))"
  shows "history_ok (evaluate rules e)"
proof (cases rules)
  case (Some rs)
  have "history_ok (foldl (\<lambda>e (env, now, rule, result). evaluateRule env now rule result e) e rs)"
    if "\<forall>x \<in> set rs. \<not> create_fails (fst x)" for rs
    using that assms(1) by (induction rs arbitrary: e) (auto simp: history_ok_rule)
  then show ?thesis using assms(2) Some by (simp add: evaluate_def)
qed (simp add: evaluate_def assms(1))

lemma firing_quiet:
  assumes "activeAlerts e key = Some a"
  shows "history (handleFiring env now rule key v e) = history e" "sent (handleFiring env now rule key v e) = sent e"
    "activeAlerts (handleFiring env now rule key v e) key \<noteq> None"
  using assms by (simp_all add: handleFiring_def)

subsection \<open>Properties\<close>


definition ex_aenv :: alert_env where
  "ex_aenv = \<lparr>notifiers = {''webhook''}, unmarshal = (\<lambda>s. Some [''c1'']),
     GetAlertChannel = (\<lambda>c. Some \<lparr>ch_Type = ''webhook'', ch_Config = [], ch_Enabled = True\<rparr>), ListAlertSilences = (\<lambda>w. Some []),
     create_fails = False\<rparr>"

definition ex_arule :: "int AlertRule" where
  "ex_arule = \<lparr>ru_ID = ''r'', ru_Name = ''cpu'', ru_WorkspaceID = ''w'', Operator = ''gt'', Threshold = Some 90, Channels = ''[]'',
     Severity = ''high'', ru_Message = ''hot'', SilenceUntil = None\<rparr>"

lemmas ex_alert_defs = ex_aenv_def ex_arule_def evaluate_def evaluateRule_def isSilenced_def compareThreshold_def lift_cmp_def
  handleFiring_def handleResolved_def sendNotification_def notify_channel_def NewEngine_def


text \<open>
  An alert whose first history row cannot be written is never announced: the alert is already
  marked active, so however long the threshold stays breached, with the store working again, nothing
  is recorded or sent.
\<close>

lemma lost_alert_stays_silent:
  fixes rule :: "'v :: linorder AlertRule"
  assumes "create_fails env0" and "\<not> isSilenced env0 now0 rule" and "activeAlerts e (ru_ID rule @ '':default'') = None"
    and "compareThreshold v0 (Operator rule) (Threshold rule)"
    and "list_all (\<lambda>(env, now, v). compareThreshold v (Operator rule) (Threshold rule)) later"
  shows "history (fold (\<lambda>(env, now, v). evaluateRule env now rule (Some v)) later (evaluateRule env0 now0 rule (Some v0) e)) = history e \<and>
    sent (fold (\<lambda>(env, now, v). evaluateRule env now rule (Some v)) later (evaluateRule env0 now0 rule (Some v0) e)) = sent e"
proof -
  define key where "key = ru_ID rule @ '':default''"
  have quiet: "history (fold (\<lambda>(env, now, v). evaluateRule env now rule (Some v)) later x) = history x \<and>
      sent (fold (\<lambda>(env, now, v). evaluateRule env now rule (Some v)) later x) = sent x"
    if "activeAlerts x key \<noteq> None" for x
    using assms(5) that
  proof (induction later arbitrary: x)
    case (Cons l later)
    obtain env now v where l: "l = (env, now, v)" by (cases l)
    define y where "y = evaluateRule env now rule (Some v) x"
    have "history y = history x" "sent y = sent x" "activeAlerts y key \<noteq> None"
      using Cons.prems firing_quiet [of x key _ env now rule v] unfolding y_def l evaluateRule_def key_def Let_def by auto
    then show ?case using Cons.IH [of y] Cons.prems by (simp add: l y_def)
  qed simp
  define x where "x = evaluateRule env0 now0 rule (Some v0) e"
  have "history x = history e" "sent x = sent e" "activeAlerts x key \<noteq> None"
    using assms(1-4) by (simp_all add: x_def evaluateRule_def handleFiring_def key_def Let_def)
  then show ?thesis using quiet [of x] by (simp add: x_def)
qed

end
