(* ===== verification/Spec2Isabelle.thy ===== *)
theory Spec2Isabelle
  imports NetmapApply Runner RelayServer ProbeFactory PathEcho Firewall IPAM Enrollment Expiry Approvals Alerts
begin

text \<open>
  Lattice: verification of the overlay network's control plane and data relay.
\<close>

end
